(* ===== verification/Prelude.thy ===== *)
theory Prelude
  imports Main "HOL-Library.AList" "HOL-Library.Char_ord" "HOL-Library.List_Lexorder"
    "HOL-Library.Word"
begin

text \<open>
  Shared ground of the development: the JavaScript values the TypeScript sources handle
  (\<open>json\<close>), the string operations and regular-expression fragments they use, ordered
  dictionaries (\<open>Map\<close> and plain objects) as association lists, results of fallible
  code as sums, and the generic lemmas the component theories rely on.

  Strings are char lists, one char per UTF-16 code unit, so the model covers text whose
  code units are below 256.  A \<open>Map\<close> is an association list in insertion order
  (\<^const>\<open>AList.update\<close> keeps the position of an existing key, as \<open>Map.set\<close> does).
  A plain object is an association list in enumeration order: \<open>obj_set\<close> puts keys
  that are array indices first and in numeric order, all others in insertion order.
\<close>

unbundle bit_operations_syntax

named_theorems js_simps \<open>equations of the modelled parts of the JavaScript library\<close>
named_theorems invs \<open>preservation lemmas of the component invariants\<close>

type_synonym ('k, 'v) jsmap = "('k \<times> 'v) list"

section \<open>Values\<close>

text \<open>
  A JavaScript number is one of the special values or its shortest decimal
  \<open>Dec m e\<close> (the value \<open>m * 10 ^ e\<close>, with \<open>m\<close> not divisible by ten unless
  it is zero): the decimal that \<open>Number.prototype.toString\<close> prints, which identifies
  the double.
\<close>

datatype jsnum = Dec int int | NegZero | NaN | PosInf | NegInf

datatype json =
    JUndef
  | JNull
  | JBool bool
  | JNum jsnum
  | JStr string
  | JArr "json list"
  | JObj "(string \<times> json) list"

fun truthy :: "json \<Rightarrow> bool" where
  "truthy JUndef = False"
| "truthy JNull = False"
| "truthy (JBool b) = b"
| "truthy (JNum (Dec m e)) = (m \<noteq> 0)"
| "truthy (JNum NegZero) = False"
| "truthy (JNum NaN) = False"
| "truthy (JNum PosInf) = True"
| "truthy (JNum NegInf) = True"
| "truthy (JStr s) = (s \<noteq> [])"
| "truthy (JArr vs) = True"
| "truthy (JObj kvs) = True"

text \<open>Truthiness of an optional string: \<open>undefined\<close> and the empty string are falsy.\<close>

definition str_truthy :: "string option \<Rightarrow> bool" where
  "str_truthy s = (case s of None \<Rightarrow> False | Some t \<Rightarrow> t \<noteq> [])"

lemma str_truthy_simps [simp]:
  "str_truthy None = False" "str_truthy (Some t) = (t \<noteq> [])"
  by (simp_all add: str_truthy_def)

lemma str_truthy_iff: "str_truthy s \<longleftrightarrow> (\<exists>t. s = Some t \<and> t \<noteq> [])"
  by (cases s) auto

text \<open>The \<open>??\<close> operator on optional values.\<close>

definition nullish :: "'a option \<Rightarrow> 'a \<Rightarrow> 'a" where
  "nullish x d = (case x of None \<Rightarrow> d | Some v \<Rightarrow> v)"

definition nullish_opt :: "'a option \<Rightarrow> 'a option \<Rightarrow> 'a option" where
  "nullish_opt x y = (case x of None \<Rightarrow> y | Some v \<Rightarrow> Some v)"

lemma nullish_simps [simp]:
  "nullish None d = d" "nullish (Some v) d = v"
  "nullish_opt None y = y" "nullish_opt (Some v) y = Some v"
  by (simp_all add: nullish_def nullish_opt_def)

section \<open>Strings\<close>

definition is_ws :: "char \<Rightarrow> bool" where
  "is_ws c = ((of_char c :: nat) \<in> {9, 10, 11, 12, 13, 32, 160})"

definition is_digit :: "char \<Rightarrow> bool" where
  "is_digit c = (48 \<le> (of_char c :: nat) \<and> (of_char c :: nat) \<le> 57)"

definition is_upper :: "char \<Rightarrow> bool" where
  "is_upper c = (65 \<le> (of_char c :: nat) \<and> (of_char c :: nat) \<le> 90)"

definition is_lower :: "char \<Rightarrow> bool" where
  "is_lower c = (97 \<le> (of_char c :: nat) \<and> (of_char c :: nat) \<le> 122)"

definition is_alnum :: "char \<Rightarrow> bool" where
  "is_alnum c = (is_digit c \<or> is_upper c \<or> is_lower c)"

definition trim :: "string \<Rightarrow> string" where
  "trim s = rev (dropWhile is_ws (rev (dropWhile is_ws s)))"

text \<open>\<open>toLowerCase\<close> on code units below 256.\<close>

definition lower_char :: "char \<Rightarrow> char" where
  "lower_char c = (let n = (of_char c :: nat) in
     if (65 \<le> n \<and> n \<le> 90) \<or> (192 \<le> n \<and> n \<le> 222 \<and> n \<noteq> 215) then char_of (n + 32) else c)"

definition to_lower :: "string \<Rightarrow> string" where
  "to_lower s = map lower_char s"

definition starts_with :: "string \<Rightarrow> string \<Rightarrow> bool" where
  "starts_with p s = (take (length p) s = p)"

fun str_contains :: "string \<Rightarrow> string \<Rightarrow> bool" where
  "str_contains p [] = (p = [])"
| "str_contains p (c # cs) = (starts_with p (c # cs) \<or> str_contains p cs)"

fun js_join :: "string \<Rightarrow> string list \<Rightarrow> string" where
  "js_join sep [] = []"
| "js_join sep [s] = s"
| "js_join sep (s # t # ss) = s @ sep @ js_join sep (t # ss)"

fun split_on :: "char \<Rightarrow> string \<Rightarrow> string list" where
  "split_on d [] = [[]]"
| "split_on d (c # cs) =
     (if c = d then [] # split_on d cs
      else (case split_on d cs of [] \<Rightarrow> [[c]] | w # ws \<Rightarrow> (c # w) # ws))"

definition digit_char :: "nat \<Rightarrow> char" where
  "digit_char n = char_of (48 + n)"

fun nat_str :: "nat \<Rightarrow> string" where
  "nat_str n = (if n < 10 then [digit_char n] else nat_str (n div 10) @ [digit_char (n mod 10)])"

declare nat_str.simps [simp del]

definition digit_val :: "char \<Rightarrow> nat" where
  "digit_val c = of_char c - 48"

definition str_nat :: "string \<Rightarrow> nat" where
  "str_nat s = foldl (\<lambda>n c. 10 * n + digit_val c) 0 s"

definition int_str :: "int \<Rightarrow> string" where
  "int_str i = (if i < 0 then ''-'' @ nat_str (nat (- i)) else nat_str (nat i))"

subsection \<open>Lemmas on strings\<close>

lemma of_char_digit_char [simp]: "n < 10 \<Longrightarrow> of_char (digit_char n) = 48 + n"
  by (simp add: digit_char_def)

lemma is_digit_digit_char [simp]: "n < 10 \<Longrightarrow> is_digit (digit_char n)"
  by (simp add: is_digit_def)

lemma digit_val_digit_char [simp]: "n < 10 \<Longrightarrow> digit_val (digit_char n) = n"
  by (simp add: digit_val_def)

lemma nat_str_not_Nil [simp]: "nat_str n \<noteq> []"
  by (subst nat_str.simps) simp

lemma list_all_is_digit_nat_str [simp]: "list_all is_digit (nat_str n)"
proof (induction n rule: nat_str.induct)
  case (1 n)
  then show ?case by (subst nat_str.simps) simp
qed

lemma str_nat_snoc [simp]: "str_nat (s @ [c]) = 10 * str_nat s + digit_val c"
  by (simp add: str_nat_def)

lemma str_nat_nat_str [simp]: "str_nat (nat_str n) = n"
proof (induction n rule: nat_str.induct)
  case (1 n)
  show ?case
  proof (cases "n < 10")
    case True
    then show ?thesis by (subst nat_str.simps) (simp add: str_nat_def)
  next
    case False
    with 1 show ?thesis by (subst nat_str.simps) simp
  qed
qed

lemma nat_str_inject [simp]: "nat_str m = nat_str n \<longleftrightarrow> m = n"
  by (metis str_nat_nat_str)

lemma split_on_not_Nil [simp]: "split_on d s \<noteq> []"
  by (induction s) (auto split: list.splits)

lemma split_on_no_sep: "d \<notin> set s \<Longrightarrow> split_on d s = [s]"
  by (induction s) auto

lemma split_on_append: "d \<notin> set s \<Longrightarrow> split_on d (s @ d # t) = s # split_on d t"
  by (induction s) auto

lemma js_join_split_on [simp]: "js_join [d] (split_on d s) = s"
proof (induction s)
  case (Cons c cs)
  then show ?case
    by (cases "split_on d cs" rule: list.exhaust; cases "tl (split_on d cs)")
       (auto split: list.splits)
qed simp

lemma is_digit_not_ws: "is_digit c \<Longrightarrow> \<not> is_ws c"
  by (auto simp: is_digit_def is_ws_def)

lemma trim_id: "s = [] \<or> (\<not> is_ws (hd s) \<and> \<not> is_ws (last s)) \<Longrightarrow> trim s = s"
proof (cases s rule: rev_cases)
  case (snoc ys y)
  moreover assume "s = [] \<or> (\<not> is_ws (hd s) \<and> \<not> is_ws (last s))"
  ultimately show ?thesis
    by (cases ys) (auto simp: trim_def)
qed (simp add: trim_def)

section \<open>Objects\<close>

text \<open>Keys that are array indices are enumerated first and in numeric order.\<close>

definition is_index :: "string \<Rightarrow> bool" where
  "is_index k = (k \<noteq> [] \<and> list_all is_digit k \<and> (k = ''0'' \<or> hd k \<noteq> CHR ''0'') \<and>
     str_nat k < 4294967295)"

fun ins_index :: "string \<Rightarrow> 'a \<Rightarrow> (string \<times> 'a) list \<Rightarrow> (string \<times> 'a) list" where
  "ins_index k v [] = [(k, v)]"
| "ins_index k v ((l, w) # kvs) =
     (if is_index l \<and> str_nat l < str_nat k then (l, w) # ins_index k v kvs
      else (k, v) # (l, w) # kvs)"

definition obj_set :: "string \<Rightarrow> 'a \<Rightarrow> (string \<times> 'a) list \<Rightarrow> (string \<times> 'a) list" where
  "obj_set k v kvs =
     (if k \<in> fst ` set kvs then AList.update k v kvs
      else if is_index k then ins_index k v kvs
      else kvs @ [(k, v)])"

text \<open>\<open>Object.fromEntries\<close>, and \<open>{...a, ...b}\<close>.\<close>

definition obj_from_entries :: "(string \<times> 'a) list \<Rightarrow> (string \<times> 'a) list" where
  "obj_from_entries kvs = fold (\<lambda>(k, v) acc. obj_set k v acc) kvs []"

definition obj_merge :: "(string \<times> 'a) list \<Rightarrow> (string \<times> 'a) list \<Rightarrow> (string \<times> 'a) list" where
  "obj_merge a b = fold (\<lambda>(k, v) acc. obj_set k v acc) b a"

text \<open>Reading a property: a missing one is \<open>undefined\<close>.\<close>

definition obj_get :: "(string \<times> json) list \<Rightarrow> string \<Rightarrow> json" where
  "obj_get kvs k = (case map_of kvs k of None \<Rightarrow> JUndef | Some v \<Rightarrow> v)"

lemma map_of_ins_index: "k \<notin> fst ` set kvs \<Longrightarrow> map_of (ins_index k v kvs) = (map_of kvs)(k \<mapsto> v)"
  by (induction k v kvs rule: ins_index.induct) (auto simp: fun_upd_twist)

lemma map_of_snoc: "k \<notin> fst ` set kvs \<Longrightarrow> map_of (kvs @ [(k, v)]) = (map_of kvs)(k \<mapsto> v)"
  by (induction kvs) (auto simp: fun_upd_twist)

lemma map_of_obj_set [simp]: "map_of (obj_set k v kvs) = (map_of kvs)(k \<mapsto> v)"
  unfolding obj_set_def by (simp add: map_of_ins_index map_of_snoc update_conv' del: map_of_append)

lemma set_ins_index: "fst ` set (ins_index k v kvs) = insert k (fst ` set kvs)"
  by (induction k v kvs rule: ins_index.induct) auto

lemma keys_obj_set [simp]: "fst ` set (obj_set k v kvs) = insert k (fst ` set kvs)"
  by (auto simp: obj_set_def set_ins_index dom_update)

lemma distinct_ins_index:
  "distinct (map fst kvs) \<Longrightarrow> k \<notin> fst ` set kvs \<Longrightarrow> distinct (map fst (ins_index k v kvs))"
proof (induction k v kvs rule: ins_index.induct)
  case (2 k v l w kvs)
  then show ?case using set_ins_index [of k v kvs] by auto
qed simp

lemma distinct_obj_set [simp]:
  "distinct (map fst kvs) \<Longrightarrow> distinct (map fst (obj_set k v kvs))"
  by (auto simp: obj_set_def distinct_ins_index distinct_update)

lemma obj_get_obj_set [simp]:
  "obj_get (obj_set k v kvs) l = (if l = k then v else obj_get kvs l)"
  by (simp add: obj_get_def)

lemma map_of_obj_merge:
  "map_of (obj_merge a b) k = (case map_of (rev b) k of None \<Rightarrow> map_of a k | Some v \<Rightarrow> Some v)"
proof (induction b arbitrary: a)
  case (Cons kv b)
  obtain l v where [simp]: "kv = (l, v)" by (cases kv)
  have "obj_merge a (kv # b) = obj_merge (obj_set l v a) b"
    by (simp add: obj_merge_def)
  then show ?case
    by (simp add: Cons map_add_def split: option.splits)
qed (simp add: obj_merge_def)

section \<open>Sets\<close>

text \<open>A \<open>Set\<close> is a list without repetitions, in insertion order.\<close>

definition set_add :: "'a \<Rightarrow> 'a list \<Rightarrow> 'a list" where
  "set_add x xs = (if x \<in> set xs then xs else xs @ [x])"

lemma set_set_add [simp]: "set (set_add x xs) = insert x (set xs)"
  by (auto simp: set_add_def)

lemma distinct_set_add [simp]: "distinct xs \<Longrightarrow> distinct (set_add x xs)"
  by (simp add: set_add_def)

lemma set_fold_set_add [simp]: "set (fold set_add ys xs) = set xs \<union> set ys"
  by (induction ys arbitrary: xs) auto

lemma distinct_fold_set_add [simp]: "distinct xs \<Longrightarrow> distinct (fold set_add ys xs)"
  by (induction ys arbitrary: xs) auto

definition js_set :: "'a list \<Rightarrow> 'a list" where
  "js_set xs = fold set_add xs []"

lemma js_set_simps [simp]: "set (js_set xs) = set xs" "distinct (js_set xs)"
  by (simp_all add: js_set_def)

section \<open>Sorting\<close>

text \<open>\<open>Array.prototype.sort\<close> with a comparison: a stable sort.\<close>

fun insert_by :: "('a \<Rightarrow> 'a \<Rightarrow> bool) \<Rightarrow> 'a \<Rightarrow> 'a list \<Rightarrow> 'a list" where
  "insert_by le x [] = [x]"
| "insert_by le x (y # ys) = (if le x y then x # y # ys else y # insert_by le x ys)"

definition sort_by :: "('a \<Rightarrow> 'a \<Rightarrow> bool) \<Rightarrow> 'a list \<Rightarrow> 'a list" where
  "sort_by le xs = foldr (insert_by le) xs []"

lemma set_sort_by [simp]: "set (sort_by le xs) = set xs"
proof -
  have "set (insert_by le x ys) = insert x (set ys)" for x and ys :: "'a list"
    by (induction ys) auto
  then show ?thesis by (induction xs) (auto simp: sort_by_def)
qed

lemma distinct_sort_by [simp]: "distinct (sort_by le xs) = distinct xs"
proof -
  have "length (sort_by le xs) = length xs"
  proof -
    have "length (insert_by le x ys) = Suc (length ys)" for x and ys :: "'a list"
      by (induction ys) auto
    then show ?thesis by (induction xs) (auto simp: sort_by_def)
  qed
  then show ?thesis by (metis card_distinct distinct_card set_sort_by)
qed

section \<open>Numbers as text\<close>

text \<open>\<open>Number::toString\<close> for radix ten, on the shortest decimal.\<close>

definition zeros :: "nat \<Rightarrow> string" where
  "zeros n = replicate n (CHR ''0'')"

definition dec_str :: "nat \<Rightarrow> int \<Rightarrow> string" where
  "dec_str m e = (let ds = nat_str m; k = int (length ds); n = k + e in
     if k \<le> n \<and> n \<le> 21 then ds @ zeros (nat (n - k))
     else if 0 < n \<and> n \<le> 21 then take (nat n) ds @ ''.'' @ drop (nat n) ds
     else if -6 < n \<and> n \<le> 0 then ''0.'' @ zeros (nat (- n)) @ ds
     else (take 1 ds @ (if k = 1 then [] else ''.'' @ drop 1 ds)) @ ''e'' @
          (if n - 1 < 0 then ''-'' @ nat_str (nat (1 - n)) else ''+'' @ nat_str (nat (n - 1))))"

fun num_str :: "jsnum \<Rightarrow> string" where
  "num_str (Dec m e) = (if m < 0 then ''-'' @ dec_str (nat (- m)) e else dec_str (nat m) e)"
| "num_str NegZero = ''0''"
| "num_str NaN = ''NaN''"
| "num_str PosInf = ''Infinity''"
| "num_str NegInf = ''-Infinity''"

text \<open>The number of an integer, in the normal form of \<^typ>\<open>jsnum\<close>.\<close>

function strip10 :: "int \<Rightarrow> int \<Rightarrow> jsnum" where
  "strip10 m e = (if m = 0 then Dec 0 0 else if m mod 10 = 0 then strip10 (m div 10) (e + 1)
     else Dec m e)"
  by pat_completeness auto
termination
  by (relation "measure (\<lambda>(m, e). nat \<bar>m\<bar>)") auto

declare strip10.simps [simp del]

abbreviation jint :: "int \<Rightarrow> json" where
  "jint i \<equiv> JNum (strip10 i 0)"

section \<open>JSON.stringify\<close>

definition hex_char :: "nat \<Rightarrow> char" where
  "hex_char n = (if n < 10 then char_of (48 + n) else char_of (87 + n))"

fun quote_char :: "char \<Rightarrow> string" where
  "quote_char c = (let n = (of_char c :: nat) in
     if n = 34 then [CHR 0x5C, CHR 0x22]
     else if n = 92 then [CHR 0x5C, CHR 0x5C]
     else if n = 8 then CHR 0x5C # ''b''
     else if n = 9 then CHR 0x5C # ''t''
     else if n = 10 then CHR 0x5C # ''n''
     else if n = 12 then CHR 0x5C # ''f''
     else if n = 13 then CHR 0x5C # ''r''
     else if n < 32 then CHR 0x5C # ''u00'' @ [hex_char (n div 16), hex_char (n mod 16)]
     else [c])"

definition quote_str :: "string \<Rightarrow> string" where
  "quote_str s = [CHR 0x22] @ concat (map quote_char s) @ [CHR 0x22]"

text \<open>
  \<open>JSON.stringify(v)\<close>, and \<open>JSON.stringify(v, keys)\<close> with an array replacer: only
  the listed keys are printed, at every depth and in the order of the list.
  The result is \<open>None\<close> for \<open>undefined\<close>; an undefined member of an object is
  omitted and an undefined element of an array is printed as \<open>null\<close>.
\<close>

definition pick_fields :: "string list option \<Rightarrow> (string \<times> string option) list \<Rightarrow> string list" where
  "pick_fields allow fs =
     (let ks = (case allow of None \<Rightarrow> map fst fs | Some ks \<Rightarrow> ks) in
      concat (map (\<lambda>k. case map_of fs k of
                 Some (Some s) \<Rightarrow> [quote_str k @ '':'' @ s]
               | _ \<Rightarrow> []) ks))"

fun stringify :: "string list option \<Rightarrow> json \<Rightarrow> string option"
  and stringify_elems :: "string list option \<Rightarrow> json list \<Rightarrow> string list"
  and stringify_fields :: "string list option \<Rightarrow> (string \<times> json) list \<Rightarrow> (string \<times> string option) list"
where
  "stringify a JUndef = None"
| "stringify a JNull = Some ''null''"
| "stringify a (JBool b) = Some (if b then ''true'' else ''false'')"
| "stringify a (JNum n) = Some (if n \<in> {NaN, PosInf, NegInf} then ''null'' else num_str n)"
| "stringify a (JStr s) = Some (quote_str s)"
| "stringify a (JArr vs) = Some (''['' @ js_join '','' (stringify_elems a vs) @ '']'')"
| "stringify a (JObj kvs) =
     Some (''{'' @ js_join '','' (pick_fields a (stringify_fields a kvs)) @ ''}'')"
| "stringify_elems a [] = []"
| "stringify_elems a (v # vs) =
     (case stringify a v of None \<Rightarrow> ''null'' | Some s \<Rightarrow> s) # stringify_elems a vs"
| "stringify_fields a [] = []"
| "stringify_fields a ((k, v) # kvs) = (k, stringify a v) # stringify_fields a kvs"

section \<open>Generic lemmas on lists and association lists\<close>

lemma find_SomeD: "find P xs = Some x \<Longrightarrow> x \<in> set xs \<and> P x"
  by (induction xs) (auto split: if_splits)

lemma find_Some_split:
  "find P xs = Some x \<Longrightarrow> \<exists>ys zs. xs = ys @ x # zs \<and> P x \<and> (\<forall>y \<in> set ys. \<not> P y)"
proof (induction xs)
  case (Cons a xs)
  show ?case
  proof (cases "P a")
    case True
    with Cons.prems show ?thesis by (intro exI [of _ "[]"] exI [of _ xs]) simp
  next
    case False
    with Cons obtain ys zs where "xs = ys @ x # zs" "P x" "\<forall>y \<in> set ys. \<not> P y" by auto
    with False show ?thesis by (intro exI [of _ "a # ys"] exI [of _ zs]) simp
  qed
qed simp

lemma filter_eq_ConsD': "filter P xs = y # ys \<Longrightarrow> y \<in> set xs \<and> P y"
  by (metis list.set_intros(1) mem_Collect_eq set_filter)

lemma map_of_update [simp]: "map_of (AList.update k v al) = (map_of al)(k \<mapsto> v)"
  by (simp add: update_conv')

lemma map_of_delete [simp]: "map_of (AList.delete k al) = (map_of al)(k := None)"
  by (simp add: delete_conv')

lemma keys_update [simp]: "fst ` set (AList.update k v al) = insert k (fst ` set al)"
  by (simp add: dom_update)

lemma keys_delete [simp]: "fst ` set (AList.delete k al) = fst ` set al - {k}"
  by (induction al) auto

end
