(* ===== verification/Core_Model.thy ===== *)
theory Core_Model
  imports Prelude
begin

text \<open>
  The core package (\<open>packages/core/src/index.ts\<close>): the vocabulary of the platform
  (configuration, plugin references, pipeline specifications, secrets, datasets, execution
  context), the redaction of sensitive data (\<open>redactValue\<close>, \<open>isSensitiveKey\<close>,
  \<open>looksSensitive\<close>), slugs, the stable hash and vector collection names.
  The lemmas show that redaction leaves no sensitive key or value and is idempotent, that
  slugs and hashes have their documented shape, and where collection names collide.
\<close>

section \<open>Configuration\<close>

datatype ConfigScope = Scope_global | Scope_environment | Scope_pipeline
  | Scope_pipeline_version | Scope_tenant | Scope_tenant_pipeline | Scope_runtime

definition CONFIG_SCOPE_PRECEDENCE :: "ConfigScope list" where
  "CONFIG_SCOPE_PRECEDENCE = [Scope_global, Scope_environment, Scope_pipeline,
     Scope_pipeline_version, Scope_tenant, Scope_tenant_pipeline, Scope_runtime]"

text \<open>\<open>CONFIG_SCOPE_PRECEDENCE.indexOf(scope)\<close>; every scope is in the list.\<close>

definition scope_index :: "ConfigScope \<Rightarrow> nat" where
  "scope_index s = length (takeWhile (\<lambda>t. t \<noteq> s) CONFIG_SCOPE_PRECEDENCE)"

datatype ConfigValueType = T_string | T_integer | T_number | T_boolean | T_object | T_array
  | T_secret_ref

record ConfigDefinition =
  cd_key :: string
  cd_type :: ConfigValueType
  cd_defaultValue :: json
  cd_allowedScopes :: "ConfigScope list"
  cd_required :: bool
  cd_secret :: bool
  cd_sensitive :: bool
  cd_overridable :: "bool option"
  cd_inherited :: "bool option"
  cd_nullable :: bool
  cd_tenantOverridable :: bool
  cd_runtimeOverridable :: bool
  cd_allowedValues :: "json list option"

record ConfigValue =
  cv_key :: string
  cv_value :: json
  cv_scope :: ConfigScope
  cv_scopeId :: "string option"
  cv_locked :: bool
  cv_secret :: bool
  cv_sensitive :: bool

record ResolvedConfigValue =
  rv_value :: json
  rv_sourceScope :: ConfigScope
  rv_sourceObjectId :: "string option"
  rv_defaulted :: bool
  rv_locked :: bool
  rv_secret :: bool
  rv_sensitive :: bool
  rv_redacted :: bool
  rv_inherited :: bool

datatype violation_reason = Scope_not_allowed ConfigScope | Tenant_override_not_allowed
  | Runtime_override_not_allowed | Locked_by_higher_trust | Null_not_allowed
  | Outside_allowed_values | Type_mismatch ConfigValueType | Required_missing

record ConfigViolation =
  vi_key :: string
  vi_scope :: ConfigScope
  vi_reason :: violation_reason

record ResolvedConfig =
  rc_pipelineId :: string
  rc_pipelineVersionId :: "string option"
  rc_tenantId :: string
  rc_environment :: string
  rc_values :: "(string \<times> ResolvedConfigValue) list"
  rc_violations :: "ConfigViolation list"

section \<open>Pipeline specifications\<close>

datatype PluginCategory = Cat_datasource | Cat_loader | Cat_parser | Cat_chunker | Cat_embedder
  | Cat_vector_store | Cat_retriever | Cat_reranker | Cat_llm | Cat_prompt_template | Cat_tool
  | Cat_guardrail | Cat_evaluator | Cat_output_parser | Cat_transformer | Cat_router | Cat_control
  | Cat_memory | Cat_sink | Cat_connection_driver

record PluginRef =
  pr_category :: PluginCategory
  pr_id :: string
  pr_version :: string

record PipelineStage =
  stg_id :: string
  stg_label :: string

record PipelineBindingDecl =
  bd_id :: string
  bd_dataset :: "string option"
  bd_connection :: "string option"

datatype secret_scope = SS_tenant | SS_environment | SS_global | SS_tenant_provider | SS_datasource

datatype SecretProviderKind = SP_database_encrypted | SP_environment | SP_kubernetes_secret
  | SP_vault | SP_aws_secrets_manager

record SecretRef =
  sr_provider :: "SecretProviderKind option"
  sr_scope :: secret_scope
  sr_tenantId :: "string option"
  sr_environment :: "string option"
  sr_key :: string
  sr_version :: "string option"

datatype node_type = NT_input | NT_output

record dataset_ref =
  dr_slug :: string
  dr_alias :: "string option"

record PipelineNode =
  n_id :: string
  n_type :: "node_type option"
  n_plugin :: "PluginRef option"
  n_config :: "(string \<times> json) list option"
  n_secrets :: "(string \<times> SecretRef) list option"
  n_dataset :: "dataset_ref option"
  n_connection :: "string option"
  n_binding :: "string option"
  n_stream :: bool
  n_streamAs :: "string option"
  n_ui :: "(string \<times> json) list option"

record PipelineEdge =
  e_from :: string
  e_to :: string
  e_fromPort :: "string option"
  e_toPort :: "string option"

record PipelineSpec =
  ps_apiVersion :: string
  ps_kind :: string
  ps_name :: string
  ps_stages :: "PipelineStage list option"
  ps_nodes :: "PipelineNode list"
  ps_edges :: "PipelineEdge list"
  ps_bindings :: "PipelineBindingDecl list"

section \<open>Redaction\<close>

text \<open>
  \<open>/(api[_-]?key|authorization|bearer|password|passwd|secret|token|
  connection[_-]?string|private[_-]?key)/i\<close>: the optional separator is spelled out.
\<close>

definition sensitive_words :: "string list" where
  "sensitive_words = [''apikey'', ''api_key'', ''api-key'', ''authorization'', ''bearer'',
     ''password'', ''passwd'', ''secret'', ''token'', ''connectionstring'',
     ''connection_string'', ''connection-string'', ''privatekey'', ''private_key'',
     ''private-key'']"

definition isSensitiveKey :: "string \<Rightarrow> bool" where
  "isSensitiveKey key = list_ex (\<lambda>w. str_contains w (to_lower key)) sensitive_words"

text \<open>\<open>/^(sk-|xox[baprs]-|gh[pousr]_)/\<close>\<close>

definition secret_prefix :: "string \<Rightarrow> bool" where
  "secret_prefix s = (starts_with ''sk-'' s
     \<or> list_ex (\<lambda>c. starts_with (''xox'' @ [c] @ ''-'') s) ''baprs''
     \<or> list_ex (\<lambda>c. starts_with (''gh'' @ [c] @ ''_'') s) ''pousr'')"

text \<open>\<open>/^Bearer\s+\S+/\<close>: after the run of white space some other character follows.\<close>

definition bearer_value :: "string \<Rightarrow> bool" where
  "bearer_value s = (starts_with ''Bearer'' s \<and>
     (let rest = drop 6 s in takeWhile is_ws rest \<noteq> [] \<and> dropWhile is_ws rest \<noteq> []))"

definition b64url_char :: "char \<Rightarrow> bool" where
  "b64url_char c = (is_alnum c \<or> c = CHR ''_'' \<or> c = CHR ''-'')"

text \<open>
  \<open>/^eyJ[A-Za-z0-9_-]+\.[A-Za-z0-9_-]+\.[A-Za-z0-9_-]+$/\<close>: three non-empty segments,
  none of which can contain the separating dot.
\<close>

definition jwt_shape :: "string \<Rightarrow> bool" where
  "jwt_shape s = (case split_on (CHR ''.'') s of
      [h, p, g] \<Rightarrow> starts_with ''eyJ'' h \<and> drop 3 h \<noteq> [] \<and> p \<noteq> [] \<and> g \<noteq> []
                  \<and> list_all b64url_char (drop 3 h) \<and> list_all b64url_char p \<and> list_all b64url_char g
    | _ \<Rightarrow> False)"

definition scheme_char :: "char \<Rightarrow> bool" where
  "scheme_char c = (is_alnum c \<or> c \<in> {CHR ''+'', CHR ''.'', CHR ''-''})"

definition cred_char :: "char \<Rightarrow> bool" where
  "cred_char c = (\<not> is_ws c \<and> c \<noteq> CHR ''/'' \<and> c \<noteq> CHR ''@'')"

text \<open>
  \<open>/^[A-Za-z][A-Za-z0-9+.-]*:\/\/[^\s/@]+:[^\s/@]+@\S+$/\<close>: the credentials are the longest
  run without white space, slash or at-sign; they are followed by the at-sign and hold a
  colon that is neither first nor last.
\<close>

definition connection_string_shape :: "string \<Rightarrow> bool" where
  "connection_string_shape s =
     (case s of [] \<Rightarrow> False | c # cs \<Rightarrow>
       (is_upper c \<or> is_lower c) \<and>
       (let r = dropWhile scheme_char cs in
        starts_with ''://'' r \<and>
        (let a = drop 3 r; cred = takeWhile cred_char a; after = dropWhile cred_char a in
         CHR '':'' \<in> set (butlast (tl cred)) \<and>
         (case after of [] \<Rightarrow> False
          | x # host \<Rightarrow> x = CHR ''@'' \<and> host \<noteq> [] \<and> list_all (\<lambda>c. \<not> is_ws c) host))))"

definition token_char :: "char \<Rightarrow> bool" where
  "token_char c = (is_alnum c \<or> c \<in> {CHR ''+'', CHR ''/'', CHR ''='', CHR ''_'', CHR ''.'', CHR ''-''})"

definition token_noise :: "char \<Rightarrow> bool" where
  "token_noise c = (c \<in> {CHR ''+'', CHR ''/'', CHR ''='', CHR ''_'', CHR ''-''})"

definition looksSensitive :: "string \<Rightarrow> bool" where
  "looksSensitive value =
     (if secret_prefix value then True
      else if bearer_value value then True
      else let trimmed = trim value in
        if jwt_shape trimmed then True
        else if connection_string_shape trimmed then True
        else if list_ex is_ws value then False
        else if \<not> (list_all token_char value \<and> 40 \<le> length value) then False
        else let hasDigit = list_ex is_digit value; hasUpper = list_ex is_upper value;
                 hasLower = list_ex is_lower value; hasTokenNoise = list_ex token_noise value;
                 classes = (if hasDigit then 1 else 0) + (if hasUpper then 1 else 0)
                           + (if hasLower then 1 else (0::nat))
             in hasDigit \<or> hasTokenNoise \<or> 2 \<le> classes)"

abbreviation REDACTED :: string where
  "REDACTED \<equiv> ''REDACTED''"

fun redactValue :: "json \<Rightarrow> json"
  and redact_elems :: "json list \<Rightarrow> json list"
  and redact_fields :: "(string \<times> json) list \<Rightarrow> (string \<times> json) list"
where
  "redactValue JNull = JNull"
| "redactValue JUndef = JUndef"
| "redactValue (JStr s) = (if looksSensitive s then JStr REDACTED else JStr s)"
| "redactValue (JArr vs) = JArr (redact_elems vs)"
| "redactValue (JObj kvs) = JObj (redact_fields kvs)"
| "redactValue (JBool b) = JBool b"
| "redactValue (JNum n) = JNum n"
| "redact_elems [] = []"
| "redact_elems (v # vs) = redactValue v # redact_elems vs"
| "redact_fields [] = []"
| "redact_fields ((k, v) # kvs) =
     (k, if isSensitiveKey k then JStr REDACTED else redactValue v) # redact_fields kvs"

text \<open>What redaction must remove, at any depth.\<close>

fun leaks :: "json \<Rightarrow> bool"
  and leaks_elems :: "json list \<Rightarrow> bool"
  and leaks_fields :: "(string \<times> json) list \<Rightarrow> bool"
where
  "leaks JNull = False"
| "leaks JUndef = False"
| "leaks (JStr s) = looksSensitive s"
| "leaks (JArr vs) = leaks_elems vs"
| "leaks (JObj kvs) = leaks_fields kvs"
| "leaks (JBool b) = False"
| "leaks (JNum n) = False"
| "leaks_elems [] = False"
| "leaks_elems (v # vs) = (leaks v \<or> leaks_elems vs)"
| "leaks_fields [] = False"
| "leaks_fields ((k, v) # kvs) =
     ((if isSensitiveKey k then v \<noteq> JStr REDACTED else leaks v) \<or> leaks_fields kvs)"

section \<open>Slugs, hashes and collection names\<close>

definition slug_char :: "char \<Rightarrow> bool" where
  "slug_char c = (is_lower c \<or> is_digit c)"

text \<open>\<open>replace(/[^a-z0-9]+/g, "_")\<close>: each maximal run of other characters becomes one underscore.\<close>

fun collapse_runs :: "(char \<Rightarrow> bool) \<Rightarrow> bool \<Rightarrow> string \<Rightarrow> string" where
  "collapse_runs keep inrun [] = []"
| "collapse_runs keep inrun (c # cs) =
     (if keep c then c # collapse_runs keep False cs
      else if inrun then collapse_runs keep True cs
      else CHR ''_'' # collapse_runs keep True cs)"

text \<open>\<open>replace(/^_+|_+$/g, "")\<close>\<close>

definition strip_underscores :: "string \<Rightarrow> string" where
  "strip_underscores s =
     rev (dropWhile (\<lambda>c. c = CHR ''_'') (rev (dropWhile (\<lambda>c. c = CHR ''_'') s)))"

definition sanitizeSlug :: "string \<Rightarrow> string" where
  "sanitizeSlug input =
     (let s = take 48 (strip_underscores (collapse_runs slug_char False (to_lower input)))
      in if s = [] then ''default'' else s)"

definition hash_step :: "32 word \<Rightarrow> char \<Rightarrow> 32 word" where
  "hash_step h c = (h * 33) XOR of_nat (of_char c)"

fun hex_digits :: "nat \<Rightarrow> nat \<Rightarrow> string" where
  "hex_digits 0 n = []"
| "hex_digits (Suc k) n = hex_digits k (n div 16) @ [hex_char (n mod 16)]"

text \<open>
  \<open>(hash >>> 0).toString(16).padStart(8, "0")\<close>: the eight hexadecimal digits of the
  32-bit value.
\<close>

definition stableHash_str :: "string \<Rightarrow> string" where
  "stableHash_str s = hex_digits 8 (unat (foldl hash_step 5381 s))"

text \<open>
  \<open>stableHash\<close>: a string is hashed as it is, any other value by its JSON text
  restricted to its own sorted keys.  \<open>Object.keys\<close> of \<open>null\<close> and
  \<open>undefined\<close> raises, which is \<open>None\<close>.
\<close>

definition own_keys :: "json \<Rightarrow> string list" where
  "own_keys v = (case v of JObj kvs \<Rightarrow> map fst kvs
     | JArr vs \<Rightarrow> map nat_str [0..<length vs] | _ \<Rightarrow> [])"

definition stableHash :: "json \<Rightarrow> string option" where
  "stableHash input = (case input of
      JStr s \<Rightarrow> Some (stableHash_str s)
    | JNull \<Rightarrow> None
    | JUndef \<Rightarrow> None
    | v \<Rightarrow> map_option stableHash_str (stringify (Some (sort (own_keys v))) v))"

record EmbeddingProfile =
  ep_provider :: string
  ep_model :: string
  ep_dimensions :: int
  ep_normalization :: "string option"
  ep_distanceMetric :: string
  ep_chunkingSettingsHash :: string

definition profile_json :: "EmbeddingProfile \<Rightarrow> json" where
  "profile_json p = JObj ([(''provider'', JStr (ep_provider p)), (''model'', JStr (ep_model p)),
      (''dimensions'', jint (ep_dimensions p))]
     @ (case ep_normalization p of None \<Rightarrow> [] | Some n \<Rightarrow> [(''normalization'', JStr n)])
     @ [(''distanceMetric'', JStr (ep_distanceMetric p)),
        (''chunkingSettingsHash'', JStr (ep_chunkingSettingsHash p))])"

text \<open>The hash of an object is never \<open>None\<close>, so the fallback is not reached.\<close>

definition vectorCollectionName :: "string \<Rightarrow> string \<Rightarrow> string \<Rightarrow> EmbeddingProfile \<Rightarrow> string" where
  "vectorCollectionName environment tenantSlug pipelineSlug profile =
     js_join ''_'' [''rag'', sanitizeSlug environment, sanitizeSlug tenantSlug,
       sanitizeSlug pipelineSlug, nullish (stableHash (profile_json profile)) []]"

section \<open>Lemmas\<close>

subsection \<open>Scope order\<close>

lemma scope_index_simps [simp]:
  "scope_index Scope_global = 0" "scope_index Scope_environment = 1"
  "scope_index Scope_pipeline = 2" "scope_index Scope_pipeline_version = 3"
  "scope_index Scope_tenant = 4" "scope_index Scope_tenant_pipeline = 5"
  "scope_index Scope_runtime = 6"
  by (simp_all add: scope_index_def CONFIG_SCOPE_PRECEDENCE_def)

lemma scope_index_inject [simp]: "scope_index s = scope_index t \<longleftrightarrow> s = t"
  by (cases s; cases t) simp_all

subsection \<open>Redaction\<close>

lemma looksSensitive_REDACTED [simp]: "\<not> looksSensitive REDACTED"
  by code_simp

lemma redact_fields_keys [simp]: "map fst (redact_fields kvs) = map fst kvs"
  by (induction kvs) auto

lemma redact_elems_map: "redact_elems vs = map redactValue vs"
  by (induction vs) auto

lemma redact_no_leaks:
  "\<not> leaks (redactValue v)" "\<not> leaks_elems (redact_elems vs)" "\<not> leaks_fields (redact_fields kvs)"
  by (induction v and vs and kvs rule: redactValue_redact_elems_redact_fields.induct) auto

lemma redact_fixed:
  "\<not> leaks v \<Longrightarrow> redactValue v = v"
  "\<not> leaks_elems vs \<Longrightarrow> redact_elems vs = vs"
  "\<not> leaks_fields kvs \<Longrightarrow> redact_fields kvs = kvs"
  by (induction v and vs and kvs rule: redactValue_redact_elems_redact_fields.induct)
     (auto split: if_splits)

lemma leaks_elems_iff: "leaks_elems vs \<longleftrightarrow> (\<exists>v \<in> set vs. leaks v)"
  by (induction vs) auto

lemma leaks_fields_iff: "leaks_fields kvs \<longleftrightarrow>
    (\<exists>kv \<in> set kvs. if isSensitiveKey (fst kv) then snd kv \<noteq> JStr REDACTED else leaks (snd kv))"
proof (induction kvs)
  case (Cons kv kvs)
  then show ?case by (cases kv) simp
qed simp

text \<open>\<open>within w v\<close>: the value \<open>w\<close> occurs in \<open>v\<close>, at any depth of arrays and objects.\<close>

inductive within :: "json \<Rightarrow> json \<Rightarrow> bool" where
  here: "within v v"
| elem: "x \<in> set vs \<Longrightarrow> within w x \<Longrightarrow> within w (JArr vs)"
| field: "(k, x) \<in> set kvs \<Longrightarrow> within w x \<Longrightarrow> within w (JObj kvs)"

lemma within_no_leak: "within w v \<Longrightarrow> \<not> leaks v \<Longrightarrow> \<not> leaks w"
proof (induction rule: within.induct)
  case (field k x kvs w)
  then show ?case by (auto simp: leaks_fields_iff split: if_splits)
qed (auto simp: leaks_elems_iff)

text \<open>
  redaction is complete.  Wherever an object occurs inside a redacted value, its members
  with a sensitive key hold the placeholder only; and no string that occurs there looks like
  a credential.
\<close>

theorem redaction_complete:
  assumes "within w (redactValue v)"
  shows "(w = JStr s \<longrightarrow> \<not> looksSensitive s) \<and>
         (w = JObj kvs \<longrightarrow> (k, x) \<in> set kvs \<longrightarrow> isSensitiveKey k \<longrightarrow> x = JStr REDACTED)"
  using within_no_leak [OF assms redact_no_leaks(1)]
  by (fastforce simp: leaks_fields_iff split: if_splits)

theorem redaction_complete_witness:
  "within (JObj [(''api_key'', JStr REDACTED)])
     (redactValue (JArr [JObj [(''api_key'', JStr ''sk-1'')]])) \<and>
   JStr REDACTED = JStr REDACTED"
proof -
  have w: "within (JObj [(''api_key'', JStr REDACTED)])
     (redactValue (JArr [JObj [(''api_key'', JStr ''sk-1'')]]))"
    by (auto simp: isSensitiveKey_def sensitive_words_def to_lower_def lower_char_def
        starts_with_def intro!: within.intros(2) within.here)
  have "isSensitiveKey ''api_key''" by code_simp
  then show ?thesis
    using w redaction_complete [OF w, where kvs = "[(''api_key'', JStr REDACTED)]"
        and k = "''api_key''" and x = "JStr REDACTED"] by simp
qed

text \<open>
  Redaction is idempotent, and it changes a value exactly when something in it has to be
  removed; the keys of an object and their order are kept.
\<close>

theorem redaction_idempotent:
  "redactValue (redactValue v) = redactValue v \<and> (redactValue v = v \<longleftrightarrow> \<not> leaks v) \<and>
   map fst (redact_fields kvs) = map fst kvs"
  using redact_no_leaks(1) [of v] redact_fixed(1) [of v] redact_fixed(1) [of "redactValue v"]
  by auto

subsection \<open>Slugs\<close>

lemma set_collapse_runs: "set (collapse_runs keep b s) \<subseteq> {c. keep c} \<union> {CHR ''_''}"
  by (induction keep b s rule: collapse_runs.induct) auto

lemma set_strip_underscores: "set (strip_underscores s) \<subseteq> set s"
  by (auto simp: strip_underscores_def dest!: set_dropWhileD)

lemma hd_strip_underscores: "strip_underscores s \<noteq> [] \<Longrightarrow> hd (strip_underscores s) \<noteq> CHR ''_''"
proof -
  define t where "t = dropWhile (\<lambda>c. c = CHR ''_'') s"
  assume ne: "strip_underscores s \<noteq> []"
  have eq: "strip_underscores s = rev (dropWhile (\<lambda>c. c = CHR ''_'') (rev t))"
    by (simp add: strip_underscores_def t_def)
  obtain zs where t: "t = strip_underscores s @ zs"
    unfolding eq by (metis append_eq_conv_conj rev_append rev_rev_ident takeWhile_dropWhile_id)
  with ne have "hd (strip_underscores s) = hd t" "t \<noteq> []" by auto
  then show ?thesis unfolding t_def by (metis (mono_tags, lifting) hd_dropWhile)
qed

text \<open>
  A slug is never empty, has at most 48 characters, all of them lower-case letters,
  digits or underscores, and does not start with an underscore.
\<close>

theorem sanitizeSlug_shape:
  "sanitizeSlug s \<noteq> [] \<and> length (sanitizeSlug s) \<le> 48 \<and>
   list_all (\<lambda>c. slug_char c \<or> c = CHR ''_'') (sanitizeSlug s) \<and>
   hd (sanitizeSlug s) \<noteq> CHR ''_''"
proof -
  let ?t = "strip_underscores (collapse_runs slug_char False (to_lower s))"
  have "set ?t \<subseteq> {c. slug_char c} \<union> {CHR ''_''}"
    using set_strip_underscores set_collapse_runs by fastforce
  then have "list_all (\<lambda>c. slug_char c \<or> c = CHR ''_'') (take 48 ?t)"
    by (auto simp: list_all_iff dest: in_set_takeD)
  moreover have "take 48 ?t \<noteq> [] \<Longrightarrow> hd (take 48 ?t) \<noteq> CHR ''_''"
    using hd_strip_underscores by force
  moreover have "list_all (\<lambda>c. slug_char c \<or> c = CHR ''_'') ''default''" by code_simp
  ultimately show ?thesis
    unfolding sanitizeSlug_def Let_def by simp
qed

text \<open>
  The collection name does not determine the tenant: the separator is a character that
  slugs may contain, so two tenants can be given the same vector collection.
\<close>

theorem vectorCollectionName_collision:
  "sanitizeSlug ''acme'' \<noteq> sanitizeSlug ''acme_kb'' \<and>
   vectorCollectionName env ''acme'' ''kb_docs'' p = vectorCollectionName env ''acme_kb'' ''docs'' p"
proof -
  have "sanitizeSlug ''acme'' = ''acme''" "sanitizeSlug ''acme_kb'' = ''acme_kb''"
    "sanitizeSlug ''kb_docs'' = ''kb_docs''" "sanitizeSlug ''docs'' = ''docs''"
    by code_simp+
  then show ?thesis by (simp add: vectorCollectionName_def)
qed

subsection \<open>Hashes\<close>

lemma length_hex_digits [simp]: "length (hex_digits k n) = k"
  by (induction k arbitrary: n) auto

lemma hex_digits_inject:
  "m < 16 ^ k \<Longrightarrow> n < 16 ^ k \<Longrightarrow> hex_digits k m = hex_digits k n \<Longrightarrow> m = n"
proof (induction k arbitrary: m n)
  case (Suc k)
  have "hex_char (m mod 16) = hex_char (n mod 16)" "hex_digits k (m div 16) = hex_digits k (n div 16)"
    using Suc.prems(3) by auto
  moreover have "hex_char i = hex_char j \<Longrightarrow> i < 16 \<Longrightarrow> j < 16 \<Longrightarrow> i = j" for i j
    by (auto simp: hex_char_def split: if_splits dest!: arg_cong [where f = "of_char :: char \<Rightarrow> nat"])
  moreover have "m div 16 < 16 ^ k" "n div 16 < 16 ^ k"
    using Suc.prems(1,2) by (simp_all add: less_mult_imp_div_less mult.commute)
  ultimately have "m mod 16 = n mod 16" "m div 16 = n div 16"
    using Suc.IH by simp_all
  then show ?case by (metis div_mult_mod_eq)
qed simp

lemma list_all_hex_digits: "list_all (\<lambda>c. is_digit c \<or> is_lower c) (hex_digits k n)"
proof (induction k arbitrary: n)
  case (Suc k)
  have "is_digit (hex_char (n mod 16)) \<or> is_lower (hex_char (n mod 16))"
    by (auto simp: hex_char_def is_digit_def is_lower_def)
  with Suc show ?case by simp
qed simp

lemma stableHash_str_eq_iff:
  "stableHash_str s = stableHash_str t \<longleftrightarrow> foldl hash_step 5381 s = foldl hash_step 5381 t"
proof -
  have "unat (w :: 32 word) < 2 ^ LENGTH(32)" for w
    by (rule unsigned_less)
  then have "unat (w :: 32 word) < 16 ^ 8" for w
    by simp
  then show ?thesis
    unfolding stableHash_str_def
    by (auto simp: word_unat_eq_iff simp del: hex_digits.simps dest!: hex_digits_inject [rotated 2])
qed

text \<open>
  A stable hash is eight lower-case hexadecimal digits, and it determines the 32-bit
  value it prints (the padding loses nothing).
\<close>

theorem stableHash_str_shape:
  "length (stableHash_str s) = 8 \<and> list_all (\<lambda>c. is_digit c \<or> is_lower c) (stableHash_str s) \<and>
   (stableHash_str s = stableHash_str t \<longleftrightarrow> foldl hash_step 5381 s = foldl hash_step 5381 t)"
  by (simp add: stableHash_str_eq_iff)
     (simp add: stableHash_str_def list_all_hex_digits del: hex_digits.simps)

lemma stableHash_object [simp]: "\<exists>h. stableHash (JObj kvs) = Some h \<and> length h = 8"
  by (simp add: stableHash_def stableHash_str_def)

end
