(* ===== verification/Config_Resolver.thy ===== *)
theory Config_Resolver
  imports Core_Model
begin

text \<open>
  The hierarchical configuration resolver
  (\<open>packages/config-resolver/src/index.ts\<close>): candidate values of seven scopes are
  filtered by the scope they are stored for, validated against the definition of their key
  (allowed scopes, tenant and runtime overrides, locks, null, allowed values, type), and the
  most specific candidate that is not rejected wins.  The lemmas show the precedence and its
  tie-break, that locks and override policies cannot be bypassed, that secrets are never
  returned in clear, what the strict mode adds, and that values stored for other tenants,
  pipelines or environments have no influence.
\<close>

section \<open>Definitions\<close>

record ResolveConfigInput =
  ri_pipelineId :: string
  ri_pipelineVersionId :: "string option"
  ri_tenantId :: string
  ri_environment :: string
  ri_environmentId :: "string option"
  ri_executionScopeId :: "string option"
  ri_values :: "ConfigValue list"
  ri_runtimeOverrides :: "(string \<times> json) list option"

record ConfigResolverOptions =
  ro_strict :: bool
  ro_redactSecrets :: "bool option"

text \<open>The constructor: a \<open>Map\<close> from key to definition.\<close>

definition mk_resolver :: "ConfigDefinition list \<Rightarrow> (string, ConfigDefinition) jsmap" where
  "mk_resolver ds = fold (\<lambda>d m. AList.update (cd_key d) d m) ds []"

fun num_is_integer :: "jsnum \<Rightarrow> bool" where
  "num_is_integer (Dec m e) = (0 \<le> e)"
| "num_is_integer NegZero = True"
| "num_is_integer _ = False"

fun num_is_finite :: "jsnum \<Rightarrow> bool" where
  "num_is_finite (Dec m e) = True"
| "num_is_finite NegZero = True"
| "num_is_finite _ = False"

definition typeMatches :: "ConfigValueType \<Rightarrow> json \<Rightarrow> bool \<Rightarrow> bool" where
  "typeMatches t v nullable =
     (if v = JNull \<or> v = JUndef then nullable \<or> v = JUndef
      else (case t of
        T_string \<Rightarrow> (case v of JStr _ \<Rightarrow> True | JObj _ \<Rightarrow> True | JArr _ \<Rightarrow> True | _ \<Rightarrow> False)
      | T_secret_ref \<Rightarrow> (case v of JStr _ \<Rightarrow> True | JObj _ \<Rightarrow> True | JArr _ \<Rightarrow> True | _ \<Rightarrow> False)
      | T_integer \<Rightarrow> (case v of JNum n \<Rightarrow> num_is_integer n | _ \<Rightarrow> False)
      | T_number \<Rightarrow> (case v of JNum n \<Rightarrow> num_is_finite n | _ \<Rightarrow> False)
      | T_boolean \<Rightarrow> (case v of JBool _ \<Rightarrow> True | _ \<Rightarrow> False)
      | T_object \<Rightarrow> (case v of JObj _ \<Rightarrow> True | _ \<Rightarrow> False)
      | T_array \<Rightarrow> (case v of JArr _ \<Rightarrow> True | _ \<Rightarrow> False)))"

text \<open>
  \<open>Object.is\<close>: equality on primitive values (\<open>NaN\<close> is itself, the two zeros differ),
  identity on arrays and objects.  An allowed value and a candidate value come from different
  documents, so they are never the same array or object.
\<close>

fun object_is :: "json \<Rightarrow> json \<Rightarrow> bool" where
  "object_is (JArr _) _ = False"
| "object_is (JObj _) _ = False"
| "object_is a b = (a = b)"

definition matchesScope :: "ConfigValue \<Rightarrow> ResolveConfigInput \<Rightarrow> bool" where
  "matchesScope c i = (case cv_scope c of
      Scope_global \<Rightarrow> True
    | Scope_runtime \<Rightarrow> True
    | Scope_environment \<Rightarrow> cv_scopeId c = Some (ri_environment i) \<or> cv_scopeId c = ri_environmentId i
    | Scope_pipeline \<Rightarrow> cv_scopeId c = Some (ri_pipelineId i)
    | Scope_pipeline_version \<Rightarrow> cv_scopeId c = ri_pipelineVersionId i
    | Scope_tenant \<Rightarrow> cv_scopeId c = Some (ri_tenantId i)
    | Scope_tenant_pipeline \<Rightarrow> cv_scopeId c = Some (ri_tenantId i @ '':'' @ ri_pipelineId i))"

definition locked_above :: "ConfigValue \<Rightarrow> ConfigValue list \<Rightarrow> bool" where
  "locked_above c all =
     list_ex (\<lambda>x. cv_locked x \<and> scope_index (cv_scope x) < scope_index (cv_scope c)) all"

definition validateCandidate ::
  "ConfigDefinition \<Rightarrow> ConfigValue \<Rightarrow> ConfigValue list \<Rightarrow> ConfigViolation list" where
  "validateCandidate d c all =
     (let vio = (\<lambda>r. \<lparr>vi_key = cv_key c, vi_scope = cv_scope c, vi_reason = r\<rparr>) in
      (if cv_scope c \<notin> set (cd_allowedScopes d) then [vio (Scope_not_allowed (cv_scope c))] else [])
      @ (if (cv_scope c = Scope_tenant \<or> cv_scope c = Scope_tenant_pipeline) \<and> \<not> cd_tenantOverridable d
         then [vio Tenant_override_not_allowed] else [])
      @ (if cv_scope c = Scope_runtime \<and> \<not> cd_runtimeOverridable d
         then [vio Runtime_override_not_allowed] else [])
      @ (if locked_above c all then [vio Locked_by_higher_trust] else [])
      @ (if cv_value c = JNull \<and> \<not> cd_nullable d then [vio Null_not_allowed] else [])
      @ (case cd_allowedValues d of None \<Rightarrow> []
         | Some vs \<Rightarrow> if \<not> list_ex (\<lambda>a. object_is a (cv_value c)) vs
                      then [vio Outside_allowed_values] else [])
      @ (if \<not> typeMatches (cd_type d) (cv_value c) (cd_nullable d)
         then [vio (Type_mismatch (cd_type d))] else []))"

definition candidateIsRejected :: "ConfigDefinition \<Rightarrow> ConfigValue \<Rightarrow> ConfigValue list \<Rightarrow> bool" where
  "candidateIsRejected d c all = (validateCandidate d c all \<noteq> [])"

definition isLocked :: "ConfigDefinition \<Rightarrow> ConfigValue option \<Rightarrow> ConfigValue list \<Rightarrow> bool" where
  "isLocked d winning applicable =
     (if (case winning of None \<Rightarrow> False | Some w \<Rightarrow> cv_locked w) then True
      else if cd_overridable d = Some False then True
      else list_ex (\<lambda>c. cv_key c = cd_key d \<and> cv_locked c) applicable)"

definition runtime_values :: "ResolveConfigInput \<Rightarrow> ConfigValue list" where
  "runtime_values i = map (\<lambda>(k, v). \<lparr>cv_key = k, cv_value = v, cv_scope = Scope_runtime,
       cv_scopeId = Some (nullish (ri_executionScopeId i) ''invocation''),
       cv_locked = False, cv_secret = False, cv_sensitive = False\<rparr>)
     (nullish (ri_runtimeOverrides i) [])"

definition candidateValues :: "ResolveConfigInput \<Rightarrow> ConfigValue list" where
  "candidateValues i = ri_values i @ runtime_values i"

text \<open>The candidates for one definition, in order of increasing precedence (the sort is stable).\<close>

definition relevant :: "ConfigDefinition \<Rightarrow> ResolveConfigInput \<Rightarrow> ConfigValue list" where
  "relevant d i = sort_key (\<lambda>c. scope_index (cv_scope c))
     (filter (\<lambda>c. matchesScope c i) (filter (\<lambda>c. cv_key c = cd_key d) (candidateValues i)))"

definition applicable :: "ConfigDefinition \<Rightarrow> ResolveConfigInput \<Rightarrow> ConfigValue list" where
  "applicable d i = filter (\<lambda>c. \<not> candidateIsRejected d c (relevant d i)) (relevant d i)"

definition winning :: "ConfigDefinition \<Rightarrow> ResolveConfigInput \<Rightarrow> ConfigValue option" where
  "winning d i = (if applicable d i = [] then None else Some (last (applicable d i)))"

definition rawValue :: "ConfigDefinition \<Rightarrow> ResolveConfigInput \<Rightarrow> json" where
  "rawValue d i = (case winning d i of None \<Rightarrow> cd_defaultValue d | Some w \<Rightarrow> cv_value w)"

definition definition_violations :: "ConfigDefinition \<Rightarrow> ResolveConfigInput \<Rightarrow> ConfigViolation list" where
  "definition_violations d i =
     concat (map (\<lambda>c. validateCandidate d c (relevant d i)) (relevant d i))
     @ (if rawValue d i \<in> {JUndef, JNull} \<and> cd_required d \<and> \<not> cd_nullable d
        then [\<lparr>vi_key = cd_key d,
               vi_scope = (case winning d i of None \<Rightarrow> Scope_global | Some w \<Rightarrow> cv_scope w),
               vi_reason = Required_missing\<rparr>]
        else [])"

definition resolved_value ::
  "ConfigDefinition \<Rightarrow> ResolveConfigInput \<Rightarrow> ConfigResolverOptions \<Rightarrow> ResolvedConfigValue" where
  "resolved_value d i opts =
     (let w = winning d i; raw = rawValue d i;
          secret = (cd_secret d \<or> (case w of None \<Rightarrow> False | Some c \<Rightarrow> cv_secret c));
          sensitive = (cd_sensitive d \<or> (case w of None \<Rightarrow> False | Some c \<Rightarrow> cv_sensitive c) \<or> secret);
          redact = (ro_redactSecrets opts \<noteq> Some False)
      in \<lparr>rv_value = (if secret \<and> redact then JStr REDACTED
                      else if sensitive \<and> redact then redactValue raw else raw),
          rv_sourceScope = (case w of None \<Rightarrow> Scope_global | Some c \<Rightarrow> cv_scope c),
          rv_sourceObjectId = (case w of None \<Rightarrow> None | Some c \<Rightarrow> cv_scopeId c),
          rv_defaulted = (w = None),
          rv_locked = isLocked d w (applicable d i),
          rv_secret = secret,
          rv_sensitive = sensitive,
          rv_redacted = ((secret \<or> sensitive) \<and> redact),
          rv_inherited = (case w of None \<Rightarrow> nullish (cd_inherited d) True
                          | Some c \<Rightarrow> cv_scope c \<noteq> Scope_runtime)\<rparr>)"

datatype resolve_error = ConfigResolutionError "ConfigViolation list"

definition resolve_values ::
  "(string, ConfigDefinition) jsmap \<Rightarrow> ResolveConfigInput \<Rightarrow> ConfigResolverOptions
   \<Rightarrow> (string \<times> ResolvedConfigValue) list" where
  "resolve_values defs i opts =
     fold (\<lambda>d vals. if rawValue d i \<noteq> JUndef then obj_set (cd_key d) (resolved_value d i opts) vals
                    else vals) (map snd defs) []"

definition resolve ::
  "(string, ConfigDefinition) jsmap \<Rightarrow> ResolveConfigInput \<Rightarrow> ConfigResolverOptions
   \<Rightarrow> resolve_error + ResolvedConfig" where
  "resolve defs i opts =
     (let violations = concat (map (\<lambda>d. definition_violations d i) (map snd defs)) in
      if ro_strict opts \<and> violations \<noteq> [] then Inl (ConfigResolutionError violations)
      else Inr \<lparr>rc_pipelineId = ri_pipelineId i, rc_pipelineVersionId = ri_pipelineVersionId i,
               rc_tenantId = ri_tenantId i, rc_environment = ri_environment i,
               rc_values = resolve_values defs i opts, rc_violations = violations\<rparr>)"

section \<open>Lemmas\<close>

lemma mk_resolver_keys: "\<forall>(k, d) \<in> set (mk_resolver ds). cd_key d = k"
proof -
  have "\<forall>(k, d) \<in> set m. cd_key d = k \<Longrightarrow>
      \<forall>(k, d) \<in> set (fold (\<lambda>d m. AList.update (cd_key d) d m) ds m). cd_key d = k" for m
  proof (induction ds arbitrary: m)
    case (Cons d ds)
    have "\<forall>(k, e) \<in> set (AList.update (cd_key d) d m). cd_key e = k"
      using Cons.prems by (induction m) auto
    then show ?case by (simp add: Cons.IH)
  qed simp
  from this [of "[]"] show ?thesis by (simp add: mk_resolver_def)
qed

lemma distinct_mk_resolver: "distinct (map fst (mk_resolver ds))"
proof -
  have "distinct (map fst m) \<Longrightarrow>
      distinct (map fst (fold (\<lambda>d m. AList.update (cd_key d) d m) ds m))" for m
    by (induction ds arbitrary: m) (auto simp: distinct_update)
  then show ?thesis by (simp add: mk_resolver_def)
qed

lemma set_relevant: "set (relevant d i) =
    {c \<in> set (candidateValues i). cv_key c = cd_key d \<and> matchesScope c i}"
  by (auto simp: relevant_def)

lemma applicable_subset: "set (applicable d i) \<subseteq> set (relevant d i)"
  by (auto simp: applicable_def)

lemma sorted_relevant: "sorted (map (\<lambda>c. scope_index (cv_scope c)) (relevant d i))"
  by (simp add: relevant_def)

lemma sorted_applicable: "sorted (map (\<lambda>c. scope_index (cv_scope c)) (applicable d i))"
  unfolding applicable_def using sorted_relevant by (rule sorted_filter)

lemma winning_applicable: "winning d i = Some w \<Longrightarrow> w \<in> set (applicable d i)"
  by (auto simp: winning_def split: if_splits)

lemma winning_None_iff: "winning d i = None \<longleftrightarrow> applicable d i = []"
  by (simp add: winning_def)

lemma not_rejected_iff:
  "\<not> candidateIsRejected d c all \<longleftrightarrow>
     cv_scope c \<in> set (cd_allowedScopes d) \<and>
     (cv_scope c \<in> {Scope_tenant, Scope_tenant_pipeline} \<longrightarrow> cd_tenantOverridable d) \<and>
     (cv_scope c = Scope_runtime \<longrightarrow> cd_runtimeOverridable d) \<and>
     \<not> locked_above c all \<and>
     (cv_value c = JNull \<longrightarrow> cd_nullable d) \<and>
     (\<forall>vs. cd_allowedValues d = Some vs \<longrightarrow> (\<exists>a \<in> set vs. object_is a (cv_value c))) \<and>
     typeMatches (cd_type d) (cv_value c) (cd_nullable d)"
  unfolding candidateIsRejected_def validateCandidate_def Let_def
  by (auto simp: list_ex_iff split: option.splits)

text \<open>The resolved members, read back by key.\<close>

lemma resolve_values_lookup:
  assumes "distinct (map fst defs)" "\<forall>(k, d) \<in> set defs. cd_key d = k"
  shows "map_of (resolve_values defs i opts) k =
     (case map_of defs k of None \<Rightarrow> None
      | Some d \<Rightarrow> if rawValue d i \<noteq> JUndef then Some (resolved_value d i opts) else None)"
proof -
  have "distinct (map fst ds) \<Longrightarrow> \<forall>(k, d) \<in> set ds. cd_key d = k \<Longrightarrow>
     map_of (fold (\<lambda>d vals. if rawValue d i \<noteq> JUndef
         then obj_set (cd_key d) (resolved_value d i opts) vals else vals) (map snd ds) acc) k =
     (case map_of ds k of None \<Rightarrow> map_of acc k
      | Some d \<Rightarrow> if rawValue d i \<noteq> JUndef then Some (resolved_value d i opts) else map_of acc k)"
    for ds :: "(string, ConfigDefinition) jsmap" and acc
  proof (induction ds arbitrary: acc)
    case (Cons kd ds)
    obtain l d where kd: "kd = (l, d)" by (cases kd)
    have l: "cd_key d = l" using Cons.prems(2) kd by simp
    note IH = Cons.IH [OF distinct_tl [OF Cons.prems(1), simplified map_tl [symmetric] list.sel]]
    show ?case
    proof (cases "k = l")
      case True
      then have "map_of ds k = None" using Cons.prems(1) kd by (simp add: map_of_eq_None_iff)
      then show ?thesis using True kd l IH Cons.prems(2) by simp
    next
      case False
      then show ?thesis using kd l IH Cons.prems(2) by (simp split: option.splits)
    qed
  qed simp
  from this [OF assms, of "[]"] show ?thesis
    by (simp add: resolve_values_def split: option.splits)
qed

section \<open>An example request\<close>

text \<open>
  A key a tenant may override, locked nowhere, with a global and a tenant value, another
  tenant's value, and a runtime override that the definition does not permit.
\<close>

definition ex_def :: ConfigDefinition where
  "ex_def = \<lparr>cd_key = ''llm.key'', cd_type = T_string, cd_defaultValue = JUndef,
     cd_allowedScopes = [Scope_global, Scope_tenant, Scope_runtime], cd_required = True,
     cd_secret = True, cd_sensitive = False, cd_overridable = None, cd_inherited = None,
     cd_nullable = False, cd_tenantOverridable = True, cd_runtimeOverridable = False,
     cd_allowedValues = None\<rparr>"

definition ex_value :: "ConfigScope \<Rightarrow> string option \<Rightarrow> string \<Rightarrow> ConfigValue" where
  "ex_value sc sid v = \<lparr>cv_key = ''llm.key'', cv_value = JStr v, cv_scope = sc, cv_scopeId = sid,
     cv_locked = False, cv_secret = False, cv_sensitive = False\<rparr>"

definition ex_input :: ResolveConfigInput where
  "ex_input = \<lparr>ri_pipelineId = ''p'', ri_pipelineVersionId = None, ri_tenantId = ''a'',
     ri_environment = ''prod'', ri_environmentId = None, ri_executionScopeId = None,
     ri_values = [ex_value Scope_tenant (Some ''b'') ''theirs'', ex_value Scope_tenant (Some ''a'') ''mine'',
       ex_value Scope_global None ''shared''],
     ri_runtimeOverrides = Some [(''llm.key'', JStr ''override'')]\<rparr>"

lemma ex_winning: "winning ex_def ex_input = Some (ex_value Scope_tenant (Some ''a'') ''mine'')"
  by code_simp

section \<open>Precedence\<close>

lemma last_filter_max:
  assumes "sorted (map f xs)" "xs \<noteq> []" "x \<in> set xs"
  shows "f x \<le> (f (last xs) :: nat)"
  using assms
proof (induction xs rule: rev_induct)
  case (snoc y ys)
  then show ?case by (auto simp: sorted_append)
qed simp

text \<open>
  C39: precedence.  The winning candidate of a key is stored for the requested scope, is not
  rejected, and no other candidate that is not rejected has a more specific scope; among
  those of its scope it is the last in the order of the input.
\<close>

theorem winning_precedence:
  assumes "winning d i = Some w"
  shows "w \<in> set (candidateValues i) \<and> cv_key w = cd_key d \<and> matchesScope w i \<and>
    \<not> candidateIsRejected d w (relevant d i) \<and>
    (\<forall>c \<in> set (relevant d i). \<not> candidateIsRejected d c (relevant d i) \<longrightarrow>
        scope_index (cv_scope c) \<le> scope_index (cv_scope w)) \<and>
    w = last (filter (\<lambda>c. cv_scope c = cv_scope w \<and> \<not> candidateIsRejected d c (relevant d i))
          (filter (\<lambda>c. matchesScope c i) (filter (\<lambda>c. cv_key c = cd_key d) (candidateValues i))))"
proof -
  have w: "w = last (applicable d i)" "applicable d i \<noteq> []"
    using assms by (auto simp: winning_def split: if_splits)
  then have wa: "w \<in> set (applicable d i)" by simp
  let ?base = "filter (\<lambda>c. matchesScope c i) (filter (\<lambda>c. cv_key c = cd_key d) (candidateValues i))"
  let ?P = "\<lambda>c. \<not> candidateIsRejected d c (relevant d i)"
  have mx: "scope_index (cv_scope c) \<le> scope_index (cv_scope w)" if "c \<in> set (applicable d i)" for c
    unfolding w(1) by (rule last_filter_max [OF sorted_applicable w(2) that])
  have "filter (\<lambda>c. cv_scope c = cv_scope w) (applicable d i) =
      filter (\<lambda>c. cv_scope c = cv_scope w \<and> ?P c)
        (filter (\<lambda>c. scope_index (cv_scope c) = scope_index (cv_scope w)) (relevant d i))"
    by (auto simp: applicable_def intro: filter_cong)
  also have "\<dots> = filter (\<lambda>c. cv_scope c = cv_scope w \<and> ?P c)
        (filter (\<lambda>c. scope_index (cv_scope c) = scope_index (cv_scope w)) ?base)"
    unfolding relevant_def sort_key_stable ..
  also have "\<dots> = filter (\<lambda>c. cv_scope c = cv_scope w \<and> ?P c) ?base"
    by (auto intro: filter_cong)
  finally have eq: "filter (\<lambda>c. cv_scope c = cv_scope w) (applicable d i) =
      filter (\<lambda>c. cv_scope c = cv_scope w \<and> ?P c) ?base" .
  have "last (filter (\<lambda>c. cv_scope c = cv_scope w) (applicable d i)) = w"
    using w by (cases "applicable d i" rule: rev_cases) auto
  with eq wa mx show ?thesis
    using set_relevant [of d i] by (auto simp: applicable_def)
qed

theorem winning_precedence_witness:
  "winning ex_def ex_input = Some (ex_value Scope_tenant (Some ''a'') ''mine'') \<and>
   matchesScope (ex_value Scope_tenant (Some ''a'') ''mine'') ex_input"
  using winning_precedence [OF ex_winning] ex_winning by simp

section \<open>Locks and policies\<close>

text \<open>
  no resolved value bypasses the policy of its definition.  A winning candidate has an
  allowed scope, tenant and runtime overrides win only where the definition permits them, no
  candidate of a more trusted scope is locked, and the value is null only where null is
  allowed, is one of the allowed values and has the declared type.
\<close>

theorem winning_respects_policy:
  assumes "winning d i = Some w"
  shows "cv_scope w \<in> set (cd_allowedScopes d) \<and>
    (cv_scope w \<in> {Scope_tenant, Scope_tenant_pipeline} \<longrightarrow> cd_tenantOverridable d) \<and>
    (cv_scope w = Scope_runtime \<longrightarrow> cd_runtimeOverridable d) \<and>
    (\<forall>c \<in> set (relevant d i). cv_locked c \<longrightarrow> scope_index (cv_scope w) \<le> scope_index (cv_scope c)) \<and>
    (cv_value w = JNull \<longrightarrow> cd_nullable d) \<and>
    (\<forall>vs. cd_allowedValues d = Some vs \<longrightarrow> cv_value w \<in> set vs) \<and>
    typeMatches (cd_type d) (cv_value w) (cd_nullable d)"
proof -
  have nr: "\<not> candidateIsRejected d w (relevant d i)"
    using winning_applicable [OF assms] by (simp add: applicable_def)
  have "object_is a b \<Longrightarrow> a = b" for a b by (cases a) auto
  with nr show ?thesis
    unfolding not_rejected_iff by (fastforce simp: locked_above_def list_ex_iff not_less)
qed

theorem winning_respects_policy_witness:
  "winning ex_def ex_input = Some (ex_value Scope_tenant (Some ''a'') ''mine'') \<and>
   cd_tenantOverridable ex_def"
  using winning_respects_policy [OF ex_winning] ex_winning by (simp add: ex_value_def)

section \<open>Secrets\<close>

text \<open>
  secrets are not returned in clear.  Unless redaction is switched off explicitly, the
  value of a key whose definition or winning candidate is secret is the placeholder, and a
  sensitive value is returned redacted; the flag \<open>redacted\<close> says exactly when.
\<close>

theorem resolved_value_redaction:
  assumes "ro_redactSecrets opts \<noteq> Some False"
  shows "(rv_secret (resolved_value d i opts) \<longrightarrow>
            rv_value (resolved_value d i opts) = JStr REDACTED) \<and>
         (rv_sensitive (resolved_value d i opts) \<longrightarrow> \<not> leaks (rv_value (resolved_value d i opts))) \<and>
         (rv_redacted (resolved_value d i opts) \<longleftrightarrow> rv_sensitive (resolved_value d i opts)) \<and>
         (cd_secret d \<or> (\<exists>w. winning d i = Some w \<and> cv_secret w) \<longleftrightarrow> rv_secret (resolved_value d i opts))"
  using assms redact_no_leaks(1)
  by (auto simp: resolved_value_def Let_def split: option.splits)

theorem resolved_value_redaction_witness:
  "rv_value (resolved_value ex_def ex_input \<lparr>ro_strict = False, ro_redactSecrets = None\<rparr>) = JStr REDACTED"
  using resolved_value_redaction [of "\<lparr>ro_strict = False, ro_redactSecrets = None\<rparr>" ex_def ex_input]
  by (simp add: ex_def_def)

section \<open>Strict mode and isolation\<close>

text \<open>
  The strict mode raises exactly when there is a violation, with all of them, and
  otherwise returns what the lenient mode returns; the lenient mode always returns, and a key
  that is returned is one of the definitions whose value is defined.
\<close>

theorem resolve_strict:
  assumes "ro_strict lenient = False" "ro_strict strict" "ro_redactSecrets strict = ro_redactSecrets lenient"
  shows "\<exists>r. resolve (mk_resolver ds) i lenient = Inr r \<and>
     resolve (mk_resolver ds) i strict =
       (if rc_violations r = [] then Inr r else Inl (ConfigResolutionError (rc_violations r))) \<and>
     (\<forall>k v. map_of (rc_values r) k = Some v \<longrightarrow>
        (\<exists>d \<in> set ds. cd_key d = k \<and> rawValue d i \<noteq> JUndef \<and> v = resolved_value d i lenient))"
proof -
  have eq: "resolved_value d i strict = resolved_value d i lenient" for d
    using assms(3) by (simp add: resolved_value_def)
  have "resolve_values defs i strict = resolve_values defs i lenient" for defs
    unfolding resolve_values_def eq ..
  moreover have "snd ` set (fold (\<lambda>d m. AList.update (cd_key d) d m) ds m) \<subseteq> set ds \<union> snd ` set m"
    for ds and m :: "(string, ConfigDefinition) jsmap"
  proof (induction ds arbitrary: m)
    case (Cons d ds)
    have "snd ` set (AList.update (cd_key d) d m) \<subseteq> insert d (snd ` set m)"
      by (induction m) auto
    with Cons [of "AList.update (cd_key d) d m"] show ?case by auto
  qed simp
  from this [of ds "[]"] have "map_of (mk_resolver ds) k = Some d \<Longrightarrow> d \<in> set ds \<and> cd_key d = k" for k d
    using mk_resolver_keys [of ds] unfolding mk_resolver_def by (fastforce dest: map_of_SomeD)
  ultimately show ?thesis
    using assms(1,2)
    by (auto simp: resolve_def Let_def resolve_values_lookup [OF distinct_mk_resolver mk_resolver_keys]
        split: option.splits if_splits)
qed

theorem resolve_strict_witness:
  "\<exists>r. resolve (mk_resolver [ex_def]) ex_input \<lparr>ro_strict = False, ro_redactSecrets = None\<rparr> = Inr r \<and>
     resolve (mk_resolver [ex_def]) ex_input \<lparr>ro_strict = True, ro_redactSecrets = None\<rparr> =
       (if rc_violations r = [] then Inr r else Inl (ConfigResolutionError (rc_violations r)))"
  using resolve_strict [of "\<lparr>ro_strict = False, ro_redactSecrets = None\<rparr>"
      "\<lparr>ro_strict = True, ro_redactSecrets = None\<rparr>" "[ex_def]" ex_input]
  by auto

text \<open>
  isolation.  A stored value that does not match the scope of the request (another tenant,
  environment, pipeline or version) has no influence: dropping all such values changes neither
  the resolved values nor the violations, in any mode.
\<close>

theorem resolve_isolation:
  "resolve defs (i\<lparr>ri_values := filter (\<lambda>c. matchesScope c i) (ri_values i)\<rparr>) opts = resolve defs i opts"
proof -
  let ?i = "i\<lparr>ri_values := filter (\<lambda>c. matchesScope c i) (ri_values i)\<rparr>"
  have m: "matchesScope c ?i = matchesScope c i" for c
    by (simp add: matchesScope_def split: ConfigScope.splits)
  have "filter (\<lambda>c. matchesScope c ?i) (filter (\<lambda>c. cv_key c = k) (candidateValues ?i)) =
        filter (\<lambda>c. matchesScope c i) (filter (\<lambda>c. cv_key c = k) (candidateValues i))" for k
    by (simp add: m candidateValues_def runtime_values_def) (meson filter_cong)
  then have r: "relevant d ?i = relevant d i" for d by (simp add: relevant_def)
  then have a: "applicable d ?i = applicable d i" for d by (simp add: applicable_def)
  then have w: "winning d ?i = winning d i" for d by (simp add: winning_def)
  then have v: "rawValue d ?i = rawValue d i" for d by (simp add: rawValue_def)
  have "definition_violations d ?i = definition_violations d i" for d
    by (simp add: definition_violations_def r w v)
  moreover have rv: "resolved_value d ?i opts = resolved_value d i opts" for d
    by (simp add: resolved_value_def w v a)
  have "resolve_values defs ?i opts = resolve_values defs i opts"
    unfolding resolve_values_def v rv ..
  ultimately show ?thesis by (simp add: resolve_def Let_def)
qed

end
