(* ===== verification/Spec_Lifecycle.thy ===== *)
theory Spec_Lifecycle
  imports Core_Model "HOL-Library.Product_Lexorder"
begin

text \<open>
  Pipeline lifecycle (\<open>packages/pipeline-spec/src/lifecycle.ts\<close>): the shape check of a
  parsed specification, the canonical form and the checksum, semantic versions, publishing,
  archiving and saving of versions, the rollback of the latest pointer, the resolution of
  activations and the choice of the deployed version.  A specification is the parsed document
  (\<^typ>\<open>json\<close>); the clock is a parameter.
\<close>

section \<open>Definitions\<close>

datatype parse_error = Not_a_mapping | No_apiVersion_or_kind | No_metadata | No_spec

fun is_object :: "json \<Rightarrow> bool" where
  "is_object (JObj _) = True" | "is_object _ = False"

text \<open>\<open>typeof v === "object"\<close> of a truthy value: arrays pass too.\<close>

fun is_object_or_array :: "json \<Rightarrow> bool" where
  "is_object_or_array (JObj _) = True"
| "is_object_or_array (JArr _) = True"
| "is_object_or_array _ = False"

definition looksLikeJson :: "string \<Rightarrow> bool" where
  "looksLikeJson text = (let t = trim text in starts_with ''{'' t \<or> starts_with ''['' t)"

definition asPipelineSpec :: "json \<Rightarrow> parse_error + json" where
  "asPipelineSpec value = (case value of
      JObj obj \<Rightarrow>
        if obj_get obj ''apiVersion'' = JUndef \<or> obj_get obj ''kind'' = JUndef then Inl No_apiVersion_or_kind
        else if \<not> is_object_or_array (obj_get obj ''metadata'') then Inl No_metadata
        else if \<not> is_object_or_array (obj_get obj ''spec'') then Inl No_spec
        else Inr value
    | _ \<Rightarrow> Inl Not_a_mapping)"

subsection \<open>Checksum\<close>

fun canonicalize :: "json \<Rightarrow> json"
  and canon_elems :: "json list \<Rightarrow> json list"
  and canon_fields :: "(string \<times> json) list \<Rightarrow> (string \<times> json) list"
where
  "canonicalize (JArr vs) = JArr (canon_elems vs)"
| "canonicalize (JObj kvs) = JObj (obj_from_entries (sort_key fst (canon_fields kvs)))"
| "canonicalize JUndef = JUndef"
| "canonicalize JNull = JNull"
| "canonicalize (JBool b) = JBool b"
| "canonicalize (JNum n) = JNum n"
| "canonicalize (JStr s) = JStr s"
| "canon_elems [] = []"
| "canon_elems (v # vs) = canonicalize v # canon_elems vs"
| "canon_fields [] = []"
| "canon_fields ((k, v) # kvs) = (k, canonicalize v) # canon_fields kvs"

text \<open>A specification is an object, so its JSON text is always defined.\<close>

definition specChecksum :: "json \<Rightarrow> string" where
  "specChecksum spec = stableHash_str (nullish (stringify None (canonicalize spec)) [])"

subsection \<open>Versions\<close>

datatype PipelineVersionStatus = Draft | Published | Archived

record PipelineVersionRecord =
  vr_pipelineId :: string
  vr_version :: string
  vr_status :: PipelineVersionStatus
  vr_spec :: json
  vr_checksum :: string
  vr_createdAt :: string
  vr_publishedAt :: "string option"
  vr_id :: "string option"
  vr_parentVersionId :: "string option"

datatype version_error = ImmutableVersionError string | VersionNotFoundError string

record Semver =
  major :: nat
  minor :: nat
  patch :: nat

abbreviation MAX_SAFE_INTEGER :: nat where
  "MAX_SAFE_INTEGER \<equiv> 9007199254740991"

definition digits1 :: "string \<Rightarrow> bool" where
  "digits1 s = (s \<noteq> [] \<and> list_all is_digit s)"

definition parseSemver :: "string \<Rightarrow> Semver option" where
  "parseSemver v = (case split_on (CHR ''.'') (trim v) of
      [a, b, c] \<Rightarrow>
        if digits1 a \<and> digits1 b \<and> digits1 c then
          (if str_nat a \<le> MAX_SAFE_INTEGER \<and> str_nat b \<le> MAX_SAFE_INTEGER \<and> str_nat c \<le> MAX_SAFE_INTEGER
           then Some \<lparr>major = str_nat a, minor = str_nat b, patch = str_nat c\<rparr> else None)
        else None
    | _ \<Rightarrow> None)"

definition compareSemver :: "string \<Rightarrow> string \<Rightarrow> int" where
  "compareSemver a b = (case (parseSemver a, parseSemver b) of
      (None, None) \<Rightarrow> 0
    | (None, Some _) \<Rightarrow> -1
    | (Some _, None) \<Rightarrow> 1
    | (Some pa, Some pb) \<Rightarrow>
        if major pa \<noteq> major pb then int (major pa) - int (major pb)
        else if minor pa \<noteq> minor pb then int (minor pa) - int (minor pb)
        else int (patch pa) - int (patch pb))"

definition max_step :: "string \<Rightarrow> string option \<Rightarrow> string option" where
  "max_step candidate best =
     (if parseSemver candidate = None then best
      else (case best of None \<Rightarrow> Some candidate
            | Some b \<Rightarrow> if compareSemver candidate b > 0 then Some candidate else best))"

definition maxSemver :: "string list \<Rightarrow> string" where
  "maxSemver versions = nullish (fold max_step versions None) ''0.0.0''"

datatype level = Patch | Minor | Major

definition semver_str :: "nat \<Rightarrow> nat \<Rightarrow> nat \<Rightarrow> string" where
  "semver_str a b c = nat_str a @ ''.'' @ nat_str b @ ''.'' @ nat_str c"

definition semverBump :: "string \<Rightarrow> level \<Rightarrow> string" where
  "semverBump base lvl =
     (let p = nullish (parseSemver base) \<lparr>major = 0, minor = 0, patch = 0\<rparr> in
      case lvl of
        Major \<Rightarrow> semver_str (major p + 1) 0 0
      | Minor \<Rightarrow> semver_str (major p) (minor p + 1) 0
      | Patch \<Rightarrow> semver_str (major p) (minor p) (patch p + 1))"

text \<open>\<open>spec.metadata.name\<close>\<close>

definition spec_name :: "json \<Rightarrow> string" where
  "spec_name spec = (case spec of JObj ob \<Rightarrow>
      (case obj_get ob ''metadata'' of JObj m \<Rightarrow> (case obj_get m ''name'' of JStr s \<Rightarrow> s | _ \<Rightarrow> [])
       | _ \<Rightarrow> []) | _ \<Rightarrow> [])"

definition publishVersion ::
  "PipelineVersionRecord list \<Rightarrow> json \<Rightarrow> string \<Rightarrow> string option \<Rightarrow> string
   \<Rightarrow> version_error + PipelineVersionRecord" where
  "publishVersion existing spec version opt_pipelineId now =
     (let pid = nullish opt_pipelineId (spec_name spec); checksum = specChecksum spec in
      case find (\<lambda>r. vr_pipelineId r = pid \<and> vr_version r = version \<and> vr_status r = Published) existing of
        Some prior \<Rightarrow> if vr_checksum prior \<noteq> checksum then Inl (ImmutableVersionError version) else Inr prior
      | None \<Rightarrow> Inr \<lparr>vr_pipelineId = pid, vr_version = version, vr_status = Published, vr_spec = spec,
          vr_checksum = checksum, vr_createdAt = now, vr_publishedAt = Some now, vr_id = None,
          vr_parentVersionId = None\<rparr>)"

definition archiveVersion :: "PipelineVersionRecord \<Rightarrow> PipelineVersionRecord" where
  "archiveVersion r = (if vr_status r = Archived then r else r\<lparr>vr_status := Archived\<rparr>)"

record NextVersionOnSaveArgs =
  nv_existingVersions :: "PipelineVersionRecord list"
  nv_latest :: "PipelineVersionRecord option"
  nv_spec :: json
  nv_level :: "level option"
  nv_pipelineId :: "string option"

datatype NextVersionOnSaveResult = Idempotent PipelineVersionRecord | New PipelineVersionRecord

definition nextVersionOnSave :: "NextVersionOnSaveArgs \<Rightarrow> string \<Rightarrow> NextVersionOnSaveResult" where
  "nextVersionOnSave args now =
     (let pid = nullish (nv_pipelineId args)
                  (nullish (map_option vr_pipelineId (nv_latest args)) (spec_name (nv_spec args)));
          checksum = specChecksum (nv_spec args) in
      case nv_latest args of
        Some l \<Rightarrow> if vr_checksum l = checksum then Idempotent l
          else New \<lparr>vr_pipelineId = pid,
            vr_version = semverBump (maxSemver (map vr_version (nv_existingVersions args)))
                           (nullish (nv_level args) Patch),
            vr_status = Published, vr_spec = nv_spec args, vr_checksum = checksum, vr_createdAt = now,
            vr_publishedAt = None, vr_id = None, vr_parentVersionId = vr_id l\<rparr>
      | None \<Rightarrow> New \<lparr>vr_pipelineId = pid,
            vr_version = semverBump (maxSemver (map vr_version (nv_existingVersions args)))
                           (nullish (nv_level args) Patch),
            vr_status = Published, vr_spec = nv_spec args, vr_checksum = checksum, vr_createdAt = now,
            vr_publishedAt = None, vr_id = None, vr_parentVersionId = None\<rparr>)"

definition rollbackPointer :: "PipelineVersionRecord list \<Rightarrow> string \<Rightarrow> version_error + string" where
  "rollbackPointer versions versionId =
     (if list_ex (\<lambda>r. vr_id r = Some versionId) versions then Inr versionId
      else Inl (VersionNotFoundError versionId))"

subsection \<open>Activations and deployments\<close>

record activation =
  ac_label :: string
  ac_enabled :: bool
  ac_trackLatest :: bool
  ac_pipelineVersionId :: "string option"

datatype ActivationResolutionError = No_activation_labelled string | Activation_disabled string
  | No_enabled_activation | Ambiguous_activation | Latest_missing | Pinned_missing

definition resolveActivation ::
  "activation list \<Rightarrow> string option \<Rightarrow> ActivationResolutionError + activation" where
  "resolveActivation activations label =
     (case label of
        Some l \<Rightarrow> (case find (\<lambda>a. ac_label a = l) activations of
            None \<Rightarrow> Inl (No_activation_labelled l)
          | Some m \<Rightarrow> if \<not> ac_enabled m then Inl (Activation_disabled l) else Inr m)
      | None \<Rightarrow>
          (let enabled = filter ac_enabled activations in
           case find (\<lambda>a. ac_label a = ''default'') enabled of
             Some a \<Rightarrow> Inr a
           | None \<Rightarrow> (case enabled of [a] \<Rightarrow> Inr a | [] \<Rightarrow> Inl No_enabled_activation
                      | _ \<Rightarrow> Inl Ambiguous_activation)))"

definition effectiveVersionId ::
  "activation \<Rightarrow> string option \<Rightarrow> ActivationResolutionError + string" where
  "effectiveVersionId a latest =
     (case (if ac_trackLatest a then latest else ac_pipelineVersionId a) of
        None \<Rightarrow> Inl (if ac_trackLatest a then Latest_missing else Pinned_missing)
      | Some v \<Rightarrow> Inr v)"

record PipelineDeployment =
  dp_pipelineId :: string
  dp_environment :: string
  dp_version :: string
  dp_tenantId :: "string option"

record DeploymentSelector =
  ds_environment :: string
  ds_tenantId :: "string option"
  ds_pipelineId :: "string option"

definition deployment_candidates :: "PipelineDeployment list \<Rightarrow> DeploymentSelector \<Rightarrow> PipelineDeployment list" where
  "deployment_candidates ds s = filter (\<lambda>d.
      if dp_environment d \<noteq> ds_environment s then False
      else if ds_pipelineId s \<noteq> None \<and> Some (dp_pipelineId d) \<noteq> ds_pipelineId s then False
      else True) ds"

definition selectDeployedVersion ::
  "PipelineDeployment list \<Rightarrow> DeploymentSelector \<Rightarrow> PipelineDeployment option" where
  "selectDeployedVersion ds s =
     (let cs = deployment_candidates ds s;
          fallback = find (\<lambda>d. dp_tenantId d = None) cs in
      if ds_tenantId s \<noteq> None then
        (case find (\<lambda>d. dp_tenantId d = ds_tenantId s) cs of Some d \<Rightarrow> Some d | None \<Rightarrow> fallback)
      else fallback)"

section \<open>The checksum ignores the order of members\<close>

text \<open>Documents that differ only in the order of object members, at any depth.\<close>

inductive same_doc :: "json \<Rightarrow> json \<Rightarrow> bool" where
  same: "same_doc v v"
| arr: "list_all2 same_doc vs ws \<Longrightarrow> same_doc (JArr vs) (JArr ws)"
| obj: "distinct (map fst kvs) \<Longrightarrow> distinct (map fst lvs) \<Longrightarrow> fst ` set kvs = fst ` set lvs \<Longrightarrow>
        (\<And>k v w. (k, v) \<in> set kvs \<Longrightarrow> (k, w) \<in> set lvs \<Longrightarrow> same_doc v w) \<Longrightarrow>
        same_doc (JObj kvs) (JObj lvs)"
monos list.rel_mono_strong

lemma canon_elems_map: "canon_elems vs = map canonicalize vs"
  by (induction vs) auto

lemma canon_fields_map: "canon_fields kvs = map (\<lambda>(k, v). (k, canonicalize v)) kvs"
  by (induction kvs) auto

lemma in_canon_fields: "(k, c) \<in> set (canon_fields kvs) \<longleftrightarrow> (\<exists>v. (k, v) \<in> set kvs \<and> c = canonicalize v)"
  by (induction kvs) auto

lemma sort_key_fst_unique:
  assumes "distinct (map fst xs)" "distinct (map fst ys)" "set xs = set ys"
  shows "sort_key fst xs = sort_key fst (ys :: (string \<times> 'a) list)"
proof (rule map_sorted_distinct_set_unique [of fst])
  show "inj_on fst (set (sort_key fst xs) \<union> set (sort_key fst ys))"
    using assms by (simp add: distinct_map)
  show "sorted (map fst (sort_key fst xs))" "sorted (map fst (sort_key fst ys))" by simp_all
  show "distinct (map fst (sort_key fst xs))" "distinct (map fst (sort_key fst ys))"
    using assms by (simp_all add: distinct_map)
qed (simp add: assms)

lemma canonicalize_same_doc: "same_doc v w \<Longrightarrow> canonicalize v = canonicalize w"
proof (induction rule: same_doc.induct)
  case (arr vs ws)
  then have "map canonicalize vs = map canonicalize ws"
    by (auto simp: list_all2_conv_all_nth intro: nth_equalityI)
  then show ?case by (simp add: canon_elems_map)
next
  case (obj kvs lvs)
  have "\<exists>w. (k, w) \<in> set lvs \<and> canonicalize v = canonicalize w" if "(k, v) \<in> set kvs" for k v
    using obj.hyps(3) obj.IH that by (metis (no_types, lifting) fst_conv imageE image_eqI prod.collapse)
  moreover have "\<exists>v. (k, v) \<in> set kvs \<and> canonicalize v = canonicalize w" if "(k, w) \<in> set lvs" for k w
    using obj.hyps(3) obj.IH that by (metis (no_types, lifting) fst_conv imageE image_eqI prod.collapse)
  ultimately have "(k, c) \<in> set (canon_fields kvs) \<longleftrightarrow> (k, c) \<in> set (canon_fields lvs)" for k c
    unfolding in_canon_fields by metis
  then have "set (canon_fields kvs) = set (canon_fields lvs)" by auto
  moreover have "map fst (canon_fields kvs) = map fst kvs" "map fst (canon_fields lvs) = map fst lvs"
    by (auto simp: canon_fields_map)
  ultimately have "sort_key fst (canon_fields kvs) = sort_key fst (canon_fields lvs)"
    using obj.hyps(1,2) by (intro sort_key_fst_unique) simp_all
  then show ?case by simp
qed simp

text \<open>
  the checksum of a specification does not depend on the order in which the members of
  its objects were written, at any depth.
\<close>

theorem specChecksum_order_independent:
  assumes "same_doc s t"
  shows "specChecksum s = specChecksum t"
  using canonicalize_same_doc [OF assms] by (simp add: specChecksum_def)

theorem specChecksum_order_independent_witness:
  "specChecksum (JObj [(''b'', JNull), (''a'', JArr [JObj [(''y'', JNull), (''x'', JBool True)]])]) =
   specChecksum (JObj [(''a'', JArr [JObj [(''x'', JBool True), (''y'', JNull)]]), (''b'', JNull)])"
proof (rule specChecksum_order_independent)
  have inner: "same_doc (JObj [(''y'', JNull), (''x'', JBool True)]) (JObj [(''x'', JBool True), (''y'', JNull)])"
    by (rule same_doc.obj) (auto intro: same_doc.same)
  have "same_doc (JArr [JObj [(''y'', JNull), (''x'', JBool True)]])
      (JArr [JObj [(''x'', JBool True), (''y'', JNull)]])"
    by (rule same_doc.arr) (simp add: inner)
  then show "same_doc (JObj [(''b'', JNull), (''a'', JArr [JObj [(''y'', JNull), (''x'', JBool True)]])])
      (JObj [(''a'', JArr [JObj [(''x'', JBool True), (''y'', JNull)]]), (''b'', JNull)])"
    by (intro same_doc.obj) (auto intro: same_doc.same)
qed

text \<open>Two specifications that differ in their description only.\<close>

definition spec_with_description :: "string \<Rightarrow> json" where
  "spec_with_description desc = JObj [(''apiVersion'', JStr ''rag-platform/v1''), (''kind'', JStr ''Pipeline''),
     (''metadata'', JObj [(''description'', JStr desc), (''name'', JStr ''kb'')]),
     (''spec'', JObj [(''edges'', JArr []), (''nodes'', JArr [])])]"

lemma canonicalize_spec_with_description:
  "canonicalize (spec_with_description desc) = spec_with_description desc"
  unfolding spec_with_description_def canonicalize.simps canon_elems.simps canon_fields.simps
    obj_from_entries_def by code_simp

lemma text_spec_with_description:
  "stringify None (spec_with_description ''cp'') = Some (''{\"apiVersion\":\"rag-platform/v1\",\"kind\":\"Pipeline\",\"metadata\":{\"description\":\"'' @ ''cp'' @ ''\",\"name\":\"kb\"},\"spec\":{\"edges\":[],\"nodes\":[]}}'')"
  "stringify None (spec_with_description ''a2'') = Some (''{\"apiVersion\":\"rag-platform/v1\",\"kind\":\"Pipeline\",\"metadata\":{\"description\":\"'' @ ''a2'' @ ''\",\"name\":\"kb\"},\"spec\":{\"edges\":[],\"nodes\":[]}}'')"
  by code_simp+

lemma hash_collision:
  "foldl hash_step 5381 (''{\"apiVersion\":\"rag-platform/v1\",\"kind\":\"Pipeline\",\"metadata\":{\"description\":\"'' @ ''cp'') = foldl hash_step 5381 (''{\"apiVersion\":\"rag-platform/v1\",\"kind\":\"Pipeline\",\"metadata\":{\"description\":\"'' @ ''a2'')"
proof -
  have "foldl hash_step 5381 ''{\"apiVersion\":\"rag-platform/v1\",\"kind\":\"Pipeline\",\"metadata\":{\"description\":\"'' = 3120093898"
    by (simp add: hash_step_def)
  then show ?thesis by (simp add: hash_step_def)
qed

text \<open>
  The checksum does not identify a specification.  Two specifications with different
  descriptions have the same checksum, so saving the second over the first is taken for an
  unchanged save: the stored version is returned and the edit is dropped.
\<close>

theorem specChecksum_collision:
  assumes "nv_latest args = Some l" "vr_spec l = spec_with_description ''cp''"
    "vr_checksum l = specChecksum (vr_spec l)" "nv_spec args = spec_with_description ''a2''"
  shows "nextVersionOnSave args now = Idempotent l \<and> vr_spec l \<noteq> nv_spec args"
proof -
  have "specChecksum (spec_with_description ''cp'') = specChecksum (spec_with_description ''a2'')"
    using hash_collision
    by (simp add: specChecksum_def canonicalize_spec_with_description text_spec_with_description
        stableHash_str_def del: append.simps append_Cons)
  then show ?thesis
    using assms by (simp add: nextVersionOnSave_def spec_with_description_def)
qed

section \<open>Semantic versions\<close>

definition sem_key :: "Semver \<Rightarrow> nat \<times> nat \<times> nat" where
  "sem_key p = (major p, minor p, patch p)"

lemma dot_notin_nat_str [simp]: "CHR ''.'' \<notin> set (nat_str n)"
  using list_all_is_digit_nat_str [of n] by (auto simp: list_all_iff is_digit_def)

lemma digits1_nat_str [simp]: "digits1 (nat_str n)"
  by (simp add: digits1_def)

lemma trim_semver_str [simp]: "trim (semver_str a b c) = semver_str a b c"
proof (rule trim_id)
  have "is_digit (hd (nat_str a))" "is_digit (last (nat_str c))"
    using list_all_is_digit_nat_str nat_str_not_Nil by (meson hd_in_set last_in_set list.pred_set)+
  then have "is_digit (hd (semver_str a b c))" "is_digit (last (semver_str a b c))"
    by (simp_all add: semver_str_def)
  then show "semver_str a b c = [] \<or> \<not> is_ws (hd (semver_str a b c)) \<and> \<not> is_ws (last (semver_str a b c))"
    by (simp add: is_digit_not_ws)
qed

lemma split_semver_str [simp]: "split_on (CHR ''.'') (semver_str a b c) = [nat_str a, nat_str b, nat_str c]"
  by (simp add: semver_str_def split_on_append split_on_no_sep)

lemma parseSemver_semver_str:
  "parseSemver (semver_str a b c) =
     (if a \<le> MAX_SAFE_INTEGER \<and> b \<le> MAX_SAFE_INTEGER \<and> c \<le> MAX_SAFE_INTEGER
      then Some \<lparr>major = a, minor = b, patch = c\<rparr> else None)"
  by (simp add: parseSemver_def)

lemma parseSemver_zero: "parseSemver ''0.0.0'' = Some \<lparr>major = 0, minor = 0, patch = 0\<rparr>"
proof -
  have "''0.0.0'' = semver_str 0 0 0"
    by code_simp
  then show ?thesis by (simp add: parseSemver_semver_str)
qed

lemma compareSemver_cases:
  assumes "parseSemver a = Some pa" "parseSemver b = Some pb"
  shows "compareSemver a b = (if major pa \<noteq> major pb then int (major pa) - int (major pb)
        else if minor pa \<noteq> minor pb then int (minor pa) - int (minor pb)
        else int (patch pa) - int (patch pb))"
  using assms by (simp add: compareSemver_def)

lemma compareSemver_key:
  assumes "parseSemver a = Some pa" "parseSemver b = Some pb"
  shows "0 < compareSemver a b \<longleftrightarrow> sem_key pb < sem_key pa"
    and "compareSemver a b = 0 \<longleftrightarrow> sem_key pa = sem_key pb"
    and "compareSemver a b < 0 \<longleftrightarrow> sem_key pa < sem_key pb"
  unfolding compareSemver_cases [OF assms] sem_key_def by auto

lemma max_step_upper:
  assumes "\<forall>b. best = Some b \<longrightarrow> parseSemver b \<noteq> None" "x = v \<or> best = Some x" "parseSemver x = Some p"
  shows "\<exists>m q. max_step v best = Some m \<and> parseSemver m = Some q \<and> sem_key p \<le> sem_key q"
proof (cases "parseSemver v")
  case None
  with assms show ?thesis by (auto simp: max_step_def)
next
  case (Some pv)
  show ?thesis
  proof (cases best)
    case None
    with assms Some show ?thesis by (auto simp: max_step_def)
  next
    case best: (Some b)
    then obtain pb where pb: "parseSemver b = Some pb" using assms(1) by auto
    have "sem_key p = sem_key pv \<or> sem_key p = sem_key pb" using assms(2,3) best Some pb by auto
    then show ?thesis
      using best pb Some compareSemver_key(1) [OF Some pb]
      by (cases "sem_key pb < sem_key pv") (auto simp: max_step_def)
  qed
qed

lemma fold_max_step_parse:
  "\<forall>b. best = Some b \<longrightarrow> parseSemver b \<noteq> None \<Longrightarrow> fold max_step vs best = Some m \<Longrightarrow>
   parseSemver m \<noteq> None \<and> (best = Some m \<or> m \<in> set vs)"
proof (induction vs arbitrary: best)
  case (Cons v vs)
  have "\<forall>b. max_step v best = Some b \<longrightarrow> parseSemver b \<noteq> None \<and> (best = Some b \<or> b = v)"
    using Cons.prems(1) by (auto simp: max_step_def split: option.splits if_splits)
  with Cons.IH [of "max_step v best"] Cons.prems(2) show ?case by auto
qed auto

lemma fold_max_step_upper:
  "\<forall>b. best = Some b \<longrightarrow> parseSemver b \<noteq> None \<Longrightarrow> x \<in> set vs \<or> best = Some x \<Longrightarrow>
   parseSemver x = Some p \<Longrightarrow>
   \<exists>m q. fold max_step vs best = Some m \<and> parseSemver m = Some q \<and> sem_key p \<le> sem_key q"
proof (induction vs arbitrary: best x p)
  case (Cons v vs)
  have ok: "\<forall>b. max_step v best = Some b \<longrightarrow> parseSemver b \<noteq> None"
    using Cons.prems(1) by (auto simp: max_step_def split: option.splits if_splits)
  show ?case
  proof (cases "x \<in> set vs")
    case True
    with Cons.IH [OF ok _ Cons.prems(3)] show ?thesis by simp
  next
    case False
    then obtain m q where mq: "max_step v best = Some m" "parseSemver m = Some q" "sem_key p \<le> sem_key q"
      using max_step_upper [OF Cons.prems(1) _ Cons.prems(3), of v] Cons.prems(2) by auto
    with Cons.IH [OF ok _ mq(2)] show ?thesis by (auto intro: order.trans)
  qed
qed auto

text \<open>
  \<open>maxSemver\<close> returns an upper bound: a parseable version, taken from the list
  when the list has one, and not below any parseable version of the list.
\<close>

lemma maxSemver_max:
  "\<exists>q. parseSemver (maxSemver vs) = Some q \<and>
    (maxSemver vs \<in> set vs \<or> maxSemver vs = ''0.0.0'' \<and> (\<forall>v \<in> set vs. parseSemver v = None)) \<and>
    (\<forall>v \<in> set vs. \<forall>p. parseSemver v = Some p \<longrightarrow> sem_key p \<le> sem_key q)"
proof (cases "fold max_step vs None")
  case None
  then have "\<forall>v \<in> set vs. parseSemver v = None"
    using fold_max_step_upper [of None _ vs] by (metis option.distinct(1) option.exhaust)
  with None show ?thesis by (simp add: maxSemver_def parseSemver_zero)
next
  case (Some m)
  then obtain q where "parseSemver m = Some q" "m \<in> set vs"
    using fold_max_step_parse [of None vs m] by auto
  with Some fold_max_step_upper [of None _ vs] show ?thesis
    by (auto simp: maxSemver_def)
qed

lemma semverBump_greater:
  assumes "parseSemver base = Some q" "major q < MAX_SAFE_INTEGER" "minor q < MAX_SAFE_INTEGER"
    "patch q < MAX_SAFE_INTEGER"
  shows "\<exists>r. parseSemver (semverBump base lvl) = Some r \<and> sem_key q < sem_key r"
  using assms by (cases lvl) (auto simp: semverBump_def parseSemver_semver_str sem_key_def)

section \<open>Saving and publishing\<close>

text \<open>
  C40: a save either returns the latest version unchanged, exactly when the checksums agree, or
  creates a published version on top of it whose number is greater than that of every existing
  version, hence different from all of them, as long as no number has reached the largest safe
  integer.
\<close>

theorem nextVersionOnSave_fresh:
  assumes "\<forall>e \<in> set (nv_existingVersions args). \<forall>p. parseSemver (vr_version e) = Some p \<longrightarrow>
      major p < MAX_SAFE_INTEGER \<and> minor p < MAX_SAFE_INTEGER \<and> patch p < MAX_SAFE_INTEGER"
  shows "case nextVersionOnSave args now of
      Idempotent r \<Rightarrow> nv_latest args = Some r \<and> vr_checksum r = specChecksum (nv_spec args)
    | New r \<Rightarrow> (\<forall>l. nv_latest args = Some l \<longrightarrow> vr_checksum l \<noteq> vr_checksum r \<and> vr_parentVersionId r = vr_id l) \<and>
        vr_status r = Published \<and> vr_spec r = nv_spec args \<and> vr_checksum r = specChecksum (nv_spec args) \<and>
        parseSemver (vr_version r) \<noteq> None \<and>
        (\<forall>e \<in> set (nv_existingVersions args).
           0 < compareSemver (vr_version r) (vr_version e) \<and> vr_version r \<noteq> vr_version e)"
proof -
  let ?vs = "map vr_version (nv_existingVersions args)"
  let ?v = "semverBump (maxSemver ?vs) (nullish (nv_level args) Patch)"
  obtain q where q: "parseSemver (maxSemver ?vs) = Some q"
    "maxSemver ?vs \<in> set ?vs \<or> maxSemver ?vs = ''0.0.0''"
    "\<forall>v \<in> set ?vs. \<forall>p. parseSemver v = Some p \<longrightarrow> sem_key p \<le> sem_key q"
    using maxSemver_max [of ?vs] by blast
  have "major q < MAX_SAFE_INTEGER \<and> minor q < MAX_SAFE_INTEGER \<and> patch q < MAX_SAFE_INTEGER"
    using q(1,2) assms parseSemver_zero by fastforce
  then obtain r where r: "parseSemver ?v = Some r" "sem_key q < sem_key r"
    using semverBump_greater [OF q(1)] by blast
  have "0 < compareSemver ?v x \<and> ?v \<noteq> x" if "x \<in> set ?vs" for x
  proof (cases "parseSemver x")
    case None
    then show ?thesis using r(1) by (auto simp: compareSemver_def)
  next
    case (Some p)
    then have "sem_key p < sem_key r" using q(3) that r(2) by (meson order.strict_trans1)
    then show ?thesis using compareSemver_key(1) [OF r(1) Some] Some r(1) by auto
  qed
  then show ?thesis
    using r(1) by (auto simp: nextVersionOnSave_def Let_def split: option.splits)
qed

lemma semver_literals:
  "''1.9.0'' = semver_str 1 9 0" "''1.10.0'' = semver_str 1 10 0"
  by code_simp+

definition ex_record :: "string \<Rightarrow> string option \<Rightarrow> json \<Rightarrow> PipelineVersionRecord" where
  "ex_record v i spec = \<lparr>vr_pipelineId = ''kb'', vr_version = v, vr_status = Published, vr_spec = spec,
     vr_checksum = specChecksum spec, vr_createdAt = ''t0'', vr_publishedAt = None, vr_id = i,
     vr_parentVersionId = None\<rparr>"

definition ex_save :: NextVersionOnSaveArgs where
  "ex_save = \<lparr>nv_existingVersions = [ex_record ''1.10.0'' (Some ''v2'') JNull, ex_record ''1.9.0'' (Some ''v1'') (spec_with_description ''cp'')],
     nv_latest = Some (ex_record ''1.9.0'' (Some ''v1'') (spec_with_description ''cp'')),
     nv_spec = spec_with_description ''a2'', nv_level = None, nv_pipelineId = None\<rparr>"

theorem nextVersionOnSave_fresh_witness:
  "case nextVersionOnSave (ex_save\<lparr>nv_latest := None\<rparr>) ''t1'' of Idempotent r \<Rightarrow> False
   | New r \<Rightarrow> vr_version r \<noteq> ''1.9.0'' \<and> vr_version r \<noteq> ''1.10.0''"
proof -
  have "\<forall>e \<in> set (nv_existingVersions (ex_save\<lparr>nv_latest := None\<rparr>)). \<forall>p. parseSemver (vr_version e) = Some p \<longrightarrow>
      major p < MAX_SAFE_INTEGER \<and> minor p < MAX_SAFE_INTEGER \<and> patch p < MAX_SAFE_INTEGER"
    by (simp add: ex_save_def ex_record_def semver_literals parseSemver_semver_str)
  from nextVersionOnSave_fresh [OF this, of "''t1''"] show ?thesis
    by (auto simp: ex_save_def ex_record_def split: NextVersionOnSaveResult.splits)
qed

theorem specChecksum_collision_witness:
  "\<exists>l. nextVersionOnSave ex_save ''t1'' = Idempotent l \<and> vr_spec l \<noteq> nv_spec ex_save"
  using specChecksum_collision [of ex_save "ex_record ''1.9.0'' (Some ''v1'') (spec_with_description ''cp'')" "''t1''"]
  by (auto simp: ex_save_def ex_record_def)

text \<open>
  At the largest safe integer the numbering stops: the bumped version is not parsed any more,
  so the next save computes the same version again.
\<close>

lemma semver_numbering_stops:
  "semverBump (maxSemver [semver_str 0 0 MAX_SAFE_INTEGER, semver_str 0 0 (MAX_SAFE_INTEGER + 1)]) Patch =
   semver_str 0 0 (MAX_SAFE_INTEGER + 1)"
  by (simp add: maxSemver_def max_step_def parseSemver_semver_str semverBump_def)

text \<open>At most one published record per pipeline and version.\<close>

definition published_unique :: "PipelineVersionRecord list \<Rightarrow> bool" where
  "published_unique rs \<longleftrightarrow> (\<forall>r \<in> set rs. \<forall>t \<in> set rs. vr_status r = Published \<longrightarrow> vr_status t = Published \<longrightarrow>
     vr_pipelineId r = vr_pipelineId t \<longrightarrow> vr_version r = vr_version t \<longrightarrow> r = t)"

text \<open>
  published versions are immutable.  Publishing returns the stored record when the content
  is the same, raises when it differs, and otherwise adds a record, after which the published
  record of a pipeline and a version is still unique.
\<close>

theorem publishVersion_immutable:
  assumes "published_unique existing" "pid = nullish opt_pid (spec_name spec)"
  shows "case publishVersion existing spec v opt_pid now of
      Inl e \<Rightarrow> e = ImmutableVersionError v \<and> (\<exists>p \<in> set existing. vr_pipelineId p = pid \<and> vr_version p = v \<and>
             vr_status p = Published \<and> vr_checksum p \<noteq> specChecksum spec)
    | Inr r \<Rightarrow> vr_pipelineId r = pid \<and> vr_version r = v \<and> vr_status r = Published \<and>
        vr_checksum r = specChecksum spec \<and>
        published_unique (if r \<in> set existing then existing else existing @ [r]) \<and>
        (\<forall>p \<in> set existing. vr_pipelineId p = pid \<longrightarrow> vr_version p = v \<longrightarrow> vr_status p = Published \<longrightarrow> p = r)"
proof -
  let ?P = "\<lambda>r. vr_pipelineId r = pid \<and> vr_version r = v \<and> vr_status r = Published"
  show ?thesis
  proof (cases "find ?P existing")
    case None
    then have "\<forall>p \<in> set existing. \<not> ?P p" by (simp add: find_None_iff)
    with None assms show ?thesis
      by (auto simp: publishVersion_def Let_def published_unique_def)
  next
    case (Some prior)
    with find_SomeD [OF Some] assms show ?thesis
      by (auto simp: publishVersion_def Let_def published_unique_def)
  qed
qed

theorem publishVersion_immutable_witness:
  "publishVersion [ex_record ''1.0.0'' None JNull] (JObj []) ''1.0.0'' (Some ''kb'') ''t1'' =
   Inl (ImmutableVersionError ''1.0.0'')"
proof -
  have ne: "specChecksum JNull \<noteq> specChecksum (JObj [])"
    by (simp add: specChecksum_def obj_from_entries_def pick_fields_def stableHash_str_eq_iff hash_step_def)
  have "published_unique [ex_record ''1.0.0'' None JNull]" by (simp add: published_unique_def)
  from publishVersion_immutable [OF this refl, where spec = "JObj []" and v = "''1.0.0''"
      and opt_pid = "Some ''kb''" and now = "''t1''"] ne show ?thesis
    by (auto simp: ex_record_def split: sum.splits)
qed

lemma archiveVersion_idempotent: "archiveVersion (archiveVersion r) = archiveVersion r"
  by (simp add: archiveVersion_def)

section \<open>Activations and deployments\<close>

text \<open>
  an activation is resolved only to an enabled one; with a label to the one labelled so,
  without a label to the default one if it is enabled and else only when exactly one is
  enabled.
\<close>

theorem resolveActivation_sound:
  "case resolveActivation as label of
     Inr a \<Rightarrow> a \<in> set as \<and> ac_enabled a \<and>
       (case label of Some l \<Rightarrow> ac_label a = l
        | None \<Rightarrow> ac_label a = ''default'' \<or> filter ac_enabled as = [a])
   | Inl e \<Rightarrow> (case label of Some l \<Rightarrow> \<not> (\<exists>a. find (\<lambda>a. ac_label a = l) as = Some a \<and> ac_enabled a)
        | None \<Rightarrow> length (filter ac_enabled as) \<noteq> 1 \<and>
            (\<forall>a \<in> set as. ac_enabled a \<longrightarrow> ac_label a \<noteq> ''default''))"
proof (cases label)
  case None
  let ?en = "filter ac_enabled as"
  show ?thesis
  proof (cases "find (\<lambda>a. ac_label a = ''default'') ?en")
    case nodefault: None
    then have nd: "\<forall>a \<in> set as. ac_enabled a \<longrightarrow> ac_label a \<noteq> ''default''" by (auto simp: find_None_iff)
    show ?thesis
    proof (cases "\<exists>a. ?en = [a]")
      case True
      then show ?thesis using None nodefault filter_eq_ConsD' by (fastforce simp: resolveActivation_def)
    next
      case False
      then have "length ?en \<noteq> 1" by (metis length_0_conv length_Suc_conv One_nat_def)
      with False nd None nodefault show ?thesis
        by (auto simp: resolveActivation_def split: list.splits)
    qed
  qed (auto simp: resolveActivation_def None dest!: find_SomeD)
qed (auto simp: resolveActivation_def split: option.splits dest!: find_SomeD)

theorem resolveActivation_sound_witness:
  "\<exists>a. resolveActivation
      [\<lparr>ac_label = ''canary'', ac_enabled = True, ac_trackLatest = True, ac_pipelineVersionId = None\<rparr>,
       \<lparr>ac_label = ''default'', ac_enabled = True, ac_trackLatest = True, ac_pipelineVersionId = None\<rparr>]
      None = Inr a \<and> ac_label a = ''default'' \<and> ac_enabled a"
  using resolveActivation_sound [where label = None and as =
      "[\<lparr>ac_label = ''canary'', ac_enabled = True, ac_trackLatest = True, ac_pipelineVersionId = None\<rparr>,
       \<lparr>ac_label = ''default'', ac_enabled = True, ac_trackLatest = True, ac_pipelineVersionId = None\<rparr>]"]
  by (auto split: sum.splits)

text \<open>
  deployment selection.  The chosen deployment belongs to the requested environment (and
  pipeline), and it is the tenant's own one whenever the tenant has one; a deployment of
  another tenant is never chosen, and none is chosen only if neither the tenant nor the
  environment has one.
\<close>

theorem selectDeployedVersion_tenant_first:
  "case selectDeployedVersion ds s of
     Some d \<Rightarrow> d \<in> set ds \<and> dp_environment d = ds_environment s \<and>
       (\<forall>p. ds_pipelineId s = Some p \<longrightarrow> dp_pipelineId d = p) \<and>
       (dp_tenantId d = None \<or> dp_tenantId d = ds_tenantId s) \<and>
       (dp_tenantId d = None \<longrightarrow> ds_tenantId s \<noteq> None \<longrightarrow>
          (\<forall>x \<in> set (deployment_candidates ds s). dp_tenantId x \<noteq> ds_tenantId s))
   | None \<Rightarrow> (\<forall>x \<in> set (deployment_candidates ds s). dp_tenantId x \<noteq> None \<and> dp_tenantId x \<noteq> ds_tenantId s)"
  unfolding selectDeployedVersion_def Let_def
  by (auto split: option.splits if_splits dest!: find_SomeD simp: find_None_iff deployment_candidates_def)

theorem selectDeployedVersion_tenant_first_witness:
  "\<exists>d. selectDeployedVersion
      [\<lparr>dp_pipelineId = ''kb'', dp_environment = ''prod'', dp_version = ''1.0.0'', dp_tenantId = None\<rparr>,
       \<lparr>dp_pipelineId = ''kb'', dp_environment = ''prod'', dp_version = ''2.0.0'', dp_tenantId = Some ''a''\<rparr>]
      \<lparr>ds_environment = ''prod'', ds_tenantId = Some ''a'', ds_pipelineId = Some ''kb''\<rparr> = Some d \<and>
    dp_tenantId d = Some ''a''"
  using selectDeployedVersion_tenant_first [where
      ds = "[\<lparr>dp_pipelineId = ''kb'', dp_environment = ''prod'', dp_version = ''1.0.0'', dp_tenantId = None\<rparr>,
       \<lparr>dp_pipelineId = ''kb'', dp_environment = ''prod'', dp_version = ''2.0.0'', dp_tenantId = Some ''a''\<rparr>]" and
      s = "\<lparr>ds_environment = ''prod'', ds_tenantId = Some ''a'', ds_pipelineId = Some ''kb''\<rparr>"]
  by (auto simp: deployment_candidates_def split: option.splits)

end
