(* ===== verification/Graph_Cycle.thy ===== *)
theory Graph_Cycle
  imports Core_Model
begin

text \<open>
  Cycle detection on the edges of a pipeline (\<open>findCycle\<close> in
  \<open>packages/pipeline-spec/src/index.ts\<close>): the depth-first search with its stack and
  its list of finished nodes, in the order the code builds them.  The lemmas show that the
  search returns a real cycle or the graph has none.
\<close>

section \<open>Adjacency\<close>

type_synonym adjacency = "(string, string list) jsmap"

definition succs :: "adjacency \<Rightarrow> string \<Rightarrow> string list" where
  "succs adj u = nullish (map_of adj u) []"

text \<open>\<open>adjacency.set(edge.from, [...(adjacency.get(edge.from) ?? []), edge.to])\<close>\<close>

definition add_edge :: "PipelineEdge \<Rightarrow> adjacency \<Rightarrow> adjacency" where
  "add_edge e adj = AList.update (e_from e) (succs adj (e_from e) @ [e_to e]) adj"

definition adjacency_of :: "PipelineEdge list \<Rightarrow> adjacency" where
  "adjacency_of es = fold add_edge es []"

lemma succs_no_key: "u \<notin> fst ` set adj \<Longrightarrow> succs adj u = []"
  using map_of_eq_None_iff [of adj u] by (simp add: succs_def)

section \<open>Depth-first search\<close>

text \<open>
  \<open>visit\<close>: the set \<open>visiting\<close> and the list \<open>stack\<close> of the code are filled
  and emptied together, so the stack stands for both.  Both are restored when a call returns
  without a cycle and are not read any more once a cycle is found; they are therefore passed
  down, and the finished nodes (\<open>visited\<close>, in the order they finish) are passed on.
\<close>

function visit :: "adjacency \<Rightarrow> string list \<Rightarrow> string list \<Rightarrow> string \<Rightarrow> string list option \<times> string list"
  and visit_all :: "adjacency \<Rightarrow> string list \<Rightarrow> string list \<Rightarrow> string list \<Rightarrow> string list option \<times> string list"
where
  "visit adj stack visited node =
     (if node \<in> set stack then (Some (dropWhile (\<lambda>x. x \<noteq> node) stack @ [node]), visited)
      else if node \<in> set visited then (None, visited)
      else (case visit_all adj (stack @ [node]) visited (succs adj node) of
              (Some c, vis) \<Rightarrow> (Some c, vis)
            | (None, vis) \<Rightarrow> (None, vis @ [node])))"
| "visit_all adj stack visited [] = (None, visited)"
| "visit_all adj stack visited (n # ns) =
     (case visit adj stack visited n of
        (Some c, vis) \<Rightarrow> (Some c, vis)
      | (None, vis) \<Rightarrow> visit_all adj stack vis ns)"
  by pat_completeness auto
termination
proof (relation "measures [
    \<lambda>x. case x of Inl (adj, stack, vis, n) \<Rightarrow> card (fst ` set adj - set stack)
               | Inr (adj, stack, vis, ns) \<Rightarrow> card (fst ` set adj - set stack),
    \<lambda>x. case x of Inl _ \<Rightarrow> 1 | Inr (adj, stack, vis, ns) \<Rightarrow> 2 * length ns]", goal_cases)
  case (2 adj stack visited node)
  show ?case
  proof (cases "node \<in> fst ` set adj")
    case True
    with 2 have "fst ` set adj - set (stack @ [node]) \<subset> fst ` set adj - set stack" by auto
    then have "card (fst ` set adj - set (stack @ [node])) < card (fst ` set adj - set stack)"
      by (intro psubset_card_mono) auto
    then show ?thesis by simp
  next
    case False
    then have "succs adj node = []" "fst ` set adj - set (stack @ [node]) = fst ` set adj - set stack"
      by (auto simp: succs_no_key)
    then show ?thesis by simp
  qed
qed simp_all

declare visit.simps [simp del]

text \<open>The loop over the keys of the map is the loop over successors with an empty stack.\<close>

definition findCycle :: "adjacency \<Rightarrow> string list option" where
  "findCycle adj = fst (visit_all adj [] [] (map fst adj))"

section \<open>Lemmas on adjacency\<close>

definition edge_rel :: "adjacency \<Rightarrow> (string \<times> string) set" where
  "edge_rel adj = {(u, v). v \<in> set (succs adj u)}"

lemma succs_add_edge: "succs (add_edge e adj) u = succs adj u @ (if u = e_from e then [e_to e] else [])"
  by (simp add: succs_def add_edge_def)

lemma succs_adjacency_of: "succs (adjacency_of es) u = map e_to (filter (\<lambda>e. e_from e = u) es)"
proof -
  have "succs (fold add_edge es adj) u = succs adj u @ map e_to (filter (\<lambda>e. e_from e = u) es)" for adj
    by (induction es arbitrary: adj) (auto simp: succs_add_edge)
  from this [of "[]"] show ?thesis by (simp add: adjacency_of_def succs_def)
qed

lemma edge_rel_adjacency_of: "edge_rel (adjacency_of es) = {(e_from e, e_to e) | e. e \<in> set es}"
  by (auto simp: edge_rel_def succs_adjacency_of)

lemma succs_nonempty_key: "v \<in> set (succs adj u) \<Longrightarrow> u \<in> fst ` set adj"
  by (metis empty_iff list.set(1) succs_no_key)

section \<open>A returned cycle is a cycle\<close>

definition is_cycle :: "adjacency \<Rightarrow> string list \<Rightarrow> bool" where
  "is_cycle adj c \<longleftrightarrow> 2 \<le> length c \<and> hd c = last c \<and> successively (\<lambda>u v. v \<in> set (succs adj u)) c"

lemma successively_dropWhile: "successively P xs \<Longrightarrow> successively P (dropWhile Q xs)"
  by (metis successively_append_iff takeWhile_dropWhile_id)

lemma cycle_on_stack:
  assumes "node \<in> set stack" "successively (\<lambda>u v. v \<in> set (succs adj u)) (stack @ [node])"
  shows "is_cycle adj (dropWhile (\<lambda>x. x \<noteq> node) stack @ [node])"
proof -
  let ?d = "dropWhile (\<lambda>x. x \<noteq> node) stack"
  have ne: "?d \<noteq> []" using assms(1) by (simp add: dropWhile_eq_Nil_conv)
  then have "hd ?d = node" by (metis (mono_tags, lifting) hd_dropWhile)
  moreover have "?d @ [node] = dropWhile (\<lambda>x. x \<noteq> node) (stack @ [node])"
    using assms(1) by (simp add: dropWhile_append1)
  then have "successively (\<lambda>u v. v \<in> set (succs adj u)) (?d @ [node])"
    using successively_dropWhile [OF assms(2)] by metis
  moreover have "1 \<le> length ?d" using ne by (cases ?d) auto
  ultimately show ?thesis
    using ne unfolding is_cycle_def by simp
qed

lemma visit_sound:
  "successively (\<lambda>u v. v \<in> set (succs adj u)) (stack @ [node]) \<Longrightarrow>
     fst (visit adj stack vis node) = Some c \<Longrightarrow> is_cycle adj c"
  "successively (\<lambda>u v. v \<in> set (succs adj u)) stack \<Longrightarrow>
     (stack \<noteq> [] \<Longrightarrow> set ns \<subseteq> set (succs adj (last stack))) \<Longrightarrow>
     fst (visit_all adj stack vis ns) = Some c \<Longrightarrow> is_cycle adj c"
proof (induction adj stack vis node and adj stack vis ns arbitrary: c and c rule: visit_visit_all.induct)
  case (1 adj stack visited node)
  show ?case
  proof (cases "node \<in> set stack")
    case True
    with "1.prems" cycle_on_stack [OF True "1.prems"(1)] show ?thesis by (auto simp: visit.simps)
  next
    case False
    with "1.prems" have "node \<notin> set visited"
      by (auto simp: visit.simps split: if_splits)
    with False "1.prems" show ?thesis
      by (intro "1.IH") (auto simp: visit.simps [of adj stack] split: prod.splits option.splits)
  qed
next
  case (3 adj stack visited n ns)
  have "successively (\<lambda>u v. v \<in> set (succs adj u)) (stack @ [n])"
    using "3.prems"(1,2) by (cases "stack = []") (auto simp: successively_append_iff)
  then show ?case
    using "3.prems" "3.IH" by (auto split: prod.splits option.splits)
qed simp

section \<open>Without a result the graph is acyclic\<close>

text \<open>
  The finished nodes are in an order in which every node comes after all its successors.
\<close>

definition finished :: "adjacency \<Rightarrow> string list \<Rightarrow> bool" where
  "finished adj vis \<longleftrightarrow> (\<forall>i < length vis. set (succs adj (vis ! i)) \<subseteq> set (take i vis))"

lemma finished_Nil [simp]: "finished adj []"
  by (simp add: finished_def)

lemma finished_snoc: "finished adj (vis @ [v]) \<longleftrightarrow> finished adj vis \<and> set (succs adj v) \<subseteq> set vis"
  by (auto simp: finished_def less_Suc_eq nth_append)

lemma visit_finished:
  "finished adj vis \<Longrightarrow> visit adj stack vis node = (None, vis') \<Longrightarrow>
     finished adj vis' \<and> set vis \<subseteq> set vis' \<and> node \<in> set vis'"
  "finished adj vis \<Longrightarrow> visit_all adj stack vis ns = (None, vis') \<Longrightarrow>
     finished adj vis' \<and> set vis \<subseteq> set vis' \<and> set ns \<subseteq> set vis'"
proof (induction adj stack vis node and adj stack vis ns arbitrary: vis' and vis' rule: visit_visit_all.induct)
  case (1 adj stack visited node)
  show ?case
  proof (cases "node \<in> set visited")
    case True
    with "1.prems" show ?thesis by (auto simp: visit.simps split: if_splits)
  next
    case False
    with "1.prems"(2) obtain vis where ns: "node \<notin> set stack" and
      v: "visit_all adj (stack @ [node]) visited (succs adj node) = (None, vis)" "vis' = vis @ [node]"
      by (auto simp: visit.simps [of adj stack] split: if_splits prod.splits option.splits)
    from "1.IH" [OF ns False "1.prems"(1) v(1)] v(2) show ?thesis
      by (auto simp: finished_snoc)
  qed
next
  case (3 adj stack visited n ns)
  obtain r vis where rv: "visit adj stack visited n = (r, vis)" by fastforce
  with "3.prems"(2) have r: "r = None" and w: "visit_all adj stack vis ns = (None, vis')"
    by (simp_all split: option.splits)
  from rv r have v: "visit adj stack visited n = (None, vis)" by simp
  have a: "finished adj vis \<and> set visited \<subseteq> set vis \<and> n \<in> set vis"
    by (rule "3.IH"(1) [OF "3.prems"(1) v(1)])
  have "finished adj vis' \<and> set vis \<subseteq> set vis' \<and> set ns \<subseteq> set vis'"
    by (rule "3.IH"(2) [OF v [symmetric] refl _ w]) (use a in simp_all)
  with a show ?case by auto
qed simp

lemma takeWhile_first: "v \<notin> set as \<Longrightarrow> takeWhile (\<lambda>x. x \<noteq> v) (as @ v # bs) = as"
  by (induction as) auto

lemma finished_acyclic:
  assumes "finished adj vis" "fst ` set adj \<subseteq> set vis"
  shows "acyclic (edge_rel adj)"
proof -
  let ?pos = "\<lambda>v. length (takeWhile (\<lambda>x. x \<noteq> v) vis)"
  have "?pos v < ?pos u" if "(u, v) \<in> edge_rel adj" for u v
  proof -
    from that have v: "v \<in> set (succs adj u)" by (simp add: edge_rel_def)
    with assms(2) have "u \<in> set vis" using succs_nonempty_key by blast
    then obtain xs ys where xs: "vis = xs @ u # ys" "u \<notin> set xs" by (meson split_list_first)
    have "set (succs adj (vis ! length xs)) \<subseteq> set (take (length xs) vis)"
      using assms(1) [unfolded finished_def, rule_format, of "length xs"] xs(1) by simp
    with v have "v \<in> set xs" by (auto simp: xs(1))
    then obtain as bs where as: "xs = as @ v # bs" "v \<notin> set as" by (meson split_list_first)
    then have "?pos v < length xs"
      using takeWhile_first [OF as(2), of "bs @ u # ys"] xs(1) by simp
    moreover have "?pos u = length xs"
      using takeWhile_first [OF xs(2)] xs(1) by simp
    ultimately show ?thesis by simp
  qed
  then have "edge_rel adj \<subseteq> (measure ?pos)\<inverse>" by auto
  then show ?thesis
    by (meson acyclic_converse acyclic_subset wf_acyclic wf_measure)
qed

lemma findCycle_None: "findCycle adj = None \<Longrightarrow> acyclic (edge_rel adj)"
proof -
  assume "findCycle adj = None"
  then obtain vis where "visit_all adj [] [] (map fst adj) = (None, vis)"
    unfolding findCycle_def by (metis prod.collapse)
  from visit_finished(2) [OF finished_Nil this] show ?thesis
    by (auto intro: finished_acyclic)
qed

lemma findCycle_Some: "findCycle adj = Some c \<Longrightarrow> is_cycle adj c"
  unfolding findCycle_def by (rule visit_sound(2)) auto

lemma cycle_not_acyclic: "is_cycle adj c \<Longrightarrow> \<not> acyclic (edge_rel adj)"
proof -
  assume c: "is_cycle adj c"
  have "successively (\<lambda>u v. v \<in> set (succs adj u)) (x # ys) \<Longrightarrow> ys \<noteq> [] \<Longrightarrow> (x, last ys) \<in> (edge_rel adj)\<^sup>+"
    for x ys
  proof (induction ys arbitrary: x)
    case (Cons y ys)
    then have "(x, y) \<in> edge_rel adj" by (simp add: edge_rel_def)
    with Cons show ?case by (cases ys) (auto intro: trancl_into_trancl2)
  qed simp
  moreover from c obtain x ys where "c = x # ys" "ys \<noteq> []" "last ys = x"
    by (cases c; cases "tl c") (auto simp: is_cycle_def)
  ultimately have "(x, x) \<in> (edge_rel adj)\<^sup>+"
    using c by (auto simp: is_cycle_def)
  then show ?thesis by (auto simp: acyclic_def)
qed

lemma findCycle_None_iff:
  "findCycle (adjacency_of es) = None \<longleftrightarrow> acyclic {(e_from e, e_to e) | e. e \<in> set es}"
proof (cases "findCycle (adjacency_of es)")
  case None
  with findCycle_None [OF None] show ?thesis by (simp add: edge_rel_adjacency_of)
next
  case (Some c)
  with cycle_not_acyclic [OF findCycle_Some [OF Some]] show ?thesis
    by (simp add: edge_rel_adjacency_of)
qed

text \<open>
  C36: cycle detection is sound and complete.  The search over the edges of a pipeline returns
  nothing exactly when the edge relation is acyclic, and what it returns is a closed path
  along edges.
\<close>

theorem findCycle_correct:
  "(findCycle (adjacency_of es) = None \<longleftrightarrow> acyclic {(e_from e, e_to e) | e. e \<in> set es}) \<and>
   (\<forall>c. findCycle (adjacency_of es) = Some c \<longrightarrow> is_cycle (adjacency_of es) c)"
  using findCycle_None_iff findCycle_Some by blast

abbreviation ex_edge :: "string \<Rightarrow> string \<Rightarrow> PipelineEdge" where
  "ex_edge u v \<equiv> \<lparr>e_from = u, e_to = v, e_fromPort = None, e_toPort = None\<rparr>"

theorem findCycle_correct_witness:
  "is_cycle (adjacency_of [ex_edge ''a'' ''b'', ex_edge ''b'' ''c'', ex_edge ''c'' ''b'']) [''b'', ''c'', ''b'']"
proof -
  have "findCycle (adjacency_of [ex_edge ''a'' ''b'', ex_edge ''b'' ''c'', ex_edge ''c'' ''b'']) = Some [''b'', ''c'', ''b'']"
    by (simp add: findCycle_def visit.simps adjacency_of_def add_edge_def succs_def)
  then show ?thesis using findCycle_correct by blast
qed

end
