(* ===== verification/Stages.thy ===== *)
theory Stages
  imports Graph_Cycle
begin

text \<open>
  Topological layers of a pipeline (\<open>packages/pipeline-spec/src/stagesProjection.ts\<close> and
  \<open>autoStageSpec\<close> in \<open>packages/pipeline-spec/src/index.ts\<close>).  The loop of
  \<open>projectStages\<close> keeps its safety counter; the lemmas show that the counter never cuts the
  loop short, that every node lands in exactly one stage, and that in an acyclic graph every
  edge goes from an earlier stage to a later one.  \<open>localeCompare\<close> depends on the host's
  locale and is the parameter \<open>le\<close> (not after).
\<close>

section \<open>Model\<close>

record StagesEdge =
  se_source :: string
  se_target :: string

record Stage =
  sg_index :: nat
  sg_nodeIds :: "string list"

type_synonym stage_map = "(string, int) jsmap"

definition add_dep :: "string list \<Rightarrow> StagesEdge \<Rightarrow> (string, string list) jsmap \<Rightarrow> (string, string list) jsmap" where
  "add_dep ids e deps =
     (if se_source e \<notin> set ids \<or> se_target e \<notin> set ids \<or> se_source e = se_target e then deps
      else let l = nullish (map_of deps (se_target e)) [] in
           if se_source e \<in> set l then deps else AList.update (se_target e) (l @ [se_source e]) deps)"

definition deps_of :: "string list \<Rightarrow> StagesEdge list \<Rightarrow> (string, string list) jsmap" where
  "deps_of ids es = fold (add_dep ids) es (fold (\<lambda>i deps. AList.update i [] deps) ids [])"

text \<open>The loop over the dependencies of a node: \<open>None\<close> when one is not resolved yet.\<close>

fun max_dep :: "stage_map \<Rightarrow> string list \<Rightarrow> int \<Rightarrow> int option" where
  "max_dep stage [] m = Some m"
| "max_dep stage (d # ds) m = (case map_of stage d of
      None \<Rightarrow> None
    | Some s \<Rightarrow> max_dep stage ds (if s > m then s else m))"

definition place :: "(string, string list) jsmap \<Rightarrow> string \<Rightarrow> stage_map \<times> string list \<Rightarrow> stage_map \<times> string list" where
  "place deps i = (\<lambda>(stage, next).
     if i \<in> fst ` set stage then (stage, next)
     else (case max_dep stage (nullish (map_of deps i) []) (-1) of
             None \<Rightarrow> (stage, next)
           | Some m \<Rightarrow> (AList.update i (m + 1) stage, next @ [i])))"

text \<open>\<open>while (queue.length > 0 && safety-- > 0)\<close>, the counter as the first argument.\<close>

fun stage_loop :: "nat \<Rightarrow> string list \<Rightarrow> (string, string list) jsmap \<Rightarrow> string list \<Rightarrow> stage_map \<Rightarrow> stage_map" where
  "stage_loop 0 ids deps queue stage = stage"
| "stage_loop (Suc safety) ids deps queue stage =
     (if queue = [] then stage
      else case fold (place deps) ids (stage, []) of
             (stage', next) \<Rightarrow> if next = [] then stage' else stage_loop safety ids deps next stage')"

definition roots_of :: "(string, string list) jsmap \<Rightarrow> string list \<Rightarrow> stage_map \<times> string list" where
  "roots_of deps ids = fold (\<lambda>i (stage, queue).
      if nullish (map_of deps i) [] = [] then (AList.update i 0 stage, queue @ [i]) else (stage, queue)) ids ([], [])"

definition pin_cycles :: "string list \<Rightarrow> stage_map \<Rightarrow> stage_map" where
  "pin_cycles ids stage =
     (let maxResolved = foldl (\<lambda>m s. if s > m then s else m) (-1) (map snd stage) in
      fold (\<lambda>i st. if i \<in> fst ` set st then st else AList.update i (maxResolved + 1) st) ids stage)"

definition final_stage :: "string list \<Rightarrow> StagesEdge list \<Rightarrow> stage_map" where
  "final_stage ids es =
     (let deps = deps_of ids es in
      case roots_of deps ids of
        (stage, queue) \<Rightarrow> pin_cycles ids (stage_loop (length ids * (length ids + 1)) ids deps queue stage))"

definition bucket_step :: "string \<times> int \<Rightarrow> (int, string list) jsmap \<Rightarrow> (int, string list) jsmap" where
  "bucket_step = (\<lambda>(i, s) buckets. AList.update s (nullish (map_of buckets s) [] @ [i]) buckets)"

definition projectStages :: "(string \<Rightarrow> string \<Rightarrow> bool) \<Rightarrow> string list \<Rightarrow> StagesEdge list \<Rightarrow> Stage list" where
  "projectStages le ids es =
     (let buckets = fold bucket_step (final_stage ids es) [];
          sortedStages = sort (map fst buckets) in
      map (\<lambda>(k, idx). \<lparr>sg_index = k, sg_nodeIds = sort_by le (nullish (map_of buckets idx) [])\<rparr>)
        (zip [0..<length sortedStages] sortedStages))"

definition auto_id :: "nat \<Rightarrow> string" where
  "auto_id i = ''s_auto_'' @ nat_str (i + 1)"

definition stage_by_node :: "Stage list \<Rightarrow> (string, string) jsmap" where
  "stage_by_node sgs = fold (\<lambda>(i, sg) m. fold (\<lambda>n m. AList.update n (auto_id i) m) (sg_nodeIds sg) m)
     (zip [0..<length sgs] sgs) []"

definition autoStageSpec :: "(string \<Rightarrow> string \<Rightarrow> bool) \<Rightarrow> PipelineSpec \<Rightarrow> PipelineSpec" where
  "autoStageSpec le spec =
     (if nullish (ps_stages spec) [] \<noteq> [] then spec
      else if ps_nodes spec = [] then spec
      else
        let sgs = projectStages le (map n_id (ps_nodes spec))
                    (map (\<lambda>e. \<lparr>se_source = e_from e, se_target = e_to e\<rparr>) (ps_edges spec)) in
        if sgs = [] then spec
        else
          let m = stage_by_node sgs in
          spec\<lparr>ps_stages := Some (map (\<lambda>i. \<lparr>stg_id = auto_id i, stg_label = ''Stage '' @ nat_str (i + 1)\<rparr>) [0..<length sgs]),
               ps_nodes := map (\<lambda>n. case map_of m (n_id n) of
                   None \<Rightarrow> n
                 | Some s \<Rightarrow> if s = [] then n
                     else n\<lparr>n_ui := Some (obj_set ''stageId'' (JStr s) (nullish (n_ui n) []))\<rparr>) (ps_nodes spec)\<rparr>)"

section \<open>Dependencies\<close>

declare map_of_eq_Some_iff [simp del] Some_eq_map_of_iff [simp del]

abbreviation deps_list :: "string list \<Rightarrow> StagesEdge list \<Rightarrow> string \<Rightarrow> string list" where
  "deps_list ids es i \<equiv> nullish (map_of (deps_of ids es) i) []"

lemma map_of_init: "map_of (fold (\<lambda>i deps. AList.update i [] deps) ids m0) i = (if i \<in> set ids then Some [] else map_of m0 i)"
  by (induction ids arbitrary: m0) auto

lemma add_dep_set:
  "set (nullish (map_of (add_dep ids e deps) i) []) = set (nullish (map_of deps i) []) \<union>
     (if se_target e = i \<and> se_source e \<in> set ids \<and> i \<in> set ids \<and> se_source e \<noteq> i then {se_source e} else {})"
  by (auto simp: add_dep_def Let_def)

lemma set_deps_list:
  "set (deps_list ids es i) = {se_source e | e. e \<in> set es \<and> se_target e = i \<and> se_source e \<in> set ids \<and>
     i \<in> set ids \<and> se_source e \<noteq> i}"
proof -
  have "set (nullish (map_of (fold (add_dep ids) es m) i) []) = set (nullish (map_of m i) []) \<union>
      {se_source e | e. e \<in> set es \<and> se_target e = i \<and> se_source e \<in> set ids \<and> i \<in> set ids \<and> se_source e \<noteq> i}" for m
  proof (induction es arbitrary: m)
    case (Cons e es)
    show ?case by (auto simp: Cons add_dep_set)
  qed simp
  from this [of "fold (\<lambda>i deps. AList.update i [] deps) ids []"] show ?thesis
    by (simp add: deps_of_def map_of_init)
qed

section \<open>Layers respect dependencies\<close>

text \<open>
  Every placed node is a known one, lies above all its dependencies, and directly above one of
  them unless it is at the bottom.
\<close>

definition layered :: "string list \<Rightarrow> (string, string list) jsmap \<Rightarrow> stage_map \<Rightarrow> bool" where
  "layered ids deps stage \<longleftrightarrow> distinct (map fst stage) \<and> (\<forall>i s. map_of stage i = Some s \<longrightarrow> i \<in> set ids \<and> 0 \<le> s \<and>
     (\<forall>d \<in> set (nullish (map_of deps i) []). \<exists>t. map_of stage d = Some t \<and> t < s) \<and>
     (s = 0 \<or> (\<exists>d \<in> set (nullish (map_of deps i) []). map_of stage d = Some (s - 1))))"

lemma max_dep_Some:
  "max_dep stage ds m = Some k \<Longrightarrow> m \<le> k \<and> (k = m \<or> (\<exists>d \<in> set ds. map_of stage d = Some k)) \<and> (\<forall>d \<in> set ds. \<exists>t. map_of stage d = Some t \<and> t \<le> k)"
proof (induction ds arbitrary: m)
  case (Cons d ds)
  then obtain s where s: "map_of stage d = Some s" by (auto split: option.splits)
  from Cons.IH [of "if s > m then s else m"] Cons.prems s show ?case
    by (auto split: if_splits)
qed simp

lemma max_dep_None: "max_dep stage ds m = None \<longleftrightarrow> (\<exists>d \<in> set ds. map_of stage d = None)"
  by (induction ds arbitrary: m) (auto split: option.splits)

lemma not_key_iff: "i \<notin> fst ` set m \<longleftrightarrow> map_of m i = None"
  by (simp add: map_of_eq_None_iff)

lemma layered_update:
  assumes "layered ids deps stage" "map_of stage i = None" "i \<in> set ids" "0 \<le> s"
    and "\<forall>d \<in> set (nullish (map_of deps i) []). \<exists>t. map_of stage d = Some t \<and> t < s"
    and "s = 0 \<or> (\<exists>d \<in> set (nullish (map_of deps i) []). map_of stage d = Some (s - 1))"
  shows "layered ids deps (AList.update i s stage)"
  unfolding layered_def
proof (intro conjI allI impI)
  show "distinct (map fst (AList.update i s stage))"
    using assms(1) by (simp add: layered_def distinct_update)
next
  fix j u assume j: "map_of (AList.update i s stage) j = Some u"
  show "j \<in> set ids" "0 \<le> u"
    using assms j by (auto simp: layered_def split: if_splits)
  show "\<forall>d \<in> set (nullish (map_of deps j) []). \<exists>t. map_of (AList.update i s stage) d = Some t \<and> t < u"
  proof
    fix d assume d: "d \<in> set (nullish (map_of deps j) [])"
    have "\<exists>t. map_of stage d = Some t \<and> t < u"
      using assms(1,5) j d unfolding layered_def by (auto split: if_splits)
    then show "\<exists>t. map_of (AList.update i s stage) d = Some t \<and> t < u"
      using assms(2) by auto
  qed
  have "u = 0 \<or> (\<exists>d \<in> set (nullish (map_of deps j) []). map_of stage d = Some (u - 1))"
  proof (cases "j = i")
    case True
    with j assms(6) show ?thesis by simp
  next
    case False
    with j assms(1) show ?thesis unfolding layered_def by simp
  qed
  moreover have "map_of (AList.update i s stage) d = Some t" if "map_of stage d = Some t" for d t
    using that assms(2) by auto
  ultimately show "u = 0 \<or> (\<exists>d \<in> set (nullish (map_of deps j) []). map_of (AList.update i s stage) d = Some (u - 1))"
    by blast
qed

text \<open>What one visit of a node and one pass over all nodes do.\<close>

definition grows :: "stage_map \<Rightarrow> stage_map \<Rightarrow> bool" where
  "grows a b \<longleftrightarrow> (\<forall>i s. map_of a i = Some s \<longrightarrow> map_of b i = Some s)"

lemma grows_refl [simp]: "grows a a"
  by (simp add: grows_def)

lemma grows_trans: "grows a b \<Longrightarrow> grows b c \<Longrightarrow> grows a c"
  by (simp add: grows_def)

lemma place_cases:
  obtains (same) "place deps i (stage, nx) = (stage, nx)"
      "map_of stage i \<noteq> None \<or> (\<exists>d \<in> set (nullish (map_of deps i) []). map_of stage d = None)"
  | (new) m where "place deps i (stage, nx) = (AList.update i (m + 1) stage, nx @ [i])"
      "map_of stage i = None" "max_dep stage (nullish (map_of deps i) []) (-1) = Some m"
proof (cases "map_of stage i")
  case None
  then have ni: "i \<notin> fst ` set stage" by (simp add: not_key_iff)
  show ?thesis
  proof (cases "max_dep stage (nullish (map_of deps i) []) (-1)")
    case m: None
    show ?thesis
    proof (rule same)
      show "place deps i (stage, nx) = (stage, nx)" by (simp add: place_def ni m)
      show "map_of stage i \<noteq> None \<or> (\<exists>d \<in> set (nullish (map_of deps i) []). map_of stage d = None)"
        using m by (simp add: max_dep_None)
    qed
  next
    case (Some m)
    with ni None show ?thesis by (intro new) (simp_all add: place_def)
  qed
next
  case (Some s)
  then have "i \<in> fst ` set stage" using not_key_iff [of i stage] by auto
  with Some show ?thesis by (intro same) (simp_all add: place_def)
qed

lemma place_layered:
  assumes "layered ids deps stage" "i \<in> set ids" "place deps i (stage, nx) = (stage', nx')"
  shows "layered ids deps stage' \<and> grows stage stage'"
  using assms(3)
proof (cases rule: place_cases [of deps i stage nx])
  case (new m)
  have "-1 \<le> m" "\<forall>d \<in> set (nullish (map_of deps i) []). \<exists>t. map_of stage d = Some t \<and> t \<le> m"
    "m = -1 \<or> (\<exists>d \<in> set (nullish (map_of deps i) []). map_of stage d = Some m)"
    using max_dep_Some [OF new(3)] by auto
  then have "layered ids deps (AList.update i (m + 1) stage)"
    by (intro layered_update assms(1,2) new(2)) (force+)
  with new assms(3) show ?thesis by (auto simp: grows_def)
qed (use assms in auto)

lemma pass_layered:
  "layered ids deps stage \<Longrightarrow> set js \<subseteq> set ids \<Longrightarrow> fold (place deps) js (stage, nx) = (stage', nx') \<Longrightarrow>
     layered ids deps stage' \<and> grows stage stage'"
proof (induction js arbitrary: stage nx)
  case (Cons j js)
  obtain st n where p: "place deps j (stage, nx) = (st, n)" by fastforce
  with place_layered [OF Cons.prems(1) _ p] Cons.prems(2)
  have "layered ids deps st" "grows stage st" by auto
  with Cons.IH [of st n] Cons.prems p show ?case by (auto intro: grows_trans)
qed simp

text \<open>Number of nodes not placed yet.\<close>

definition unplaced :: "string list \<Rightarrow> stage_map \<Rightarrow> string set" where
  "unplaced ids stage = {i \<in> set ids. map_of stage i = None}"

lemma finite_unplaced [simp]: "finite (unplaced ids stage)"
  by (simp add: unplaced_def)

lemma unplaced_grows: "grows a b \<Longrightarrow> unplaced ids b \<subseteq> unplaced ids a"
  unfolding grows_def unplaced_def by (auto, metis not_None_eq option.distinct(1))

definition stuck :: "string list \<Rightarrow> (string, string list) jsmap \<Rightarrow> stage_map \<Rightarrow> bool" where
  "stuck ids deps stage \<longleftrightarrow> (\<forall>i \<in> unplaced ids stage. \<exists>d \<in> set (nullish (map_of deps i) []). map_of stage d = None)"

lemma pass_keeps:
  "map_of st k \<noteq> None \<Longrightarrow> fold (place deps) ls (st, n) = (st', n') \<Longrightarrow> map_of st' k \<noteq> None"
proof (induction ls arbitrary: st n)
  case (Cons l ls)
  obtain st1 n1 where p: "place deps l (st, n) = (st1, n1)" by fastforce
  have "map_of st1 k \<noteq> None"
    by (rule place_cases [of deps l st n]) (use p Cons.prems(1) in auto)
  with Cons.IH [of st1 n1] Cons.prems(2) p show ?case by simp
qed simp

lemma pass_progress:
  "fold (place deps) js (stage, nx) = (stage', nx') \<Longrightarrow>
     length nx \<le> length nx' \<and>
     (nx' = nx \<longrightarrow> stage' = stage \<and>
        (\<forall>i \<in> set js. map_of stage i \<noteq> None \<or> (\<exists>d \<in> set (nullish (map_of deps i) []). map_of stage d = None))) \<and>
     (nx' \<noteq> nx \<longrightarrow> length nx < length nx' \<and> (\<exists>i \<in> set js. map_of stage i = None \<and> map_of stage' i \<noteq> None))"
proof (induction js arbitrary: stage nx)
  case (Cons j js)
  show ?case
  proof (cases rule: place_cases [of deps j stage nx])
    case same
    with Cons.prems Cons.IH [of stage nx] show ?thesis by auto
  next
    case (new m)
    let ?st = "AList.update j (m + 1) stage"
    have f: "fold (place deps) js (?st, nx @ [j]) = (stage', nx')" using Cons.prems new(1) by simp
    have "map_of stage' j \<noteq> None" by (rule pass_keeps [OF _ f]) simp
    moreover have "length (nx @ [j]) \<le> length nx'" using Cons.IH [OF f] by simp
    ultimately show ?thesis using new(2) by auto
  qed
qed simp

lemma stage_loop_layered:
  "layered ids deps stage \<Longrightarrow> layered ids deps (stage_loop k ids deps queue stage) \<and>
     grows stage (stage_loop k ids deps queue stage)"
proof (induction k ids deps queue stage rule: stage_loop.induct)
  case (2 k ids deps queue stage)
  obtain st nx where p: "fold (place deps) ids (stage, []) = (st, nx)" by fastforce
  from pass_layered [OF "2.prems" _ p] have "layered ids deps st" "grows stage st" by auto
  with "2.IH" [OF _ p [symmetric]] p "2.prems" show ?case by (auto intro: grows_trans)
qed simp

text \<open>The safety counter is larger than the number of passes that can place something.\<close>

lemma stage_loop_stuck:
  "layered ids deps stage \<Longrightarrow> card (unplaced ids stage) < k \<Longrightarrow> queue \<noteq> [] \<Longrightarrow>
     stuck ids deps (stage_loop k ids deps queue stage)"
proof (induction k ids deps queue stage rule: stage_loop.induct)
  case (2 k ids deps queue stage)
  obtain st nx where p: "fold (place deps) ids (stage, []) = (st, nx)" by fastforce
  from pass_layered [OF "2.prems"(1) _ p] have l: "layered ids deps st" "grows stage st" by auto
  show ?case
  proof (cases "nx = []")
    case True
    with pass_progress [OF p] have "stuck ids deps st" by (auto simp: stuck_def unplaced_def)
    with True p "2.prems"(3) show ?thesis by simp
  next
    case False
    with pass_progress [OF p] obtain i where "i \<in> set ids" "map_of stage i = None" "map_of st i \<noteq> None" by auto
    then have "i \<in> unplaced ids stage" "i \<notin> unplaced ids st" by (auto simp: unplaced_def)
    then have "unplaced ids st \<subset> unplaced ids stage"
      using unplaced_grows [OF l(2), of ids] by blast
    then have "card (unplaced ids st) < card (unplaced ids stage)" by (intro psubset_card_mono) auto
    then have "card (unplaced ids st) < k" using "2.prems"(2) by simp
    from "2.IH" [OF "2.prems"(3) p [symmetric] False l(1) this False] show ?thesis
      using "2.prems"(3) p False by simp
  qed
qed simp

section \<open>Roots\<close>

lemma roots_step:
  "fst (fold (\<lambda>i (stage, queue). if P i then (AList.update i 0 stage, queue @ [i]) else (stage, queue)) js (st, q)) =
     fold (\<lambda>i stage. if P i then AList.update i (0::int) stage else stage) js st"
  "snd (fold (\<lambda>i (stage, queue). if P i then (AList.update i 0 stage, queue @ [i]) else (stage, queue)) js (st, q)) =
     q @ filter P js"
  by (induction js arbitrary: st q) auto

lemma map_of_roots:
  "map_of (fold (\<lambda>i stage. if P i then AList.update i (0::int) stage else stage) js st) i =
     (if i \<in> set js \<and> P i then Some 0 else map_of st i)"
  by (induction js arbitrary: st) auto

lemma distinct_roots:
  "distinct (map fst st) \<Longrightarrow>
     distinct (map fst (fold (\<lambda>i stage. if P i then AList.update i (0::int) stage else stage) js st))"
  by (induction js arbitrary: st) (auto simp: distinct_update)

lemma roots_of_simps:
  "map_of (fst (roots_of deps ids)) i = (if i \<in> set ids \<and> nullish (map_of deps i) [] = [] then Some 0 else None)"
  "snd (roots_of deps ids) = filter (\<lambda>i. nullish (map_of deps i) [] = []) ids"
  "distinct (map fst (fst (roots_of deps ids)))"
  by (simp_all add: roots_of_def roots_step map_of_roots distinct_roots)

lemma layered_roots: "layered ids deps (fst (roots_of deps ids))"
  by (auto simp: layered_def roots_of_simps split: if_splits)

section \<open>The final stages\<close>

lemma map_of_pin:
  "map_of (pin_cycles ids stage) i = (if map_of stage i = None \<and> i \<in> set ids
     then Some (foldl (\<lambda>m s. if s > m then s else m) (-1) (map snd stage) + 1) else map_of stage i)"
proof -
  have "map_of (fold (\<lambda>i st. if i \<in> fst ` set st then st else AList.update i c st) js st) i =
      (if map_of st i = None \<and> i \<in> set js then Some c else map_of st i)" for js c and st :: stage_map
  proof (induction js arbitrary: st)
    case (Cons j js)
    show ?case
    proof (cases "map_of st j")
      case None
      then have "j \<notin> fst ` set st" by (simp add: not_key_iff)
      with None show ?thesis by (auto simp: Cons)
    next
      case (Some c)
      then have "j \<in> fst ` set st" using not_key_iff [of j st] by auto
      with Some show ?thesis by (auto simp: Cons)
    qed
  qed simp
  then show ?thesis by (simp add: pin_cycles_def Let_def)
qed

lemma distinct_pin: "distinct (map fst stage) \<Longrightarrow> distinct (map fst (pin_cycles ids stage))"
proof -
  have "distinct (map fst st) \<Longrightarrow>
      distinct (map fst (fold (\<lambda>i st. if i \<in> fst ` set st then st else AList.update i c st) js st))"
    for js c and st :: stage_map
    by (induction js arbitrary: st) (auto simp: distinct_update)
  then show "distinct (map fst stage) \<Longrightarrow> distinct (map fst (pin_cycles ids stage))"
    by (simp add: pin_cycles_def Let_def)
qed

definition loop_stage :: "string list \<Rightarrow> StagesEdge list \<Rightarrow> stage_map" where
  "loop_stage ids es = stage_loop (length ids * (length ids + 1)) ids (deps_of ids es)
     (snd (roots_of (deps_of ids es) ids)) (fst (roots_of (deps_of ids es) ids))"

lemma final_stage_pin: "final_stage ids es = pin_cycles ids (loop_stage ids es)"
  by (simp add: final_stage_def loop_stage_def Let_def split: prod.splits)

lemma layered_loop_stage: "layered ids (deps_of ids es) (loop_stage ids es)"
  unfolding loop_stage_def using stage_loop_layered [OF layered_roots] by blast

lemma stuck_loop_stage: "stuck ids (deps_of ids es) (loop_stage ids es)"
proof (cases "snd (roots_of (deps_of ids es) ids) = []")
  case True
  then have "\<forall>i \<in> set ids. deps_list ids es i \<noteq> []"
    by (simp add: roots_of_simps filter_empty_conv)
  moreover have "map_of (fst (roots_of (deps_of ids es) ids)) j = None" for j
    using calculation by (auto simp: roots_of_simps)
  moreover have "loop_stage ids es = fst (roots_of (deps_of ids es) ids)"
    unfolding loop_stage_def using True by (cases "length ids * (length ids + 1)") auto
  ultimately show ?thesis
    by (auto simp: stuck_def unplaced_def) (metis hd_in_set)
next
  case False
  then have "ids \<noteq> []" by (auto simp: roots_of_simps)
  moreover have "card (unplaced ids (fst (roots_of (deps_of ids es) ids))) \<le> length ids"
    by (rule order_trans [OF card_mono card_length]) (auto simp: unplaced_def)
  ultimately have "card (unplaced ids (fst (roots_of (deps_of ids es) ids))) < length ids * (length ids + 1)"
    by (cases ids) auto
  then show ?thesis
    unfolding loop_stage_def by (rule stage_loop_stuck [OF layered_roots _ False])
qed

lemma acyclic_all_placed:
  assumes "acyclic {(se_source e, se_target e) | e. e \<in> set es}"
  shows "unplaced ids (loop_stage ids es) = {}"
proof (rule ccontr)
  let ?R = "{(se_source e, se_target e) | e. e \<in> set es}"
  assume "unplaced ids (loop_stage ids es) \<noteq> {}"
  moreover have "finite ?R" by (rule finite_surj [of "set es" _ "\<lambda>e. (se_source e, se_target e)"]) auto
  then have "wf ?R" using assms by (rule finite_acyclic_wf)
  moreover from calculation obtain k where "k \<in> unplaced ids (loop_stage ids es)" by blast
  ultimately obtain i where i: "i \<in> unplaced ids (loop_stage ids es)"
    "\<And>d. (d, i) \<in> ?R \<Longrightarrow> d \<notin> unplaced ids (loop_stage ids es)"
    by (meson wfE_min)
  from stuck_loop_stage [of ids es] i(1) obtain d where
    d: "d \<in> set (deps_list ids es i)" "map_of (loop_stage ids es) d = None"
    unfolding stuck_def by blast
  then have "(d, i) \<in> ?R" "d \<in> unplaced ids (loop_stage ids es)"
    by (auto simp: set_deps_list unplaced_def)
  with i(2) show False by blast
qed

lemma final_stage_keys: "(\<exists>s. map_of (final_stage ids es) i = Some s) \<longleftrightarrow> i \<in> set ids"
  using layered_loop_stage [of ids es] unfolding layered_def
  by (cases "map_of (loop_stage ids es) i") (auto simp: final_stage_pin map_of_pin)

lemma distinct_final_stage: "distinct (map fst (final_stage ids es))"
  using layered_loop_stage [of ids es] by (simp add: final_stage_pin distinct_pin layered_def)

lemma acyclic_final_stage:
  assumes "acyclic {(se_source e, se_target e) | e. e \<in> set es}"
  shows "layered ids (deps_of ids es) (final_stage ids es)"
proof -
  have "map_of (final_stage ids es) = map_of (loop_stage ids es)"
    using acyclic_all_placed [OF assms, of ids]
    by (auto simp: final_stage_pin map_of_pin unplaced_def fun_eq_iff)
  with layered_loop_stage [of ids es] show ?thesis
    by (simp add: layered_def distinct_final_stage)
qed

section \<open>Buckets and stages\<close>

lemma map_of_buckets:
  "map_of (fold bucket_step xs m) s =
     (if filter (\<lambda>p. snd p = s) xs = [] then map_of m s
      else Some (nullish (map_of m s) [] @ map fst (filter (\<lambda>p. snd p = s) xs)))"
  by (induction xs arbitrary: m) (auto simp: bucket_step_def)

lemma distinct_buckets: "distinct (map fst m) \<Longrightarrow> distinct (map fst (fold bucket_step xs m))"
  by (induction xs arbitrary: m) (auto simp: bucket_step_def distinct_update split: prod.splits)

text \<open>The stage numbers in use, in order, and the members of a stage.\<close>

definition levels :: "stage_map \<Rightarrow> int list" where
  "levels st = sorted_list_of_set (snd ` set st)"

definition members :: "stage_map \<Rightarrow> int \<Rightarrow> string list" where
  "members st l = map fst (filter (\<lambda>p. snd p = l) st)"

lemma sort_keys_buckets: "sort (map fst (fold bucket_step st [])) = levels st"
proof -
  have "set (map fst (fold bucket_step st [])) = snd ` set st"
  proof (rule set_eqI)
    fix s
    have "s \<in> set (map fst (fold bucket_step st [])) \<longleftrightarrow> map_of (fold bucket_step st []) s \<noteq> None"
      using not_key_iff [of s "fold bucket_step st []"] by auto
    also have "\<dots> \<longleftrightarrow> (\<exists>p \<in> set st. snd p = s)"
      by (simp add: map_of_buckets filter_empty_conv)
    finally show "s \<in> set (map fst (fold bucket_step st [])) \<longleftrightarrow> s \<in> snd ` set st"
      by (simp add: image_iff eq_commute)
  qed
  with distinct_buckets [of "[]" st] show ?thesis
    unfolding levels_def by (metis distinct_map distinct_remdups_id list.simps(8) sorted_list_of_set_sort_remdups distinct.simps(1))
qed

lemma projectStages_levels:
  "projectStages le ids es = map (\<lambda>(k, l). \<lparr>sg_index = k, sg_nodeIds = sort_by le (members (final_stage ids es) l)\<rparr>)
     (zip [0..<length (levels (final_stage ids es))] (levels (final_stage ids es)))"
proof -
  have "nullish (map_of (fold bucket_step st []) l) [] = members st l" for st :: stage_map and l
    by (simp add: map_of_buckets members_def)
  then show ?thesis
    unfolding projectStages_def Let_def sort_keys_buckets by simp
qed

lemma length_projectStages: "length (projectStages le ids es) = length (levels (final_stage ids es))"
  by (simp add: projectStages_levels)

lemma nth_projectStages:
  "k < length (levels (final_stage ids es)) \<Longrightarrow> projectStages le ids es ! k =
     \<lparr>sg_index = k, sg_nodeIds = sort_by le (members (final_stage ids es) (levels (final_stage ids es) ! k))\<rparr>"
  by (simp add: projectStages_levels)

lemma members_iff:
  "distinct (map fst st) \<Longrightarrow> i \<in> set (members st l) \<longleftrightarrow> map_of st i = Some l"
  unfolding members_def by (auto simp: image_iff map_of_eq_Some_iff)

lemma set_levels: "set (levels st) = snd ` set st" and sorted_levels: "sorted (levels st)"
  and distinct_levels: "distinct (levels st)"
  by (simp_all add: levels_def)

text \<open>A node is in the stage of its number, and in no other.\<close>

lemma in_stage_iff:
  assumes "k < length (projectStages le ids es)"
  shows "i \<in> set (sg_nodeIds (projectStages le ids es ! k)) \<longleftrightarrow>
    map_of (final_stage ids es) i = Some (levels (final_stage ids es) ! k)"
  using assms by (simp add: length_projectStages nth_projectStages members_iff distinct_final_stage)

lemma stage_of_node:
  assumes "map_of (final_stage ids es) i = Some s"
  obtains k where "k < length (projectStages le ids es)" "levels (final_stage ids es) ! k = s"
proof -
  from assms have "s \<in> set (levels (final_stage ids es))"
    by (auto simp: set_levels dest: map_of_SomeD intro: rev_image_eqI)
  then show ?thesis using that by (auto simp: in_set_conv_nth length_projectStages)
qed

lemma stage_number_unique:
  assumes "i \<in> set (sg_nodeIds (projectStages le ids es ! j))" "j < length (projectStages le ids es)"
    "i \<in> set (sg_nodeIds (projectStages le ids es ! k))" "k < length (projectStages le ids es)"
  shows "j = k"
proof -
  have "levels (final_stage ids es) ! j = levels (final_stage ids es) ! k"
    using assms in_stage_iff by (metis option.inject)
  then show ?thesis
    using assms(2,4) distinct_levels by (simp add: nth_eq_iff_index_eq length_projectStages)
qed

lemma sorted_distinct_less_iff:
  "sorted xs \<Longrightarrow> distinct xs \<Longrightarrow> i < length xs \<Longrightarrow> j < length xs \<Longrightarrow> xs ! i < xs ! j \<longleftrightarrow> i < j"
  for xs :: "int list"
  by (metis linorder_not_le nless_le nth_eq_iff_index_eq sorted_nth_mono)

lemma distinct_concat_nth:
  assumes "\<And>k. k < length xss \<Longrightarrow> distinct (xss ! k)"
    and "\<And>j k x. j < length xss \<Longrightarrow> k < length xss \<Longrightarrow> x \<in> set (xss ! j) \<Longrightarrow> x \<in> set (xss ! k) \<Longrightarrow> j = k"
  shows "distinct (concat xss)"
  using assms
proof (induction xss)
  case (Cons xs xss)
  have "distinct (concat xss)"
  proof (rule Cons.IH)
    show "distinct (xss ! k)" if "k < length xss" for k
      using Cons.prems(1) [of "Suc k"] that by simp
    show "j = k" if "j < length xss" "k < length xss" "x \<in> set (xss ! j)" "x \<in> set (xss ! k)" for j k x
      using Cons.prems(2) [of "Suc j" "Suc k" x] that by simp
  qed
  moreover have "x \<notin> set ys" if "x \<in> set xs" "ys \<in> set xss" for x ys
  proof -
    from that(2) obtain k where "k < length xss" "xss ! k = ys" by (auto simp: in_set_conv_nth)
    with Cons.prems(2) [of 0 "Suc k" x] that(1) show ?thesis by auto
  qed
  ultimately show ?case using Cons.prems(1) [of 0] by auto
qed simp

text \<open>
  the projection places every node in exactly one stage, cycles included: no stage is
  empty, no node is listed twice, the stages together hold exactly the given ids, and they are
  numbered in order.
\<close>

theorem projectStages_partition:
  "\<Union> (set ` sg_nodeIds ` set (projectStages le ids es)) = set ids \<and>
   map sg_index (projectStages le ids es) = [0..<length (projectStages le ids es)] \<and>
   [] \<notin> sg_nodeIds ` set (projectStages le ids es) \<and>
   distinct (concat (map sg_nodeIds (projectStages le ids es)))"
proof (intro conjI)
  let ?ps = "projectStages le ids es" and ?st = "final_stage ids es"
  show "\<Union> (set ` sg_nodeIds ` set ?ps) = set ids"
  proof (rule set_eqI)
    fix i
    have "i \<in> \<Union> (set ` sg_nodeIds ` set ?ps) \<longleftrightarrow> (\<exists>k < length ?ps. i \<in> set (sg_nodeIds (?ps ! k)))"
      by (simp, metis in_set_conv_nth)
    also have "\<dots> \<longleftrightarrow> (\<exists>s. map_of ?st i = Some s)"
      using in_stage_iff stage_of_node by metis
    finally show "i \<in> \<Union> (set ` sg_nodeIds ` set ?ps) \<longleftrightarrow> i \<in> set ids"
      by (simp add: final_stage_keys)
  qed
  show "map sg_index ?ps = [0..<length ?ps]"
    by (rule nth_equalityI) (simp_all add: length_projectStages nth_projectStages)
  show "[] \<notin> sg_nodeIds ` set ?ps"
  proof
    assume "[] \<in> sg_nodeIds ` set ?ps"
    then obtain k where k: "k < length ?ps" "sg_nodeIds (?ps ! k) = []"
      by (auto simp: in_set_conv_nth)
    then have "levels ?st ! k \<in> snd ` set ?st"
      using nth_mem [of k "levels ?st"] by (simp add: length_projectStages set_levels)
    then obtain i where "(i, levels ?st ! k) \<in> set ?st" by auto
    then have "map_of ?st i = Some (levels ?st ! k)"
      by (simp add: distinct_final_stage map_of_is_SomeI)
    with k in_stage_iff show False by (metis empty_iff list.set(1))
  qed
  show "distinct (concat (map sg_nodeIds ?ps))"
  proof (rule distinct_concat_nth)
    show "distinct (map sg_nodeIds ?ps ! k)" if "k < length (map sg_nodeIds ?ps)" for k
      using that distinct_final_stage [of ids es]
      by (simp add: length_projectStages nth_projectStages members_def distinct_map_filter)
    show "j = k" if "j < length (map sg_nodeIds ?ps)" "k < length (map sg_nodeIds ?ps)"
      "i \<in> set (map sg_nodeIds ?ps ! j)" "i \<in> set (map sg_nodeIds ?ps ! k)" for j k i
      using that stage_number_unique [of i le ids es j k] by simp
  qed
qed

text \<open>
  C38: in an acyclic graph the stage of a node is the length of the longest path leading to it.
  The source of every edge lies in an earlier stage than its target, and every node that is
  not in the first stage has a predecessor in the stage just before its own.
\<close>

theorem projectStages_longest_path:
  assumes "acyclic {(se_source e, se_target e) | e. e \<in> set es}"
    and "k < length (projectStages le ids es)" "i \<in> set (sg_nodeIds (projectStages le ids es ! k))"
  shows "(\<forall>e. e \<in> set es \<and> se_target e = i \<and> se_source e \<in> set ids \<longrightarrow>
            (\<exists>j < k. se_source e \<in> set (sg_nodeIds (projectStages le ids es ! j)))) \<and>
         (k = 0 \<or> (\<exists>e. e \<in> set es \<and> se_target e = i \<and>
            se_source e \<in> set (sg_nodeIds (projectStages le ids es ! (k - 1)))))"
proof -
  let ?ps = "projectStages le ids es" and ?st = "final_stage ids es"
  let ?lv = "levels ?st"
  have lay: "layered ids (deps_of ids es) ?st" by (rule acyclic_final_stage [OF assms(1)])
  have len: "length ?ps = length ?lv" by (rule length_projectStages)
  have s: "map_of ?st i = Some (?lv ! k)" using in_stage_iff [OF assms(2)] assms(3) by blast
  have lt: "?lv ! a < ?lv ! b \<longleftrightarrow> a < b" if "a < length ?ps" "b < length ?ps" for a b
    using that len sorted_levels distinct_levels by (metis sorted_distinct_less_iff)
  have first: "\<exists>j < k. se_source e \<in> set (sg_nodeIds (?ps ! j))"
    if e: "e \<in> set es" "se_target e = i" "se_source e \<in> set ids" for e
  proof -
    have "i \<in> set ids" using s lay unfolding layered_def by blast
    moreover have "se_source e \<noteq> i"
      using assms(1) e unfolding acyclic_def by (metis (mono_tags, lifting) mem_Collect_eq r_into_trancl)
    ultimately have "se_source e \<in> set (deps_list ids es i)"
      using e by (auto simp: set_deps_list)
    then obtain t where t: "map_of ?st (se_source e) = Some t" "t < ?lv ! k"
      using lay s unfolding layered_def by blast
    obtain j where j: "j < length ?ps" "?lv ! j = t" by (rule stage_of_node [OF t(1)])
    with t lt [OF j(1) assms(2)] in_stage_iff [OF j(1)] show ?thesis by auto
  qed
  have "\<exists>e. e \<in> set es \<and> se_target e = i \<and> se_source e \<in> set (sg_nodeIds (?ps ! (k - 1)))" if "k \<noteq> 0"
  proof -
    have "0 \<le> ?lv ! 0"
    proof -
      have "?lv ! 0 \<in> snd ` set ?st"
        using assms(2) len set_levels [of ?st] nth_mem [of 0 ?lv] by (metis bot_nat_0.not_eq_extremum less_nat_zero_code)
      then obtain d where "(d, ?lv ! 0) \<in> set ?st" by auto
      then have "map_of ?st d = Some (?lv ! 0)" by (simp add: distinct_final_stage map_of_is_SomeI)
      then show ?thesis using lay unfolding layered_def by blast
    qed
    moreover have "?lv ! 0 < ?lv ! k" using lt [of 0 k] that assms(2) by fastforce
    ultimately have "?lv ! k \<noteq> 0" by simp
    then obtain d where d: "d \<in> set (deps_list ids es i)" "map_of ?st d = Some (?lv ! k - 1)"
      using lay s unfolding layered_def by blast
    obtain j where j: "j < length ?ps" "?lv ! j = ?lv ! k - 1" by (rule stage_of_node [OF d(2)])
    have "j < k" using lt [OF j(1) assms(2)] j(2) by simp
    moreover have "\<not> j < k - 1"
    proof
      assume "j < k - 1"
      then have "?lv ! j < ?lv ! (k - 1)" "?lv ! (k - 1) < ?lv ! k"
        using lt [of j "k - 1"] lt [of "k - 1" k] j(1) assms(2) that by simp_all
      with j(2) show False by simp
    qed
    ultimately have "j = k - 1" by simp
    with d j in_stage_iff [OF j(1)] show ?thesis by (auto simp: set_deps_list)
  qed
  with first show ?thesis by blast
qed

abbreviation ex_sedge :: "string \<Rightarrow> string \<Rightarrow> StagesEdge" where
  "ex_sedge u v \<equiv> \<lparr>se_source = u, se_target = v\<rparr>"

theorem projectStages_longest_path_witness:
  "\<exists>e. e \<in> set [ex_sedge ''a'' ''b'', ex_sedge ''b'' ''c'', ex_sedge ''a'' ''c''] \<and> se_target e = ''c'' \<and>
     se_source e \<in> set (sg_nodeIds (projectStages (\<le>) [''c'', ''a'', ''b'']
        [ex_sedge ''a'' ''b'', ex_sedge ''b'' ''c'', ex_sedge ''a'' ''c''] ! 1))"
proof -
  let ?es = "[ex_sedge ''a'' ''b'', ex_sedge ''b'' ''c'', ex_sedge ''a'' ''c'']"
  have p: "projectStages (\<le>) [''c'', ''a'', ''b''] ?es =
      [\<lparr>sg_index = 0, sg_nodeIds = [''a'']\<rparr>, \<lparr>sg_index = 1, sg_nodeIds = [''b'']\<rparr>, \<lparr>sg_index = 2, sg_nodeIds = [''c'']\<rparr>]"
    by code_simp
  have "{(se_source e, se_target e) | e. e \<in> set ?es} \<subseteq> (measure (\<lambda>x. if x = ''a'' then 2 else if x = ''b'' then 1 else 0))\<inverse>"
    by auto
  then have "acyclic {(se_source e, se_target e) | e. e \<in> set ?es}"
    by (meson acyclic_converse acyclic_subset wf_acyclic wf_measure)
  from projectStages_longest_path [OF this, of 2 "(\<le>)" "[''c'', ''a'', ''b'']" "''c''"] p
  show ?thesis by simp
qed

section \<open>Stage sections written into a specification\<close>

lemma map_of_fold_update:
  "map_of (fold (\<lambda>n m. AList.update n v m) ns m) x = (if x \<in> set ns then Some v else map_of m x)"
  by (induction ns arbitrary: m) auto

lemma stage_by_node_none:
  "(\<forall>sg \<in> set sgs. x \<notin> set (sg_nodeIds sg)) \<Longrightarrow>
     map_of (fold (\<lambda>(i, sg) m. fold (\<lambda>n m. AList.update n (auto_id i) m) (sg_nodeIds sg) m)
       (zip [a..<a + length sgs] sgs) m) x = map_of m x"
proof (induction sgs arbitrary: a m)
  case (Cons sg sgs)
  have "zip [a..<a + length (sg # sgs)] (sg # sgs) = (a, sg) # zip [Suc a..<Suc a + length sgs] sgs"
    by (simp add: upt_rec)
  then show ?case using Cons.IH [of "Suc a"] Cons.prems by (simp add: map_of_fold_update)
qed simp

lemma stage_by_node_gen:
  assumes "k < length sgs" "x \<in> set (sg_nodeIds (sgs ! k))"
    and "\<And>j. j < length sgs \<Longrightarrow> x \<in> set (sg_nodeIds (sgs ! j)) \<Longrightarrow> j = k"
  shows "map_of (fold (\<lambda>(i, sg) m. fold (\<lambda>n m. AList.update n (auto_id i) m) (sg_nodeIds sg) m)
       (zip [a..<a + length sgs] sgs) m) x = Some (auto_id (a + k))"
  using assms
proof (induction sgs arbitrary: a m k)
  case (Cons sg sgs)
  have z: "zip [a..<a + length (sg # sgs)] (sg # sgs) = (a, sg) # zip [Suc a..<Suc a + length sgs] sgs"
    by (simp add: upt_rec)
  show ?case
  proof (cases k)
    case 0
    have "\<forall>s \<in> set sgs. x \<notin> set (sg_nodeIds s)"
    proof
      fix s assume "s \<in> set sgs"
      then obtain j where "j < length sgs" "sgs ! j = s" by (auto simp: in_set_conv_nth)
      with Cons.prems(3) [of "Suc j"] 0 show "x \<notin> set (sg_nodeIds s)" by auto
    qed
    with stage_by_node_none [of sgs x "Suc a"] Cons.prems(2) 0 show ?thesis
      unfolding z by (simp add: map_of_fold_update)
  next
    case (Suc l)
    have "j = l" if "j < length sgs" "x \<in> set (sg_nodeIds (sgs ! j))" for j
      using Cons.prems(3) [of "Suc j"] that Suc by simp
    moreover have "l < length sgs" "x \<in> set (sg_nodeIds (sgs ! l))" using Cons.prems(1,2) Suc by simp_all
    ultimately have "map_of (fold (\<lambda>(i, sg) m. fold (\<lambda>n m. AList.update n (auto_id i) m) (sg_nodeIds sg) m)
        (zip [Suc a..<Suc a + length sgs] sgs) m') x = Some (auto_id (Suc a + l))" for m'
      by (intro Cons.IH) blast+
    then show ?thesis unfolding z Suc by simp
  qed
qed simp

abbreviation spec_stages :: "(string \<Rightarrow> string \<Rightarrow> bool) \<Rightarrow> PipelineSpec \<Rightarrow> Stage list" where
  "spec_stages le spec \<equiv> projectStages le (map n_id (ps_nodes spec))
     (map (\<lambda>e. \<lparr>se_source = e_from e, se_target = e_to e\<rparr>) (ps_edges spec))"

lemma node_in_some_stage:
  assumes "n \<in> set (ps_nodes spec)"
  obtains k where "k < length (spec_stages le spec)" "n_id n \<in> set (sg_nodeIds (spec_stages le spec ! k))"
    "map_of (stage_by_node (spec_stages le spec)) (n_id n) = Some (auto_id k)"
proof -
  let ?es = "map (\<lambda>e. \<lparr>se_source = e_from e, se_target = e_to e\<rparr>) (ps_edges spec)"
  from assms have "n_id n \<in> set (map n_id (ps_nodes spec))" by simp
  then obtain s where s: "map_of (final_stage (map n_id (ps_nodes spec)) ?es) (n_id n) = Some s"
    using final_stage_keys by metis
  obtain k where k: "k < length (spec_stages le spec)" "levels (final_stage (map n_id (ps_nodes spec)) ?es) ! k = s"
    by (rule stage_of_node [OF s])
  with s have i: "n_id n \<in> set (sg_nodeIds (spec_stages le spec ! k))" by (simp add: in_stage_iff)
  have "map_of (stage_by_node (spec_stages le spec)) (n_id n) = Some (auto_id (0 + k))"
    using stage_by_node_gen [OF k(1) i, of 0 "[]"] stage_number_unique [OF _ _ i k(1)]
    by (simp add: stage_by_node_def)
  with k(1) i that show ?thesis by simp
qed

lemma auto_id_not_Nil [simp]: "auto_id i \<noteq> []"
  by (simp add: auto_id_def)

lemma autoStageSpec_unfold:
  assumes "nullish (ps_stages spec) [] = []" "ps_nodes spec \<noteq> []" "spec_stages le spec \<noteq> []"
  shows "autoStageSpec le spec = spec\<lparr>
    ps_stages := Some (map (\<lambda>i. \<lparr>stg_id = auto_id i, stg_label = ''Stage '' @ nat_str (i + 1)\<rparr>) [0..<length (spec_stages le spec)]),
    ps_nodes := map (\<lambda>n. case map_of (stage_by_node (spec_stages le spec)) (n_id n) of
        None \<Rightarrow> n
      | Some s \<Rightarrow> if s = [] then n
          else n\<lparr>n_ui := Some (obj_set ''stageId'' (JStr s) (nullish (n_ui n) []))\<rparr>) (ps_nodes spec)\<rparr>"
  unfolding autoStageSpec_def Let_def using assms by simp

lemma autoStageSpec_idem: "autoStageSpec le (autoStageSpec le spec) = autoStageSpec le spec"
proof (cases "nullish (ps_stages spec) [] = [] \<and> ps_nodes spec \<noteq> [] \<and> spec_stages le spec \<noteq> []")
  case True
  then have "nullish (ps_stages (autoStageSpec le spec)) [] \<noteq> []"
    using autoStageSpec_unfold [of spec le] by simp
  then show ?thesis by (subst autoStageSpec_def) simp
next
  case False
  then consider "nullish (ps_stages spec) [] \<noteq> []" | "ps_nodes spec = []" | "spec_stages le spec = []" by blast
  then have "autoStageSpec le spec = spec"
    by cases (simp_all only: autoStageSpec_def Let_def simp_thms if_True if_False if_cancel)
  then show ?thesis by simp
qed

text \<open>
  staging is idempotent, keeps the edges, node ids and every other part of the nodes, and,
  when the specification has nodes and no stages of its own, puts every node in the section of
  its topological layer.
\<close>

theorem autoStageSpec_sound:
  assumes "nullish (ps_stages spec) [] = []" "m \<in> set (ps_nodes (autoStageSpec le spec))"
  shows "autoStageSpec le (autoStageSpec le spec) = autoStageSpec le spec \<and>
    ps_edges (autoStageSpec le spec) = ps_edges spec \<and>
    (\<exists>n k. n \<in> set (ps_nodes spec) \<and> k < length (spec_stages le spec) \<and>
       n_id n \<in> set (sg_nodeIds (spec_stages le spec ! k)) \<and>
       m = n\<lparr>n_ui := Some (obj_set ''stageId'' (JStr (auto_id k)) (nullish (n_ui n) []))\<rparr> \<and>
       map stg_id (nullish (ps_stages (autoStageSpec le spec)) []) ! k = auto_id k)"
proof -
  from assms have ne: "ps_nodes spec \<noteq> []" by (auto simp: autoStageSpec_def)
  then obtain n0 where "n0 \<in> set (ps_nodes spec)" by (cases "ps_nodes spec") auto
  then obtain k0 where "k0 < length (spec_stages le spec)" by (rule node_in_some_stage)
  then have ne2: "spec_stages le spec \<noteq> []" by auto
  note eq = autoStageSpec_unfold [OF assms(1) ne ne2]
  from assms(2) obtain n where n: "n \<in> set (ps_nodes spec)"
    "m = (case map_of (stage_by_node (spec_stages le spec)) (n_id n) of None \<Rightarrow> n
        | Some s \<Rightarrow> if s = [] then n else n\<lparr>n_ui := Some (obj_set ''stageId'' (JStr s) (nullish (n_ui n) []))\<rparr>)"
    unfolding eq by auto
  obtain k where k: "k < length (spec_stages le spec)" "n_id n \<in> set (sg_nodeIds (spec_stages le spec ! k))"
    "map_of (stage_by_node (spec_stages le spec)) (n_id n) = Some (auto_id k)"
    by (rule node_in_some_stage [OF n(1)])
  have "map stg_id (nullish (ps_stages (autoStageSpec le spec)) []) ! k = auto_id k"
    unfolding eq using k(1) by simp
  moreover have "ps_edges (autoStageSpec le spec) = ps_edges spec" unfolding eq by simp
  moreover have "m = n\<lparr>n_ui := Some (obj_set ''stageId'' (JStr (auto_id k)) (nullish (n_ui n) []))\<rparr>"
    using n(2) k(3) by simp
  ultimately show ?thesis using autoStageSpec_idem [of le spec] n(1) k(1,2) by blast
qed

abbreviation ex_node :: "string \<Rightarrow> PipelineNode" where
  "ex_node i \<equiv> \<lparr>n_id = i, n_type = Some NT_input, n_plugin = None, n_config = None, n_secrets = None,
     n_dataset = None, n_connection = None, n_binding = None, n_stream = False, n_streamAs = None, n_ui = None\<rparr>"

definition ex_stage_spec :: PipelineSpec where
  "ex_stage_spec = \<lparr>ps_apiVersion = ''rag-platform/v1'', ps_kind = ''Pipeline'', ps_name = ''p'',
     ps_stages = None, ps_nodes = [ex_node ''a'', ex_node ''b''], ps_edges = [ex_edge ''a'' ''b''], ps_bindings = []\<rparr>"

theorem autoStageSpec_sound_witness:
  "autoStageSpec (\<le>) (autoStageSpec (\<le>) ex_stage_spec) = autoStageSpec (\<le>) ex_stage_spec"
proof -
  have "spec_stages (\<le>) ex_stage_spec = [\<lparr>sg_index = 0, sg_nodeIds = [''a'']\<rparr>, \<lparr>sg_index = 1, sg_nodeIds = [''b'']\<rparr>]"
    by code_simp
  then have "ps_nodes (autoStageSpec (\<le>) ex_stage_spec) \<noteq> []"
    by (simp add: autoStageSpec_def ex_stage_spec_def Let_def)
  then obtain m where m: "m \<in> set (ps_nodes (autoStageSpec (\<le>) ex_stage_spec))"
    by (cases "ps_nodes (autoStageSpec (\<le>) ex_stage_spec)") auto
  from autoStageSpec_sound [OF _ this] show ?thesis by (simp add: ex_stage_spec_def)
qed

end
