(* ===== verification/Plugin_Registry.thy ===== *)
theory Plugin_Registry
  imports Core_Model
begin

text \<open>
  The plugin registry of the plugin SDK (\<open>packages/plugin-sdk/src/index.ts\<close>): plugin
  manifests, registered plugins and the map from plugin keys to plugins.  The locale
  \<open>keyed_store\<close> is the contract of every store of the platform that keeps one value per
  key; the registry is shown to satisfy it.  What a plugin computes is not part of this
  theory: the runtime takes it as a parameter.
\<close>

section \<open>Stores with one value per key\<close>

locale keyed_store =
  fixes put :: "'v \<Rightarrow> 's \<Rightarrow> 's"
    and lookup :: "'s \<Rightarrow> 'k \<Rightarrow> 'v option"
    and vals :: "'s \<Rightarrow> 'v list"
    and key :: "'v \<Rightarrow> 'k"
    and ok :: "'s \<Rightarrow> bool"
  assumes lookup_put: "ok s \<Longrightarrow> lookup (put v s) k = (if k = key v then Some v else lookup s k)"
    and ok_put: "ok s \<Longrightarrow> ok (put v s)"
    and vals_lookup: "ok s \<Longrightarrow> v \<in> set (vals s) \<longleftrightarrow> lookup s (key v) = Some v"
begin

lemma ok_puts: "ok s \<Longrightarrow> ok (fold put vs s)"
  by (induction vs arbitrary: s) (auto simp: ok_put)

lemma lookup_puts:
  "ok s \<Longrightarrow> lookup (fold put vs s) k =
     (case find (\<lambda>v. key v = k) (rev vs) of None \<Rightarrow> lookup s k | Some v \<Rightarrow> Some v)"
proof (induction vs rule: rev_induct)
  case (snoc v vs)
  then show ?case by (auto simp: lookup_put ok_puts)
qed simp

lemma vals_put: "ok s \<Longrightarrow> w \<in> set (vals (put v s)) \<longleftrightarrow> w = v \<or> (w \<in> set (vals s) \<and> key w \<noteq> key v)"
  by (auto simp: vals_lookup lookup_put ok_put)

lemma vals_puts_distinct_keys:
  "ok s \<Longrightarrow> v \<in> set (vals (fold put vs s)) \<Longrightarrow> w \<in> set (vals (fold put vs s)) \<Longrightarrow>
     key v = key w \<Longrightarrow> v = w"
  by (metis ok_puts option.inject vals_lookup)

end

section \<open>Manifests\<close>

record PortDef =
  port_name :: string
  port_required :: bool

record BindingRequirement =
  rq_binding :: "string option"
  rq_kind :: "string option"
  rq_kindOneOf :: "string list option"
  rq_modality :: "string option"
  rq_provider :: "string option"

record PluginManifest =
  pm_id :: string
  pm_name :: string
  pm_version :: string
  pm_category :: PluginCategory
  pm_contract :: "int option"
  pm_datasetModalities :: "string list option"
  pm_requires :: "BindingRequirement list option"
  pm_streaming :: bool
  pm_inputPorts :: "PortDef list option"
  pm_outputPorts :: "PortDef list option"

datatype plugin_mode = In_process | External

record RegisteredPlugin =
  rp_manifest :: PluginManifest
  rp_mode :: plugin_mode

fun category_str :: "PluginCategory \<Rightarrow> string" where
  "category_str Cat_datasource = ''datasource''"
| "category_str Cat_loader = ''loader''"
| "category_str Cat_parser = ''parser''"
| "category_str Cat_chunker = ''chunker''"
| "category_str Cat_embedder = ''embedder''"
| "category_str Cat_vector_store = ''vector_store''"
| "category_str Cat_retriever = ''retriever''"
| "category_str Cat_reranker = ''reranker''"
| "category_str Cat_llm = ''llm''"
| "category_str Cat_prompt_template = ''prompt_template''"
| "category_str Cat_tool = ''tool''"
| "category_str Cat_guardrail = ''guardrail''"
| "category_str Cat_evaluator = ''evaluator''"
| "category_str Cat_output_parser = ''output_parser''"
| "category_str Cat_transformer = ''transformer''"
| "category_str Cat_router = ''router''"
| "category_str Cat_control = ''control''"
| "category_str Cat_memory = ''memory''"
| "category_str Cat_sink = ''sink''"
| "category_str Cat_connection_driver = ''connection_driver''"

definition pluginKey :: "PluginRef \<Rightarrow> string" where
  "pluginKey ref = category_str (pr_category ref) @ '':'' @ pr_id ref @ '':'' @ pr_version ref"

definition manifest_ref :: "PluginManifest \<Rightarrow> PluginRef" where
  "manifest_ref m = \<lparr>pr_category = pm_category m, pr_id = pm_id m, pr_version = pm_version m\<rparr>"

abbreviation plugin_key_of :: "RegisteredPlugin \<Rightarrow> string" where
  "plugin_key_of p \<equiv> pluginKey (manifest_ref (rp_manifest p))"

section \<open>The registry\<close>

type_synonym PluginRegistry = "(string, RegisteredPlugin) jsmap"

datatype registry_error = MissingPluginError string

definition register :: "RegisteredPlugin \<Rightarrow> PluginRegistry \<Rightarrow> PluginRegistry" where
  "register p reg = AList.update (plugin_key_of p) p reg"

definition get_plugin :: "PluginRegistry \<Rightarrow> PluginRef \<Rightarrow> RegisteredPlugin option" where
  "get_plugin reg ref = map_of reg (pluginKey ref)"

definition require_plugin :: "PluginRegistry \<Rightarrow> PluginRef \<Rightarrow> registry_error + RegisteredPlugin" where
  "require_plugin reg ref = (case get_plugin reg ref of
      None \<Rightarrow> Inl (MissingPluginError (pluginKey ref))
    | Some p \<Rightarrow> Inr p)"

definition list_plugins :: "PluginRegistry \<Rightarrow> PluginCategory option \<Rightarrow> RegisteredPlugin list" where
  "list_plugins reg category = filter (\<lambda>p. category = None \<or> category = Some (pm_category (rp_manifest p))) (map snd reg)"

section \<open>Lemmas\<close>

text \<open>
  Every registry that registrations build has one entry per key, and every entry is filed
  under the key of its own manifest.
\<close>

definition registry_ok :: "PluginRegistry \<Rightarrow> bool" where
  "registry_ok reg \<longleftrightarrow> distinct (map fst reg) \<and> (\<forall>(k, p) \<in> set reg. k = plugin_key_of p)"

lemma registry_ok_Nil [simp]: "registry_ok []"
  by (simp add: registry_ok_def)

lemma set_update_subset: "set (AList.update k v al) \<subseteq> insert (k, v) (set al)"
  by (induction al) auto

lemma registry_ok_register: "registry_ok reg \<Longrightarrow> registry_ok (register p reg)"
  using set_update_subset [of "plugin_key_of p" p reg]
  by (auto simp: registry_ok_def register_def distinct_update)

lemma registry_vals:
  assumes "registry_ok s"
  shows "v \<in> set (map snd s) \<longleftrightarrow> map_of s (plugin_key_of v) = Some v"
proof
  assume "v \<in> set (map snd s)"
  then obtain k where k: "(k, v) \<in> set s" by auto
  with assms have "k = plugin_key_of v" unfolding registry_ok_def by blast
  with k assms show "map_of s (plugin_key_of v) = Some v"
    unfolding registry_ok_def by (metis map_of_is_SomeI)
next
  assume "map_of s (plugin_key_of v) = Some v"
  then show "v \<in> set (map snd s)" by (metis map_of_SomeD set_zip_rightD zip_map_fst_snd)
qed

interpretation plugins: keyed_store register "\<lambda>reg k. map_of reg k" "map snd" plugin_key_of registry_ok
proof
  show "map_of (register v s) k = (if k = plugin_key_of v then Some v else map_of s k)" for v s k
    by (simp add: register_def)
  show "registry_ok (register v s)" if "registry_ok s" for v s
    using that by (rule registry_ok_register)
  show "v \<in> set (map snd s) \<longleftrightarrow> map_of s (plugin_key_of v) = Some v" if "registry_ok s" for v s
    using that by (rule registry_vals)
qed

lemma colon_not_in_category: "CHR '':'' \<notin> set (category_str c)"
  by (cases c) auto

lemma category_str_inject: "category_str a = category_str b \<longleftrightarrow> a = b"
  by (cases a; cases b) simp_all

text \<open>Keys separate references whose ids have no colon.\<close>

lemma pluginKey_inject:
  assumes "CHR '':'' \<notin> set (pr_id a)" "CHR '':'' \<notin> set (pr_id b)"
  shows "pluginKey a = pluginKey b \<longleftrightarrow>
    pr_category a = pr_category b \<and> pr_id a = pr_id b \<and> pr_version a = pr_version b"
proof
  assume eq: "pluginKey a = pluginKey b"
  have parts: "split_on (CHR '':'') (pluginKey r) =
      category_str (pr_category r) # pr_id r # split_on (CHR '':'') (pr_version r)"
    if "CHR '':'' \<notin> set (pr_id r)" for r
    using that by (simp add: pluginKey_def split_on_append colon_not_in_category)
  with eq assms have "category_str (pr_category a) = category_str (pr_category b)"
    and "pr_id a = pr_id b"
    and "split_on (CHR '':'') (pr_version a) = split_on (CHR '':'') (pr_version b)"
    by (metis list.inject)+
  then show "pr_category a = pr_category b \<and> pr_id a = pr_id b \<and> pr_version a = pr_version b"
    by (metis category_str_inject js_join_split_on)
qed (simp add: pluginKey_def)

text \<open>
  After any sequence of registrations, requiring a plugin returns the plugin registered
  last under the key of the reference, and raises \<open>MissingPluginError\<close> exactly when none was.
\<close>

theorem require_plugin_last_registered:
  "require_plugin (fold register ps []) ref =
     (case find (\<lambda>p. plugin_key_of p = pluginKey ref) (rev ps) of
        None \<Rightarrow> Inl (MissingPluginError (pluginKey ref))
      | Some p \<Rightarrow> Inr p)"
  by (simp add: require_plugin_def get_plugin_def plugins.lookup_puts split: option.splits)

end
