(* ===== verification/Spec_Validator.thy ===== *)
theory Spec_Validator
  imports Graph_Cycle Plugin_Registry
begin

text \<open>
  The validator of pipeline specifications (\<open>validatePipelineSpec\<close> and
  \<open>collectRefs\<close> in \<open>packages/pipeline-spec/src/index.ts\<close>): the loop over the nodes,
  the loop over the edges, the cycle check and the warnings, each pushing issues in the order
  the code does.  An issue keeps its level, code, node and edge; its message text is left
  out.  The lemmas give the declarative meaning of a valid specification.
\<close>

section \<open>Data\<close>

datatype issue_level = Lvl_error | Lvl_warning

datatype issue_code = Invalid_api_version | Invalid_kind | Missing_name | Duplicate_node
  | Missing_plugin | Missing_plugin_ref | Missing_required_dataset | Dataset_binding_missing
  | Dataset_binding_kind_mismatch | Missing_edge_source | Missing_edge_target
  | Unknown_output_port | Unknown_input_port | Cycle_detected | No_input_node | No_output_node

record ValidationIssue =
  is_level :: issue_level
  is_code :: issue_code
  is_nodeId :: "string option"
  is_edge :: "PipelineEdge option"

record DatasetSlotRef =
  sl_nodeId :: string
  sl_slug :: string
  sl_alias :: string

record PipelineValidationResult =
  pv_valid :: bool
  pv_errors :: "ValidationIssue list"
  pv_warnings :: "ValidationIssue list"
  pv_requiredSecrets :: "string list"
  pv_requiredConfig :: "string list"
  pv_missingPlugins :: "PluginRef list"
  pv_datasetSlots :: "DatasetSlotRef list"

text \<open>The dataset index maps a slug to its bindings: names with an optional connection kind.\<close>

type_synonym DatasetBindingIndex = "string \<Rightarrow> (string \<times> string option) list option"

text \<open>The local variables of the validator.\<close>

record vstate =
  vs_issues :: "ValidationIssue list"
  vs_nodeIds :: "string list"
  vs_requiredSecrets :: "string list"
  vs_requiredConfig :: "string list"
  vs_missingPlugins :: "PluginRef list"
  vs_datasetSlots :: "DatasetSlotRef list"
  vs_adjacency :: adjacency

definition vstate0 :: vstate where
  "vstate0 = \<lparr>vs_issues = [], vs_nodeIds = [], vs_requiredSecrets = [], vs_requiredConfig = [],
     vs_missingPlugins = [], vs_datasetSlots = [], vs_adjacency = []\<rparr>"

abbreviation error_issue :: "issue_code \<Rightarrow> ValidationIssue" where
  "error_issue c \<equiv> \<lparr>is_level = Lvl_error, is_code = c, is_nodeId = None, is_edge = None\<rparr>"

abbreviation warning_issue :: "issue_code \<Rightarrow> ValidationIssue" where
  "warning_issue c \<equiv> \<lparr>is_level = Lvl_warning, is_code = c, is_nodeId = None, is_edge = None\<rparr>"

abbreviation node_issue :: "issue_code \<Rightarrow> PipelineNode \<Rightarrow> ValidationIssue" where
  "node_issue c n \<equiv> \<lparr>is_level = Lvl_error, is_code = c, is_nodeId = Some (n_id n), is_edge = None\<rparr>"

abbreviation edge_issue :: "issue_level \<Rightarrow> issue_code \<Rightarrow> PipelineEdge \<Rightarrow> ValidationIssue" where
  "edge_issue l c e \<equiv> \<lparr>is_level = l, is_code = c, is_nodeId = None, is_edge = Some e\<rparr>"

text \<open>The conditional \<open>issues.push\<close>.\<close>

definition push_if :: "bool \<Rightarrow> ValidationIssue \<Rightarrow> vstate \<Rightarrow> vstate" where
  "push_if b i st = (if b then st\<lparr>vs_issues := vs_issues st @ [i]\<rparr> else st)"

section \<open>References in node values\<close>

fun secret_scope_str :: "secret_scope \<Rightarrow> string" where
  "secret_scope_str SS_tenant = ''tenant''"
| "secret_scope_str SS_environment = ''environment''"
| "secret_scope_str SS_global = ''global''"
| "secret_scope_str SS_tenant_provider = ''tenant_provider''"
| "secret_scope_str SS_datasource = ''datasource''"

fun provider_kind_str :: "SecretProviderKind \<Rightarrow> string" where
  "provider_kind_str SP_database_encrypted = ''database_encrypted''"
| "provider_kind_str SP_environment = ''environment''"
| "provider_kind_str SP_kubernetes_secret = ''kubernetes_secret''"
| "provider_kind_str SP_vault = ''vault''"
| "provider_kind_str SP_aws_secrets_manager = ''aws_secrets_manager''"

fun opt_json :: "string option \<Rightarrow> json" where
  "opt_json None = JUndef"
| "opt_json (Some s) = JStr s"

text \<open>A secret reference as the object it is, its fields in the order of the interface.\<close>

definition secret_ref_json :: "SecretRef \<Rightarrow> json" where
  "secret_ref_json r = JObj [
     (''provider'', opt_json (map_option provider_kind_str (sr_provider r))),
     (''scope'', JStr (secret_scope_str (sr_scope r))),
     (''tenantId'', opt_json (sr_tenantId r)),
     (''environment'', opt_json (sr_environment r)),
     (''key'', JStr (sr_key r)),
     (''version'', opt_json (sr_version r))]"

definition node_values :: "PipelineNode \<Rightarrow> string" where
  "node_values n = nullish (stringify None (JObj [
     (''config'', JObj (nullish (n_config n) [])),
     (''secrets'', JObj (map (\<lambda>(k, r). (k, secret_ref_json r)) (nullish (n_secrets n) [])))])) []"

text \<open>
  \<open>matchAll(/\$\{prefix\.([^}]+)\}/g)\<close>: the captured texts, scanning from left to right and
  going on after each match.
\<close>

function match_refs :: "string \<Rightarrow> string \<Rightarrow> string list" where
  "match_refs prefix [] = []"
| "match_refs prefix (c # cs) =
     (if starts_with prefix (c # cs) then
        (let rest = drop (length prefix) (c # cs);
             body = takeWhile (\<lambda>x. x \<noteq> CHR ''}'') rest;
             after = dropWhile (\<lambda>x. x \<noteq> CHR ''}'') rest in
         if body \<noteq> [] \<and> after \<noteq> [] then body # match_refs prefix (tl after)
         else match_refs prefix cs)
      else match_refs prefix cs)"
  by pat_completeness auto
termination
proof (relation "measure (length \<circ> snd)", goal_cases)
  case (2 prefix c cs rest body after)
  have "length after \<le> length rest" using 2(4) by (simp add: length_dropWhile_le)
  moreover have "length rest \<le> length (c # cs)" using 2(2) by simp
  moreover have "after \<noteq> []" using 2(5) by simp
  ultimately show ?case by (cases after) auto
qed simp_all

definition collectRefs :: "PipelineNode \<Rightarrow> vstate \<Rightarrow> vstate" where
  "collectRefs n st = st\<lparr>
     vs_requiredConfig := fold set_add (match_refs ''${config.'' (node_values n)) (vs_requiredConfig st),
     vs_requiredSecrets := fold set_add (match_refs ''${secret.'' (node_values n)) (vs_requiredSecrets st)\<rparr>"

section \<open>Nodes\<close>

definition STORAGE_CATEGORIES :: "PluginCategory list" where
  "STORAGE_CATEGORIES = [Cat_vector_store, Cat_retriever, Cat_sink, Cat_loader]"

definition isStorageCategory :: "PluginCategory option \<Rightarrow> bool" where
  "isStorageCategory category = (case category of None \<Rightarrow> False | Some c \<Rightarrow> c \<in> set STORAGE_CATEGORIES)"

text \<open>\<open>registry?.get(ref)?.manifest\<close>\<close>

definition manifest_of :: "PluginRegistry option \<Rightarrow> PluginRef \<Rightarrow> PluginManifest option" where
  "manifest_of reg ref = (case reg of None \<Rightarrow> None
     | Some r \<Rightarrow> map_option rp_manifest (get_plugin r ref))"

text \<open>\<open>dataset?.slug\<close>, when it is not empty.\<close>

definition dataset_slug :: "PipelineNode \<Rightarrow> string option" where
  "dataset_slug n = (case n_dataset n of None \<Rightarrow> None
     | Some d \<Rightarrow> if dr_slug d = [] then None else Some (dr_slug d))"

record BindingRequire =
  br_binding :: string
  br_kindOneOf :: "string list option"

definition require_of :: "BindingRequirement \<Rightarrow> BindingRequire list" where
  "require_of r = (case nullish_opt (rq_binding r) (rq_modality r) of
      None \<Rightarrow> []
    | Some b \<Rightarrow> if b = [] then [] else
        [\<lparr>br_binding = b, br_kindOneOf =
           (case rq_kindOneOf r of Some ks \<Rightarrow> Some ks
            | None \<Rightarrow> if str_truthy (rq_kind r) then Some [the (rq_kind r)]
                     else if str_truthy (rq_provider r) then Some [the (rq_provider r)]
                     else None)\<rparr>])"

definition binding_requires :: "PluginManifest option \<Rightarrow> BindingRequire list" where
  "binding_requires m = (case m of None \<Rightarrow> []
     | Some m \<Rightarrow> map (\<lambda>b. \<lparr>br_binding = b, br_kindOneOf = None\<rparr>) (nullish (pm_datasetModalities m) [])
         @ concat (map require_of (nullish (pm_requires m) [])))"

definition check_require ::
  "PipelineNode \<Rightarrow> (string \<times> string option) list \<Rightarrow> BindingRequire \<Rightarrow> vstate \<Rightarrow> vstate" where
  "check_require n bindings req st = (case map_of bindings (br_binding req) of
      None \<Rightarrow> push_if True (node_issue Dataset_binding_missing n) st
    | Some kind \<Rightarrow>
        (case br_kindOneOf req of
           None \<Rightarrow> st
         | Some ks \<Rightarrow> if ks = [] then st else
             push_if (str_truthy kind \<and> the kind \<notin> set ks) (node_issue Dataset_binding_kind_mismatch n) st))"

definition check_dataset ::
  "PluginRegistry option \<Rightarrow> DatasetBindingIndex option \<Rightarrow> PipelineNode \<Rightarrow> string \<Rightarrow> vstate \<Rightarrow> vstate" where
  "check_dataset reg idx n slug st =
     (let st1 = st\<lparr>vs_datasetSlots := vs_datasetSlots st @
                 [\<lparr>sl_nodeId = n_id n, sl_slug = slug,
                   sl_alias = nullish (Option.bind (n_dataset n) dr_alias) ''stable''\<rparr>]\<rparr> in
      case (n_plugin n, idx) of
        (Some ref, Some index) \<Rightarrow>
          (case index slug of None \<Rightarrow> st1
           | Some bindings \<Rightarrow> fold (check_require n bindings) (binding_requires (manifest_of reg ref)) st1)
      | _ \<Rightarrow> st1)"

definition needs_dataset :: "PluginRegistry option \<Rightarrow> PipelineNode \<Rightarrow> bool" where
  "needs_dataset reg n = (case n_plugin n of None \<Rightarrow> False
     | Some ref \<Rightarrow> isStorageCategory (Some (pr_category ref)) \<and> dataset_slug n = None \<and>
         2 \<le> nullish (Option.bind (manifest_of reg ref) pm_contract) 1)"

definition unregistered :: "PluginRegistry option \<Rightarrow> PipelineNode \<Rightarrow> bool" where
  "unregistered reg n = (case (n_plugin n, reg) of
      (Some ref, Some r) \<Rightarrow> get_plugin r ref = None
    | _ \<Rightarrow> False)"

definition validate_node ::
  "PluginRegistry option \<Rightarrow> DatasetBindingIndex option \<Rightarrow> PipelineNode \<Rightarrow> vstate \<Rightarrow> vstate" where
  "validate_node reg idx n st =
     (let st1 = push_if (n_id n \<in> set (vs_nodeIds st)) (node_issue Duplicate_node n) st;
          st2 = st1\<lparr>vs_nodeIds := set_add (n_id n) (vs_nodeIds st1)\<rparr>;
          st3 = push_if (n_type n = None \<and> n_plugin n = None) (node_issue Missing_plugin n) st2;
          st4 = (if unregistered reg n
                 then push_if True (node_issue Missing_plugin_ref n)
                        (st3\<lparr>vs_missingPlugins := vs_missingPlugins st3 @ [the (n_plugin n)]\<rparr>)
                 else st3);
          st5 = push_if (needs_dataset reg n) (node_issue Missing_required_dataset n) st4;
          st6 = (case dataset_slug n of None \<Rightarrow> st5 | Some slug \<Rightarrow> check_dataset reg idx n slug st5)
      in collectRefs n st6)"

section \<open>Edges\<close>

text \<open>\<open>new Map(nodes.map(node => [node.id, node]))\<close>: the last node of an id wins.\<close>

definition node_by_id :: "PipelineNode list \<Rightarrow> string \<Rightarrow> PipelineNode option" where
  "node_by_id nodes = map_of (rev (map (\<lambda>n. (n_id n, n)) nodes))"

definition unknown_port ::
  "PluginRegistry \<Rightarrow> PipelineNode option \<Rightarrow> (PluginManifest \<Rightarrow> PortDef list option) \<Rightarrow> string option \<Rightarrow> bool" where
  "unknown_port r node ports port =
     (case (Option.bind node n_plugin, port) of
        (Some ref, Some p) \<Rightarrow> p \<noteq> [] \<and>
          (case Option.bind (get_plugin r ref) (\<lambda>pl. ports (rp_manifest pl)) of
             None \<Rightarrow> False
           | Some ps \<Rightarrow> \<not> list_ex (\<lambda>d. port_name d = p) ps)
      | _ \<Rightarrow> False)"

definition validate_edge ::
  "PluginRegistry option \<Rightarrow> PipelineNode list \<Rightarrow> PipelineEdge \<Rightarrow> vstate \<Rightarrow> vstate" where
  "validate_edge reg nodes e st =
     (let st1 = push_if (e_from e \<notin> set (vs_nodeIds st)) (edge_issue Lvl_error Missing_edge_source e) st;
          st2 = push_if (e_to e \<notin> set (vs_nodeIds st)) (edge_issue Lvl_error Missing_edge_target e) st1;
          st3 = st2\<lparr>vs_adjacency := add_edge e (vs_adjacency st2)\<rparr>
      in case reg of
           None \<Rightarrow> st3
         | Some r \<Rightarrow>
             (let st4 = push_if (unknown_port r (node_by_id nodes (e_from e)) pm_outputPorts (e_fromPort e))
                          (edge_issue Lvl_warning Unknown_output_port e) st3
              in push_if (unknown_port r (node_by_id nodes (e_to e)) pm_inputPorts (e_toPort e))
                   (edge_issue Lvl_warning Unknown_input_port e) st4))"

section \<open>The validator\<close>

text \<open>Number of node ids whose first node has the given type.\<close>

definition type_count :: "PipelineNode list \<Rightarrow> string list \<Rightarrow> node_type \<Rightarrow> nat" where
  "type_count nodes ids t = length (filter (\<lambda>i.
     (case find (\<lambda>n. n_id n = i) nodes of None \<Rightarrow> False | Some n \<Rightarrow> n_type n = Some t)) ids)"

definition validate_run ::
  "PipelineSpec \<Rightarrow> PluginRegistry option \<Rightarrow> DatasetBindingIndex option \<Rightarrow> vstate" where
  "validate_run spec reg idx =
     (let st1 = push_if (ps_apiVersion spec \<noteq> ''rag-platform/v1'') (error_issue Invalid_api_version) vstate0;
          st2 = push_if (ps_kind spec \<noteq> ''Pipeline'') (error_issue Invalid_kind) st1;
          st3 = push_if (ps_name spec = []) (error_issue Missing_name) st2;
          st4 = fold (validate_node reg idx) (ps_nodes spec) st3;
          st5 = fold (validate_edge reg (ps_nodes spec)) (ps_edges spec) st4;
          st6 = push_if (findCycle (vs_adjacency st5) \<noteq> None) (error_issue Cycle_detected) st5;
          st7 = push_if (type_count (ps_nodes spec) (vs_nodeIds st6) NT_input = 0) (warning_issue No_input_node) st6
      in push_if (type_count (ps_nodes spec) (vs_nodeIds st7) NT_output = 0) (warning_issue No_output_node) st7)"

definition validatePipelineSpec ::
  "PipelineSpec \<Rightarrow> PluginRegistry option \<Rightarrow> DatasetBindingIndex option \<Rightarrow> PipelineValidationResult" where
  "validatePipelineSpec spec reg idx =
     (let st = validate_run spec reg idx in
      \<lparr>pv_valid = list_all (\<lambda>i. is_level i \<noteq> Lvl_error) (vs_issues st),
       pv_errors = filter (\<lambda>i. is_level i = Lvl_error) (vs_issues st),
       pv_warnings = filter (\<lambda>i. is_level i = Lvl_warning) (vs_issues st),
       pv_requiredSecrets = vs_requiredSecrets st,
       pv_requiredConfig = vs_requiredConfig st,
       pv_missingPlugins = vs_missingPlugins st,
       pv_datasetSlots = vs_datasetSlots st\<rparr>)"

section \<open>What a valid specification is\<close>

definition requirement_met :: "(string \<times> string option) list \<Rightarrow> BindingRequire \<Rightarrow> bool" where
  "requirement_met bindings req \<longleftrightarrow>
     (\<exists>kind. map_of bindings (br_binding req) = Some kind \<and>
        (\<forall>ks k. br_kindOneOf req = Some ks \<and> ks \<noteq> [] \<and> kind = Some k \<and> k \<noteq> [] \<longrightarrow> k \<in> set ks))"

definition node_wf :: "PluginRegistry option \<Rightarrow> DatasetBindingIndex option \<Rightarrow> PipelineNode \<Rightarrow> bool" where
  "node_wf reg idx n \<longleftrightarrow>
     (n_type n \<noteq> None \<or> n_plugin n \<noteq> None) \<and>
     (\<forall>ref r. n_plugin n = Some ref \<and> reg = Some r \<longrightarrow> get_plugin r ref \<noteq> None) \<and>
     (\<forall>ref m c. n_plugin n = Some ref \<and> pr_category ref \<in> set STORAGE_CATEGORIES \<and>
        manifest_of reg ref = Some m \<and> pm_contract m = Some c \<and> 2 \<le> c \<longrightarrow> dataset_slug n \<noteq> None) \<and>
     (\<forall>ref slug index bindings. n_plugin n = Some ref \<and> dataset_slug n = Some slug \<and> idx = Some index \<and>
        index slug = Some bindings \<longrightarrow>
        (\<forall>req \<in> set (binding_requires (manifest_of reg ref)). requirement_met bindings req))"

definition well_formed_spec :: "PipelineSpec \<Rightarrow> PluginRegistry option \<Rightarrow> DatasetBindingIndex option \<Rightarrow> bool" where
  "well_formed_spec spec reg idx \<longleftrightarrow>
     ps_apiVersion spec = ''rag-platform/v1'' \<and> ps_kind spec = ''Pipeline'' \<and> ps_name spec \<noteq> [] \<and>
     distinct (map n_id (ps_nodes spec)) \<and>
     (\<forall>n \<in> set (ps_nodes spec). node_wf reg idx n) \<and>
     (\<forall>e \<in> set (ps_edges spec). e_from e \<in> n_id ` set (ps_nodes spec) \<and> e_to e \<in> n_id ` set (ps_nodes spec)) \<and>
     acyclic {(e_from e, e_to e) | e. e \<in> set (ps_edges spec)}"

section \<open>Lemmas\<close>

definition clean :: "vstate \<Rightarrow> bool" where
  "clean st \<longleftrightarrow> (\<forall>i \<in> set (vs_issues st). is_level i \<noteq> Lvl_error)"

lemma push_if_fields [simp]:
  "vs_nodeIds (push_if b i st) = vs_nodeIds st"
  "vs_adjacency (push_if b i st) = vs_adjacency st"
  "vs_requiredConfig (push_if b i st) = vs_requiredConfig st"
  "vs_requiredSecrets (push_if b i st) = vs_requiredSecrets st"
  by (simp_all add: push_if_def)

lemma clean_push_if [simp]: "clean (push_if b i st) \<longleftrightarrow> clean st \<and> (b \<longrightarrow> is_level i \<noteq> Lvl_error)"
  by (auto simp: push_if_def clean_def)

lemma clean_updates [simp]:
  "clean (st\<lparr>vs_nodeIds := a\<rparr>) = clean st" "clean (st\<lparr>vs_missingPlugins := b\<rparr>) = clean st"
  "clean (st\<lparr>vs_datasetSlots := c\<rparr>) = clean st" "clean (st\<lparr>vs_adjacency := d\<rparr>) = clean st"
  "clean (collectRefs n st) = clean st"
  by (simp_all add: clean_def collectRefs_def)

lemma collectRefs_fields [simp]:
  "vs_nodeIds (collectRefs n st) = vs_nodeIds st" "vs_adjacency (collectRefs n st) = vs_adjacency st"
  "vs_requiredConfig (collectRefs n st) = fold set_add (match_refs ''${config.'' (node_values n)) (vs_requiredConfig st)"
  by (simp_all add: collectRefs_def)

lemma check_require_fields [simp]:
  "vs_nodeIds (check_require n b req st) = vs_nodeIds st"
  "vs_adjacency (check_require n b req st) = vs_adjacency st"
  "vs_requiredConfig (check_require n b req st) = vs_requiredConfig st"
  by (simp_all add: check_require_def split: option.splits)

lemma fold_check_require_fields [simp]:
  "vs_nodeIds (fold (check_require n b) reqs st) = vs_nodeIds st"
  "vs_adjacency (fold (check_require n b) reqs st) = vs_adjacency st"
  "vs_requiredConfig (fold (check_require n b) reqs st) = vs_requiredConfig st"
  by (induction reqs arbitrary: st) simp_all

lemma check_dataset_fields [simp]:
  "vs_nodeIds (check_dataset reg idx n slug st) = vs_nodeIds st"
  "vs_adjacency (check_dataset reg idx n slug st) = vs_adjacency st"
  "vs_requiredConfig (check_dataset reg idx n slug st) = vs_requiredConfig st"
  by (simp_all add: check_dataset_def Let_def split: option.splits)

lemma clean_check_require: "clean (check_require n b req st) \<longleftrightarrow> clean st \<and> requirement_met b req"
  by (auto simp: check_require_def requirement_met_def str_truthy_iff split: option.splits)

lemma clean_fold_check_require:
  "clean (fold (check_require n b) reqs st) \<longleftrightarrow> clean st \<and> (\<forall>req \<in> set reqs. requirement_met b req)"
  by (induction reqs arbitrary: st) (auto simp: clean_check_require)

lemma clean_check_dataset:
  "clean (check_dataset reg idx n slug st) \<longleftrightarrow> clean st \<and>
     (\<forall>ref index bindings. n_plugin n = Some ref \<and> idx = Some index \<and> index slug = Some bindings \<longrightarrow>
        (\<forall>req \<in> set (binding_requires (manifest_of reg ref)). requirement_met bindings req))"
  by (auto simp: check_dataset_def Let_def clean_fold_check_require split: option.splits)

lemma needs_dataset_iff:
  "needs_dataset reg n \<longleftrightarrow> (\<exists>ref m c. n_plugin n = Some ref \<and> pr_category ref \<in> set STORAGE_CATEGORIES \<and>
     dataset_slug n = None \<and> manifest_of reg ref = Some m \<and> pm_contract m = Some c \<and> 2 \<le> c)"
proof (cases "n_plugin n")
  case (Some ref)
  show ?thesis
  proof (cases "manifest_of reg ref")
    case (Some m)
    with \<open>n_plugin n = Some ref\<close> show ?thesis
      by (cases "pm_contract m") (auto simp: needs_dataset_def isStorageCategory_def)
  qed (simp add: needs_dataset_def Some)
qed (simp add: needs_dataset_def)

lemma validate_node_fields [simp]:
  "set (vs_nodeIds (validate_node reg idx n st)) = insert (n_id n) (set (vs_nodeIds st))"
  "vs_adjacency (validate_node reg idx n st) = vs_adjacency st"
  "vs_requiredConfig (validate_node reg idx n st) =
     fold set_add (match_refs ''${config.'' (node_values n)) (vs_requiredConfig st)"
  by (simp_all add: validate_node_def Let_def split: option.splits)

lemma clean_validate_node:
  "clean (validate_node reg idx n st) \<longleftrightarrow> clean st \<and> n_id n \<notin> set (vs_nodeIds st) \<and> node_wf reg idx n"
proof -
  have u: "unregistered reg n \<longleftrightarrow> (\<exists>ref r. n_plugin n = Some ref \<and> reg = Some r \<and> get_plugin r ref = None)"
    by (auto simp: unregistered_def split: option.splits)
  show ?thesis
  proof (cases "dataset_slug n")
    case None
    then show ?thesis
      unfolding node_wf_def by (simp add: validate_node_def Let_def u needs_dataset_iff) blast
  next
    case (Some slug)
    then show ?thesis
      unfolding node_wf_def by (simp add: validate_node_def Let_def u needs_dataset_iff clean_check_dataset)
  qed
qed

lemma fold_validate_node:
  "clean (fold (validate_node reg idx) ns st) \<longleftrightarrow>
     clean st \<and> distinct (map n_id ns) \<and> set (map n_id ns) \<inter> set (vs_nodeIds st) = {} \<and>
     (\<forall>n \<in> set ns. node_wf reg idx n)"
  "set (vs_nodeIds (fold (validate_node reg idx) ns st)) = n_id ` set ns \<union> set (vs_nodeIds st)"
  "vs_adjacency (fold (validate_node reg idx) ns st) = vs_adjacency st"
  by (induction ns arbitrary: st) (auto simp: clean_validate_node)

lemma validate_edge_fields [simp]:
  "vs_nodeIds (validate_edge reg nodes e st) = vs_nodeIds st"
  "vs_adjacency (validate_edge reg nodes e st) = add_edge e (vs_adjacency st)"
  "vs_requiredConfig (validate_edge reg nodes e st) = vs_requiredConfig st"
  by (simp_all add: validate_edge_def Let_def split: option.splits)

lemma clean_validate_edge:
  "clean (validate_edge reg nodes e st) \<longleftrightarrow>
     clean st \<and> e_from e \<in> set (vs_nodeIds st) \<and> e_to e \<in> set (vs_nodeIds st)"
  by (auto simp: validate_edge_def Let_def split: option.splits)

lemma fold_validate_edge:
  "clean (fold (validate_edge reg nodes) es st) \<longleftrightarrow>
     clean st \<and> (\<forall>e \<in> set es. e_from e \<in> set (vs_nodeIds st) \<and> e_to e \<in> set (vs_nodeIds st))"
  "vs_nodeIds (fold (validate_edge reg nodes) es st) = vs_nodeIds st"
  "vs_adjacency (fold (validate_edge reg nodes) es st) = fold add_edge es (vs_adjacency st)"
  "vs_requiredConfig (fold (validate_edge reg nodes) es st) = vs_requiredConfig st"
  by (induction es arbitrary: st) (auto simp: clean_validate_edge)

lemma validate_run_clean:
  "clean (validate_run spec reg idx) \<longleftrightarrow> well_formed_spec spec reg idx"
proof -
  have "clean vstate0" "vs_nodeIds vstate0 = []" "vs_adjacency vstate0 = []"
    by (simp_all add: clean_def vstate0_def)
  then show ?thesis
    unfolding validate_run_def Let_def well_formed_spec_def
    by (auto simp: fold_validate_node fold_validate_edge findCycle_None_iff
        simp flip: adjacency_of_def)
qed

lemma valid_iff_clean: "pv_valid (validatePipelineSpec spec reg idx) \<longleftrightarrow> clean (validate_run spec reg idx)"
  by (simp add: validatePipelineSpec_def Let_def clean_def list_all_iff)

lemma valid_iff_errors: "pv_valid (validatePipelineSpec spec reg idx) \<longleftrightarrow> pv_errors (validatePipelineSpec spec reg idx) = []"
  by (auto simp: validatePipelineSpec_def Let_def list_all_iff filter_empty_conv)

lemma valid_wellformed:
  "pv_valid (validatePipelineSpec spec reg idx) \<Longrightarrow> well_formed_spec spec reg idx"
  using valid_iff_clean validate_run_clean by blast

text \<open>
  C35: the validator accepts exactly the well-formed specifications: right api version and
  kind, a name, distinct node ids, every node with a type or a plugin, every plugin registered,
  a dataset on every storage node of the dataset-aware contract, every binding a plugin
  requires declared with an acceptable connection kind, edges between existing nodes, and no
  cycle.  It accepts exactly when it reports no error.
\<close>

theorem validate_valid_iff:
  "(pv_valid (validatePipelineSpec spec reg idx) \<longleftrightarrow> well_formed_spec spec reg idx) \<and>
   (pv_valid (validatePipelineSpec spec reg idx) \<longleftrightarrow> pv_errors (validatePipelineSpec spec reg idx) = [])"
  using valid_iff_clean validate_run_clean valid_iff_errors by blast

subsection \<open>Required configuration\<close>

lemma match_refs_sound:
  "k \<in> set (match_refs p s) \<Longrightarrow> k \<noteq> [] \<and> CHR ''}'' \<notin> set k \<and> (\<exists>a b. s = a @ p @ k @ ''}'' @ b)"
proof (induction p s rule: match_refs.induct)
  case (2 p c cs)
  let ?rest = "drop (length p) (c # cs)"
  let ?body = "takeWhile (\<lambda>x. x \<noteq> CHR ''}'') ?rest" and ?after = "dropWhile (\<lambda>x. x \<noteq> CHR ''}'') ?rest"
  show ?case
  proof (cases "starts_with p (c # cs) \<and> ?body \<noteq> [] \<and> ?after \<noteq> []")
    case False
    with "2.prems" have k: "k \<in> set (match_refs p cs)" by (auto simp: Let_def split: if_splits)
    have "k \<noteq> [] \<and> CHR ''}'' \<notin> set k \<and> (\<exists>a b. cs = a @ p @ k @ ''}'' @ b)"
    proof (cases "starts_with p (c # cs)")
      case True
      show ?thesis by (rule "2.IH"(2) [OF True refl refl refl _ k]) (use False True in blast)
    next
      case np: False
      show ?thesis by (rule "2.IH"(3) [OF np k])
    qed
    then show ?thesis by (metis append_Cons)
  next
    case True
    then have "?after = ''}'' @ tl ?after"
      using hd_dropWhile [of "\<lambda>x. x \<noteq> CHR ''}''" ?rest] by (cases ?after) auto
    then have "?rest = ?body @ ''}'' @ tl ?after" using takeWhile_dropWhile_id by metis
    moreover have "c # cs = p @ ?rest"
      using True unfolding starts_with_def by (metis append_take_drop_id)
    ultimately have s: "c # cs = p @ ?body @ ''}'' @ tl ?after" by simp
    from True "2.prems" have "k = ?body \<or> k \<in> set (match_refs p (tl ?after))"
      by (auto simp: Let_def split: if_splits)
    then show ?thesis
    proof
      assume "k = ?body"
      moreover have "CHR ''}'' \<notin> set ?body" by (auto dest: set_takeWhileD)
      ultimately show ?thesis using True s by (metis append_Nil)
    next
      assume k: "k \<in> set (match_refs p (tl ?after))"
      have "k \<noteq> [] \<and> CHR ''}'' \<notin> set k \<and> (\<exists>a b. tl ?after = a @ p @ k @ ''}'' @ b)"
        by (rule "2.IH"(1) [OF _ refl refl refl _ k]) (use True in blast)+
      with s show ?thesis by (metis append.assoc)
    qed
  qed
qed simp

lemma fold_validate_node_config:
  "vs_requiredConfig (fold (validate_node reg idx) ns st) =
     fold set_add (concat (map (\<lambda>n. match_refs ''${config.'' (node_values n)) ns)) (vs_requiredConfig st)"
  by (induction ns arbitrary: st) simp_all

text \<open>
  The required configuration keys the validator reports are exactly those that occur as a
  reference in the values of some node, each once, and none is empty.
\<close>

theorem requiredConfig_exact:
  "set (pv_requiredConfig (validatePipelineSpec spec reg idx)) =
     (\<Union>n \<in> set (ps_nodes spec). set (match_refs ''${config.'' (node_values n))) \<and>
   distinct (pv_requiredConfig (validatePipelineSpec spec reg idx)) \<and>
   set (pv_requiredConfig (validatePipelineSpec spec reg idx)) \<subseteq>
     {k. k \<noteq> [] \<and> (\<exists>n a b. n \<in> set (ps_nodes spec) \<and> node_values n = a @ ''${config.'' @ k @ ''}'' @ b)}"
proof -
  have eq: "pv_requiredConfig (validatePipelineSpec spec reg idx) =
      fold set_add (concat (map (\<lambda>n. match_refs ''${config.'' (node_values n)) (ps_nodes spec))) []"
    by (simp add: validatePipelineSpec_def validate_run_def Let_def fold_validate_edge
        fold_validate_node_config vstate0_def)
  show ?thesis
    unfolding eq using match_refs_sound by fastforce
qed

end
