(* ===== verification/Execution_Store.thy ===== *)
theory Execution_Store
  imports Plugin_Registry Spec_Validator
begin

text \<open>
  Data of the runtime (\<open>packages/runtime/src/index.ts\<close>, \<open>packages/plugin-sdk/src/index.ts\<close>,
  \<open>packages/core/src/index.ts\<close>): the execution context, the errors a run can end with,
  resolved datasets and connections, what a plugin receives and returns, and the records of
  the execution store with its in-memory implementation and the in-memory ingest state
  repository.  Times of day and latencies are left out of the records.  The lemmas show that
  the completing operations of the store keep one record per key, and that ingest state of one
  tenant, pipeline and key is never touched through another.
\<close>

section \<open>Context and errors\<close>

record auth_resource =
  ar_tenantId :: string
  ar_environment :: string
  ar_pipelineId :: "string option"

record RuntimeContext =
  cx_requestId :: string
  cx_executionId :: string
  cx_tenantId :: string
  cx_pipelineId :: string
  cx_pipelineVersionId :: string
  cx_environment :: string
  cx_actorId :: "string option"
  cx_resolvedConfig :: ResolvedConfig
  cx_deadline :: "nat option"
  cx_parentExecutionId :: "string option"
  cx_principalAuthorize :: "(string \<Rightarrow> auth_resource \<Rightarrow> bool) option"

text \<open>
  What a run throws.  \<open>Other_error\<close> is an error raised by code outside the runtime (a
  plugin, the secret provider, a resolver), with its message; \<open>Type_error\<close> is the
  language's own error for a node that does not exist; \<open>Undefined_thrown\<close> is
  \<open>throw undefined\<close>.
\<close>

datatype run_error =
    Validation_failed "ValidationIssue list"
  | DeadlineExceededError
  | CancelledError string
  | NodeOutputTooLargeError string nat nat
  | DatasetNotBuiltError string
  | Missing_plugin_error string
  | Lacks_connection_use string string
  | Not_executable string
  | Principal_denied
  | Denied_by_platform_plugin string
  | Force_failed string
  | Other_error string
  | Type_error
  | Undefined_thrown

fun isAbortError :: "run_error \<Rightarrow> bool" where
  "isAbortError DeadlineExceededError = True"
| "isAbortError (CancelledError _) = True"
| "isAbortError _ = False"

section \<open>Resolved connections and datasets\<close>

datatype cascade_reason = By_global | By_tenant | By_environment

record ResolvedExternalConnection =
  rx_id :: string
  rx_slug :: string
  rx_kind :: string
  rx_secret :: "string option"
  rx_options :: "(string \<times> json) list"
  rx_cascadeReason :: cascade_reason

text \<open>\<open>NS_other\<close> is a stored value that passed the cast to the policy type unchecked.\<close>

datatype DatasetNamespacePolicy = NS_shared | NS_by_tenant | NS_by_tenant_env | NS_by_env | NS_other string

record ResolvedDatasetBinding =
  rb_connectionSlug :: "string option"
  rb_connectionKind :: "string option"
  rb_connectionHost :: "string option"
  rb_connectionPort :: "jsnum option"
  rb_connectionUrl :: "string option"
  rb_connectionScheme :: "string option"
  rb_collection :: "string option"
  rb_namespace :: "DatasetNamespacePolicy option"
  rb_cascadeReason :: "cascade_reason option"
  rb_connection :: "ResolvedExternalConnection option"

datatype data_scope = DS_global | DS_tenant | DS_environment

datatype version_status = V_building | V_ready | V_archived

record ResolvedDataset =
  rd_id :: string
  rd_slug :: string
  rd_scope :: data_scope
  rd_tenantId :: "string option"
  rd_environmentId :: "string option"
  rd_embeddingProfile :: json
  rd_chunkSchema :: json
  rd_versionId :: string
  rd_versionLabel :: string
  rd_versionStatus :: version_status
  rd_bindings :: "(string \<times> ResolvedDatasetBinding) list"

record refresh_grant =
  rg_url :: string
  rg_token :: string
  rg_expiresAt :: "string option"

record ExternalCredential =
  xc_value :: "string option"
  xc_headers :: "(string \<times> string) list option"
  xc_query :: "(string \<times> string) list option"
  xc_expiresAt :: "string option"
  xc_options :: "(string \<times> json) list option"

record MaterializedExternalCredential =
  mc_credential :: ExternalCredential
  mc_refreshContext :: "(string \<times> json) list option"

record ExternalConnectionEnvelope =
  en_slug :: string
  en_kind :: string
  en_options :: "(string \<times> json) list"
  en_credential :: "ExternalCredential option"
  en_refresh :: "refresh_grant option"

section \<open>Plugin calls\<close>

record PluginExecutionInput =
  pi_context :: RuntimeContext
  pi_node :: PipelineNode
  pi_inputs :: "(string \<times> json) list"
  pi_config :: "(string \<times> json) list"
  pi_secrets :: "(string \<times> string) list"
  pi_dataset :: "ResolvedDataset option"
  pi_connection :: "ResolvedExternalConnection option"
  pi_externalConnection :: "ExternalConnectionEnvelope option"

record plugin_usage =
  pu_provider :: "string option"
  pu_model :: "string option"
  pu_inputTokens :: "jsnum option"
  pu_outputTokens :: "jsnum option"
  pu_embeddingTokens :: "jsnum option"
  pu_estimatedCostUsd :: "jsnum option"

record PluginExecutionOutput =
  po_outputs :: "(string \<times> json) list"
  po_usage :: "plugin_usage option"

section \<open>Records of the execution store\<close>

datatype execution_status = X_running | X_succeeded | X_failed | X_cancelled | X_denied

record ExecutionRecord =
  xr_executionId :: string
  xr_tenantId :: string
  xr_pipelineId :: string
  xr_pipelineVersionId :: string
  xr_environment :: string
  xr_status :: execution_status
  xr_input :: json
  xr_output :: json
  xr_error :: "run_error option"
  xr_actorId :: "string option"
  xr_parentExecutionId :: "string option"

datatype node_status = N_running | N_succeeded | N_failed | N_skipped

record ExecutionNodeRecord =
  nr_executionId :: string
  nr_nodeId :: string
  nr_status :: node_status
  nr_input :: json
  nr_output :: json
  nr_error :: "run_error option"

record RuntimeExecutionSummary =
  sm_nodesTotal :: nat
  sm_nodesCompleted :: nat
  sm_nodesSkipped :: nat
  sm_noWorkDone :: bool
  sm_reason :: "string option"

datatype step_source = Src_node_output | Src_emit

record ExecutionStepRecord =
  er_frameId :: string
  er_executionId :: string
  er_nodeId :: string
  er_channel :: string
  er_source :: step_source
  er_seq :: nat
  er_data :: json

record UsageRecord =
  us_tenantId :: string
  us_pipelineId :: string
  us_executionId :: string
  us_usage :: plugin_usage
  us_success :: bool

record InMemoryExecutionStore =
  st_executions :: "ExecutionRecord list"
  st_nodes :: "ExecutionNodeRecord list"
  st_usage :: "UsageRecord list"
  st_steps :: "ExecutionStepRecord list"

definition empty_store :: InMemoryExecutionStore where
  "empty_store = \<lparr>st_executions = [], st_nodes = [], st_usage = [], st_steps = []\<rparr>"

text \<open>Filter out the entries of a key, then push: the shape of the completing operations.\<close>

definition replace_by :: "('v \<Rightarrow> 'k) \<Rightarrow> 'v \<Rightarrow> 'v list \<Rightarrow> 'v list" where
  "replace_by key v vs = filter (\<lambda>w. key w \<noteq> key v) vs @ [v]"

definition store_start :: "ExecutionRecord \<Rightarrow> InMemoryExecutionStore \<Rightarrow> InMemoryExecutionStore" where
  "store_start r s = s\<lparr>st_executions := st_executions s @ [r]\<rparr>"

definition store_complete :: "ExecutionRecord \<Rightarrow> InMemoryExecutionStore \<Rightarrow> InMemoryExecutionStore" where
  "store_complete r s = s\<lparr>st_executions := replace_by xr_executionId r (st_executions s)\<rparr>"

definition store_startNode :: "ExecutionNodeRecord \<Rightarrow> InMemoryExecutionStore \<Rightarrow> InMemoryExecutionStore" where
  "store_startNode r s = s\<lparr>st_nodes := st_nodes s @ [r]\<rparr>"

definition node_key :: "ExecutionNodeRecord \<Rightarrow> string \<times> string" where
  "node_key r = (nr_executionId r, nr_nodeId r)"

definition store_completeNode :: "ExecutionNodeRecord \<Rightarrow> InMemoryExecutionStore \<Rightarrow> InMemoryExecutionStore" where
  "store_completeNode r s = s\<lparr>st_nodes := replace_by node_key r (st_nodes s)\<rparr>"

definition store_recordUsage :: "UsageRecord \<Rightarrow> InMemoryExecutionStore \<Rightarrow> InMemoryExecutionStore" where
  "store_recordUsage r s = s\<lparr>st_usage := st_usage s @ [r]\<rparr>"

definition store_recordStep :: "ExecutionStepRecord \<Rightarrow> InMemoryExecutionStore \<Rightarrow> InMemoryExecutionStore" where
  "store_recordStep r s = s\<lparr>st_steps := replace_by er_frameId r (st_steps s)\<rparr>"

lemmas store_defs = store_start_def store_complete_def store_startNode_def store_completeNode_def
  store_recordUsage_def store_recordStep_def

section \<open>One record per key\<close>

lemma set_replace_by: "set (replace_by key v vs) = insert v {w \<in> set vs. key w \<noteq> key v}"
  by (auto simp: replace_by_def)

lemma distinct_replace_by: "distinct (map key vs) \<Longrightarrow> distinct (map key (replace_by key v vs))"
  by (auto simp: replace_by_def distinct_map_filter)

lemma find_replace_by:
  "find (\<lambda>w. key w = k) (replace_by key v vs) = (if k = key v then Some v else find (\<lambda>w. key w = k) vs)"
  by (induction vs) (auto simp: replace_by_def)

lemma find_key_iff:
  "distinct (map key vs) \<Longrightarrow> v \<in> set vs \<longleftrightarrow> find (\<lambda>w. key w = key v) vs = Some v"
  by (induction vs) (auto simp: image_iff)

lemma keyed_store_replace_by:
  "keyed_store (replace_by key) (\<lambda>vs k. find (\<lambda>w. key w = k) vs) (\<lambda>vs. vs) key (\<lambda>vs. distinct (map key vs))"
  by unfold_locales (simp_all add: find_replace_by distinct_replace_by find_key_iff)

interpretation execution_rows: keyed_store "replace_by xr_executionId"
    "\<lambda>vs k. find (\<lambda>w. xr_executionId w = k) vs" "\<lambda>vs. vs" xr_executionId
    "\<lambda>vs. distinct (map xr_executionId vs)"
  by (rule keyed_store_replace_by)

interpretation node_rows: keyed_store "replace_by node_key" "\<lambda>vs k. find (\<lambda>w. node_key w = k) vs"
    "\<lambda>vs. vs" node_key "\<lambda>vs. distinct (map node_key vs)"
  by (rule keyed_store_replace_by)

interpretation step_rows: keyed_store "replace_by er_frameId" "\<lambda>vs k. find (\<lambda>w. er_frameId w = k) vs"
    "\<lambda>vs. vs" er_frameId "\<lambda>vs. distinct (map er_frameId vs)"
  by (rule keyed_store_replace_by)

text \<open>Recording the same frame again changes nothing but its position.\<close>

lemma store_recordStep_idem: "store_recordStep r (store_recordStep r s) = store_recordStep r s"
  by (simp add: store_recordStep_def replace_by_def)

section \<open>Ingest state\<close>

record IngestStateEntry =
  ie_docId :: string
  ie_sha256 :: "string option"
  ie_mtime :: "string option"
  ie_lastSeen :: string

type_synonym IngestStateRepository = "(string, IngestStateEntry list) jsmap"

text \<open>The three parts of a key are separated by the character zero.\<close>

definition ingest_key :: "string \<Rightarrow> string \<Rightarrow> string \<Rightarrow> string" where
  "ingest_key tenantId pipelineId stateKey =
     tenantId @ [CHR 0x00] @ pipelineId @ [CHR 0x00] @ stateKey"

definition ingest_list :: "IngestStateRepository \<Rightarrow> string \<Rightarrow> string \<Rightarrow> string \<Rightarrow> IngestStateEntry list" where
  "ingest_list repo tenantId pipelineId stateKey = nullish (map_of repo (ingest_key tenantId pipelineId stateKey)) []"

definition ingest_replaceAll ::
  "string \<Rightarrow> string \<Rightarrow> string \<Rightarrow> IngestStateEntry list \<Rightarrow> IngestStateRepository \<Rightarrow> IngestStateRepository" where
  "ingest_replaceAll tenantId pipelineId stateKey entries repo =
     AList.update (ingest_key tenantId pipelineId stateKey) entries repo"

text \<open>The store handed to a plugin: tenant and pipeline come from the running context.\<close>

definition scoped_list :: "RuntimeContext \<Rightarrow> IngestStateRepository \<Rightarrow> string \<Rightarrow> IngestStateEntry list" where
  "scoped_list ctx repo stateKey = ingest_list repo (cx_tenantId ctx) (cx_pipelineId ctx) stateKey"

definition scoped_replaceAll ::
  "RuntimeContext \<Rightarrow> string \<Rightarrow> IngestStateEntry list \<Rightarrow> IngestStateRepository \<Rightarrow> IngestStateRepository" where
  "scoped_replaceAll ctx stateKey entries repo =
     ingest_replaceAll (cx_tenantId ctx) (cx_pipelineId ctx) stateKey entries repo"

lemma ingest_key_inject:
  assumes "CHR 0x00 \<notin> set t" "CHR 0x00 \<notin> set p" "CHR 0x00 \<notin> set t'" "CHR 0x00 \<notin> set p'"
  shows "ingest_key t p k = ingest_key t' p' k' \<longleftrightarrow> t = t' \<and> p = p' \<and> k = k'"
proof
  assume eq: "ingest_key t p k = ingest_key t' p' k'"
  have split: "split_on (CHR 0x00) (ingest_key a b c) = a # b # split_on (CHR 0x00) c"
    if "CHR 0x00 \<notin> set a" "CHR 0x00 \<notin> set b" for a b c
    using that by (simp add: ingest_key_def split_on_append)
  from eq split [OF assms(1,2), of k] split [OF assms(3,4), of k']
  have "t = t'" "p = p'" "split_on (CHR 0x00) k = split_on (CHR 0x00) k'" by auto
  then show "t = t' \<and> p = p' \<and> k = k'" by (metis js_join_split_on)
qed simp

text \<open>
  a plugin reads back what it stored under a state key, and neither another tenant nor
  another pipeline nor another key is affected, as long as tenant and pipeline ids hold no zero
  character (which ids from the database cannot).
\<close>

theorem ingest_state_isolated:
  assumes "CHR 0x00 \<notin> set (cx_tenantId c)" "CHR 0x00 \<notin> set (cx_pipelineId c)"
    "CHR 0x00 \<notin> set (cx_tenantId d)" "CHR 0x00 \<notin> set (cx_pipelineId d)"
  shows "scoped_list d (scoped_replaceAll c k es repo) l =
    (if cx_tenantId d = cx_tenantId c \<and> cx_pipelineId d = cx_pipelineId c \<and> l = k then es
     else scoped_list d repo l)"
  using ingest_key_inject [OF assms(3,4,1,2), of l k]
  by (simp add: scoped_list_def scoped_replaceAll_def ingest_list_def ingest_replaceAll_def)

definition ex_resolved_config :: ResolvedConfig where
  "ex_resolved_config = \<lparr>rc_pipelineId = ''p'', rc_pipelineVersionId = None, rc_tenantId = ''t'',
     rc_environment = ''dev'', rc_values = [], rc_violations = []\<rparr>"

definition ex_context :: "string \<Rightarrow> RuntimeContext" where
  "ex_context tenant = \<lparr>cx_requestId = ''r'', cx_executionId = ''x1'', cx_tenantId = tenant, cx_pipelineId = ''p'',
     cx_pipelineVersionId = ''v'', cx_environment = ''dev'', cx_actorId = None, cx_resolvedConfig = ex_resolved_config,
     cx_deadline = None, cx_parentExecutionId = None, cx_principalAuthorize = None\<rparr>"

theorem ingest_state_isolated_witness:
  "scoped_list (ex_context ''t2'') (scoped_replaceAll (ex_context ''t1'') ''k''
     [\<lparr>ie_docId = ''d'', ie_sha256 = None, ie_mtime = None, ie_lastSeen = ''now''\<rparr>] []) ''k'' = []"
  using ingest_state_isolated [of "ex_context ''t1''" "ex_context ''t2''" "''k''" _ "[]" "''k''"]
  by (simp add: ex_context_def scoped_list_def ingest_list_def)

end
