(* ===== verification/Node_Execution.thy ===== *)
theory Node_Execution
  imports Execution_Store
begin

text \<open>
  Execution of one node (\<open>executeNode\<close> and its helpers in
  \<open>packages/runtime/src/index.ts\<close>): edge liveness, the input bag, configuration templates,
  the dataset shim, secrets, the external connection envelope, retries, step frames and the
  node records.  What plugins, the secret provider and the resolvers return, the readings of
  the clock and of the abort signal and the random ids are parameters.  Frames emitted by a
  plugin are returned by it together with its result.
\<close>

type_synonym obj = "(string \<times> json) list"

section \<open>Parameters and state\<close>

text \<open>The pipeline-level bindings: an id with an optional dataset and an optional connection.\<close>

type_synonym bindings = "(string, string option \<times> string option) jsmap"

text \<open>
  The points at which the runtime reads the clock and the abort signal.  \<open>wd_overwritten i\<close> are the bindings a nested
  run (\<open>runSubgraph\<close>, started by the plugin of a node that runs at the same time) has left in the field
  \<open>currentBindings\<close> when the node \<open>i\<close> reads it, \<open>None\<close> when it still holds those of the pipeline.
\<close>

datatype check_point = At_start | Before_node string | At_attempt string nat

record world =
  wd_now :: "check_point \<Rightarrow> nat"
  wd_aborted :: "check_point \<Rightarrow> string option"
  wd_uuid :: "nat \<Rightarrow> string"
  wd_schedule :: "nat \<Rightarrow> string list \<Rightarrow> string list"
  wd_overwritten :: "string \<Rightarrow> bindings option"

datatype start_verdict = Start_deny string | Start_input obj | Start_nothing
datatype finish_verdict = Finish_fail string | Finish_output obj | Finish_nothing

record CredentialMaterializationContext =
  cm_nodeId :: string
  cm_config :: obj
  cm_inputs :: obj

record DagExecutorOptions =
  op_registry :: PluginRegistry
  op_getSecret :: "SecretRef \<Rightarrow> string \<Rightarrow> run_error + string"
  op_execute :: "RegisteredPlugin \<Rightarrow> PluginExecutionInput \<Rightarrow> nat \<Rightarrow>
    (string \<times> json) list \<times> (run_error + PluginExecutionOutput)"
  op_datasetResolver :: "(dataset_ref \<Rightarrow> RuntimeContext \<Rightarrow> run_error + ResolvedDataset option) option"
  op_connectionResolver :: "(string \<Rightarrow> RuntimeContext \<Rightarrow> run_error + ResolvedExternalConnection option) option"
  op_materialize :: "(ResolvedExternalConnection \<Rightarrow> RuntimeContext \<Rightarrow> CredentialMaterializationContext \<Rightarrow>
    run_error + MaterializedExternalCredential option) option"
  op_issueGrant :: "(RuntimeContext \<Rightarrow> string \<Rightarrow> string \<Rightarrow> obj option \<Rightarrow> run_error + refresh_grant option) option"
  op_onStart :: "(RuntimeContext \<Rightarrow> obj \<Rightarrow> run_error + start_verdict) option"
  op_onFinish :: "(RuntimeContext \<Rightarrow> obj \<Rightarrow> run_error + finish_verdict) option"
  op_maxRetries :: "int option"
  op_redactNodePayloads :: "bool option"
  op_maxNodeOutputDocs :: "nat option"

record rt_state =
  rs_store :: InMemoryExecutionStore
  rs_stepSeq :: "(string, nat) jsmap"
  rs_draws :: nat

definition redact :: "DagExecutorOptions \<Rightarrow> json \<Rightarrow> json" where
  "redact opts v = (if op_redactNodePayloads opts = Some False then v else redactValue v)"

definition checkAborted :: "world \<Rightarrow> RuntimeContext \<Rightarrow> check_point \<Rightarrow> run_error option" where
  "checkAborted wd ctx pt =
     (if (case cx_deadline ctx of None \<Rightarrow> False | Some d \<Rightarrow> wd_now wd pt > d) then Some DeadlineExceededError
      else map_option CancelledError (wd_aborted wd pt))"

section \<open>Edges and inputs\<close>

definition port_value :: "obj \<Rightarrow> string \<Rightarrow> json option" where
  "port_value bag p = (case obj_get bag p of JUndef \<Rightarrow> None | v \<Rightarrow> Some v)"

definition isEdgeLive :: "PipelineEdge \<Rightarrow> (string, obj) jsmap \<Rightarrow> string list \<Rightarrow> bool" where
  "isEdgeLive e outputs skipped =
     (if e_from e \<in> set skipped then False
      else case map_of outputs (e_from e) of
             None \<Rightarrow> False
           | Some src \<Rightarrow> if \<not> str_truthy (e_fromPort e) then True
               else obj_get src (the (e_fromPort e)) \<noteq> JUndef)"

text \<open>One round of the loop over the incoming edges: the three layers in their order.\<close>

definition add_edge_input :: "(string, obj) jsmap \<Rightarrow> PipelineEdge \<Rightarrow> obj \<Rightarrow> obj" where
  "add_edge_input outputs e result = (case map_of outputs (e_from e) of
      None \<Rightarrow> result
    | Some src \<Rightarrow>
        (let r1 = (if str_truthy (e_fromPort e) then result
                   else fold (\<lambda>(k, v) r. if v \<noteq> JUndef then obj_set k v r else r) src result);
             r2 = obj_set (e_from e) (JObj src) r1 in
         if str_truthy (e_fromPort e) \<and> str_truthy (e_toPort e) then
           (case port_value src (the (e_fromPort e)) of None \<Rightarrow> r2 | Some v \<Rightarrow> obj_set (the (e_toPort e)) v r2)
         else if str_truthy (e_fromPort e) then
           (case port_value src (the (e_fromPort e)) of None \<Rightarrow> r2 | Some v \<Rightarrow> obj_set (the (e_fromPort e)) v r2)
         else if str_truthy (e_toPort e) then obj_set (the (e_toPort e)) (JObj src) r2
         else r2))"

definition buildNodeInputs :: "PipelineEdge list \<Rightarrow> (string, obj) jsmap \<Rightarrow> obj \<Rightarrow> obj" where
  "buildNodeInputs es outputs initialInput =
     (if es = [] then initialInput else fold (add_edge_input outputs) es [])"

definition largestCollectionSize :: "obj \<Rightarrow> nat" where
  "largestCollectionSize outputs = fold (\<lambda>(k, v) m.
     (case v of JArr vs \<Rightarrow> if length vs > m then length vs else m | _ \<Rightarrow> m)) outputs 0"

section \<open>Templates and the dataset shim\<close>

text \<open>\<open>/^\$\{config\.([^}]+)\}$/\<close>\<close>

definition config_ref :: "string \<Rightarrow> string option" where
  "config_ref s =
     (let rest = drop 9 s; key = butlast rest in
      if starts_with ''${config.'' s \<and> rest \<noteq> [] \<and> last rest = CHR ''}'' \<and> key \<noteq> [] \<and> CHR ''}'' \<notin> set key
      then Some key else None)"

definition config_value :: "RuntimeContext \<Rightarrow> string \<Rightarrow> json" where
  "config_value ctx k = (case map_of (rc_values (cx_resolvedConfig ctx)) k of
      None \<Rightarrow> JUndef | Some r \<Rightarrow> rv_value r)"

fun resolveTemplate :: "RuntimeContext \<Rightarrow> json \<Rightarrow> json"
  and resolve_elems :: "RuntimeContext \<Rightarrow> json list \<Rightarrow> json list"
  and resolve_fields :: "RuntimeContext \<Rightarrow> (string \<times> json) list \<Rightarrow> (string \<times> json) list"
where
  "resolveTemplate ctx (JStr s) = (case config_ref s of Some k \<Rightarrow> config_value ctx k | None \<Rightarrow> JStr s)"
| "resolveTemplate ctx (JArr vs) = JArr (resolve_elems ctx vs)"
| "resolveTemplate ctx (JObj kvs) = JObj (resolve_fields ctx kvs)"
| "resolveTemplate ctx JUndef = JUndef"
| "resolveTemplate ctx JNull = JNull"
| "resolveTemplate ctx (JBool b) = JBool b"
| "resolveTemplate ctx (JNum n) = JNum n"
| "resolve_elems ctx [] = []"
| "resolve_elems ctx (v # vs) = resolveTemplate ctx v # resolve_elems ctx vs"
| "resolve_fields ctx [] = []"
| "resolve_fields ctx ((k, v) # kvs) = (k, resolveTemplate ctx v) # resolve_fields ctx kvs"

definition resolveNodeTemplateValues :: "obj \<Rightarrow> RuntimeContext \<Rightarrow> obj" where
  "resolveNodeTemplateValues config ctx = map (\<lambda>(k, v). (k, resolveTemplate ctx v)) config"

definition binding_collection :: "ResolvedDataset \<Rightarrow> string \<Rightarrow> string option" where
  "binding_collection d name = Option.bind (map_of (rd_bindings d) name) rb_collection"

definition splice :: "string \<Rightarrow> string option \<Rightarrow> obj \<Rightarrow> obj" where
  "splice k v config = (if str_truthy v \<and> obj_get config k = JUndef then obj_set k (JStr (the v)) config else config)"

definition applyDatasetShim :: "int \<Rightarrow> obj \<Rightarrow> ResolvedDataset option \<Rightarrow> obj" where
  "applyDatasetShim contract config resolved = (case resolved of
      None \<Rightarrow> config
    | Some d \<Rightarrow> if contract = 2 then config else
        (let vec = nullish_opt (binding_collection d ''vectors'') (binding_collection d ''vector'');
             kw = nullish_opt (binding_collection d ''text'') (binding_collection d ''keyword'')
         in splice ''index'' kw (splice ''collection'' vec config)))"

section \<open>Secrets\<close>

fun explicit_secrets ::
  "(SecretRef \<Rightarrow> string \<Rightarrow> run_error + string) \<Rightarrow> string \<Rightarrow> (string \<times> SecretRef) list \<Rightarrow> (string \<times> string) list \<Rightarrow>
   run_error + (string \<times> string) list" where
  "explicit_secrets get tenant [] acc = Inr acc"
| "explicit_secrets get tenant ((name, ref) # refs) acc = (case get ref tenant of
      Inl e \<Rightarrow> Inl e
    | Inr v \<Rightarrow> explicit_secrets get tenant refs (obj_set name v acc))"

definition connection_key :: "string \<Rightarrow> string" where
  "connection_key name = ''__connection_'' @ name @ ''__''"

definition tenant_secret_ref :: "string \<Rightarrow> string \<Rightarrow> SecretRef" where
  "tenant_secret_ref tenant k = \<lparr>sr_provider = None, sr_scope = SS_tenant, sr_tenantId = Some tenant,
     sr_environment = None, sr_key = k, sr_version = None\<rparr>"

definition splice_connection ::
  "(SecretRef \<Rightarrow> string \<Rightarrow> run_error + string) \<Rightarrow> string \<Rightarrow> string \<times> ResolvedDatasetBinding \<Rightarrow>
   (string \<times> string) list \<Rightarrow> (string \<times> string) list" where
  "splice_connection get tenant = (\<lambda>(name, b) acc. case rb_connection b of
      None \<Rightarrow> acc
    | Some conn \<Rightarrow> if rx_secret conn \<noteq> None then acc
        else if connection_key name \<in> fst ` set acc then acc
        else (case get (tenant_secret_ref tenant (rx_id conn)) tenant of
                Inl e \<Rightarrow> acc
              | Inr v \<Rightarrow> obj_set (connection_key name) v acc))"

definition resolveNodeSecrets ::
  "(SecretRef \<Rightarrow> string \<Rightarrow> run_error + string) \<Rightarrow> (string \<times> SecretRef) list \<Rightarrow> RuntimeContext \<Rightarrow> ResolvedDataset option \<Rightarrow>
   run_error + (string \<times> string) list" where
  "resolveNodeSecrets get refs ctx dataset = (case explicit_secrets get (cx_tenantId ctx) refs [] of
      Inl e \<Rightarrow> Inl e
    | Inr acc \<Rightarrow> (case dataset of
        None \<Rightarrow> Inr acc
      | Some d \<Rightarrow> Inr (fold (splice_connection get (cx_tenantId ctx)) (rd_bindings d) acc)))"

section \<open>Retries\<close>

text \<open>
  \<open>withRetries\<close>: the operation takes the number of the attempt and the state; \<open>left\<close> is
  the number of attempts left and \<open>lastError\<close> the error of the last one.  The pauses between
  attempts are not modelled.
\<close>

fun attempts ::
  "(nat \<Rightarrow> 's \<Rightarrow> (run_error + 'a) \<times> 's) \<Rightarrow> (run_error \<Rightarrow> bool) \<Rightarrow> nat \<Rightarrow> nat \<Rightarrow> run_error \<Rightarrow> 's \<Rightarrow> (run_error + 'a) \<times> 's" where
  "attempts operation shouldRetry attempt 0 lastError s = (Inl lastError, s)"
| "attempts operation shouldRetry attempt (Suc left) lastError s = (case operation attempt s of
      (Inr v, s') \<Rightarrow> (Inr v, s')
    | (Inl e, s') \<Rightarrow> if \<not> shouldRetry e then (Inl e, s')
        else attempts operation shouldRetry (Suc attempt) left e s')"

definition withRetries ::
  "(nat \<Rightarrow> 's \<Rightarrow> (run_error + 'a) \<times> 's) \<Rightarrow> int \<Rightarrow> (run_error \<Rightarrow> bool) \<Rightarrow> 's \<Rightarrow> (run_error + 'a) \<times> 's" where
  "withRetries operation retries shouldRetry s =
     attempts operation shouldRetry 0 (nat (retries + 1)) Undefined_thrown s"

section \<open>Step frames\<close>

text \<open>\<open>emitStep\<close>: number, redact and persist one frame; the in-memory store takes every frame.\<close>

definition frame_data :: "json \<Rightarrow> json" where
  "frame_data v = (case v of JObj kvs \<Rightarrow> v | _ \<Rightarrow> JObj [(''value'', v)])"

definition emitStep ::
  "DagExecutorOptions \<Rightarrow> world \<Rightarrow> RuntimeContext \<Rightarrow> string \<Rightarrow> string \<Rightarrow> step_source \<Rightarrow> json \<Rightarrow> rt_state \<Rightarrow> rt_state" where
  "emitStep opts wd ctx nodeId channel source data rt =
     (let seq = nullish (map_of (rs_stepSeq rt) (cx_executionId ctx)) 0 + 1;
          frame = \<lparr>er_frameId = wd_uuid wd (rs_draws rt), er_executionId = cx_executionId ctx, er_nodeId = nodeId,
            er_channel = (if channel = [] then nodeId else channel), er_source = source, er_seq = seq,
            er_data = frame_data (redact opts data)\<rparr>
      in rt\<lparr>rs_stepSeq := AList.update (cx_executionId ctx) seq (rs_stepSeq rt),
            rs_draws := rs_draws rt + 1,
            rs_store := store_recordStep frame (rs_store rt)\<rparr>)"

definition emit_all ::
  "DagExecutorOptions \<Rightarrow> world \<Rightarrow> RuntimeContext \<Rightarrow> string \<Rightarrow> (string \<times> json) list \<Rightarrow> rt_state \<Rightarrow> rt_state" where
  "emit_all opts wd ctx nodeId = fold (\<lambda>(channel, data). emitStep opts wd ctx nodeId channel Src_emit data)"

section \<open>External connections\<close>

definition buildExternalConnectionEnvelope ::
  "DagExecutorOptions \<Rightarrow> RuntimeContext \<Rightarrow> string \<Rightarrow> ResolvedExternalConnection \<Rightarrow> obj \<Rightarrow> obj \<Rightarrow>
   run_error + ExternalConnectionEnvelope" where
  "buildExternalConnectionEnvelope opts ctx nodeId conn config inputs =
     (case (case op_materialize opts of None \<Rightarrow> Inr None
            | Some f \<Rightarrow> f conn ctx \<lparr>cm_nodeId = nodeId, cm_config = config, cm_inputs = inputs\<rparr>) of
        Inl e \<Rightarrow> Inl e
      | Inr materialized \<Rightarrow>
          (let credential = nullish_opt (map_option mc_credential materialized)
                 (map_option (\<lambda>s. \<lparr>xc_value = Some s, xc_headers = None, xc_query = None, xc_expiresAt = None,
                    xc_options = None\<rparr>) (rx_secret conn)) in
           case (case (materialized, op_issueGrant opts) of
                   (Some m, Some issue) \<Rightarrow> issue ctx nodeId (rx_slug conn) (mc_refreshContext m)
                 | _ \<Rightarrow> Inr None) of
             Inl e \<Rightarrow> Inl e
           | Inr refresh \<Rightarrow> Inr \<lparr>en_slug = rx_slug conn, en_kind = rx_kind conn, en_options = rx_options conn,
               en_credential = credential, en_refresh = refresh\<rparr>))"

section \<open>One node\<close>

definition effective_refs :: "bindings \<Rightarrow> PipelineNode \<Rightarrow> dataset_ref option \<times> string option" where
  "effective_refs bs n =
     (if \<not> str_truthy (n_binding n) then (n_dataset n, n_connection n)
      else (case map_of bs (the (n_binding n)) of
              None \<Rightarrow> (n_dataset n, n_connection n)
            | Some (dataset, connection) \<Rightarrow>
                if str_truthy dataset then (Some \<lparr>dr_slug = the dataset, dr_alias = None\<rparr>, None)
                else if str_truthy connection then (None, connection)
                else (n_dataset n, n_connection n)))"

text \<open>Only \<open>DatasetNotBuiltError\<close> passes; any other failure leaves the dataset unresolved.\<close>

definition resolve_dataset ::
  "DagExecutorOptions \<Rightarrow> RuntimeContext \<Rightarrow> dataset_ref option \<Rightarrow> run_error + ResolvedDataset option" where
  "resolve_dataset opts ctx ref = (case (ref, op_datasetResolver opts) of
      (Some r, Some resolver) \<Rightarrow> (case resolver r ctx of
          Inl (DatasetNotBuiltError slug) \<Rightarrow> Inl (DatasetNotBuiltError slug)
        | Inl e \<Rightarrow> Inr None
        | Inr d \<Rightarrow> Inr d)
    | _ \<Rightarrow> Inr None)"

definition resolve_connection ::
  "DagExecutorOptions \<Rightarrow> RuntimeContext \<Rightarrow> string option \<Rightarrow> ResolvedExternalConnection option" where
  "resolve_connection opts ctx slug = (case op_connectionResolver opts of
      None \<Rightarrow> None
    | Some resolver \<Rightarrow> if \<not> str_truthy slug then None
        else (case resolver (the slug) ctx of Inl e \<Rightarrow> None | Inr c \<Rightarrow> c))"

definition may_use_connection :: "RuntimeContext \<Rightarrow> bool" where
  "may_use_connection ctx = (case cx_principalAuthorize ctx of None \<Rightarrow> True
     | Some authorize \<Rightarrow> authorize ''connection:use''
         \<lparr>ar_tenantId = cx_tenantId ctx, ar_environment = cx_environment ctx, ar_pipelineId = None\<rparr>)"

text \<open>Everything before the retried call: the plugin, its input without secrets, the dataset.\<close>

definition prepare_call ::
  "DagExecutorOptions \<Rightarrow> RuntimeContext \<Rightarrow> bindings \<Rightarrow> PipelineNode \<Rightarrow> PluginRef \<Rightarrow> obj \<Rightarrow>
   run_error + (RegisteredPlugin \<times> PluginExecutionInput \<times> ResolvedDataset option)" where
  "prepare_call opts ctx bs n ref inputs = (case require_plugin (op_registry opts) ref of
      Inl (MissingPluginError k) \<Rightarrow> Inl (Missing_plugin_error k)
    | Inr plugin \<Rightarrow> (case resolve_dataset opts ctx (fst (effective_refs bs n)) of
          Inl e \<Rightarrow> Inl e
        | Inr resolved \<Rightarrow>
            (let conn = resolve_connection opts ctx (snd (effective_refs bs n));
                 contract = nullish (pm_contract (rp_manifest plugin)) 1;
                 config = applyDatasetShim contract (resolveNodeTemplateValues (nullish (n_config n) []) ctx) resolved
             in if conn \<noteq> None \<and> \<not> may_use_connection ctx
                then Inl (Lacks_connection_use (n_id n) (rx_slug (the conn)))
                else (case (if rp_mode plugin = External \<and> conn \<noteq> None
                            then map_sum id Some (buildExternalConnectionEnvelope opts ctx (n_id n) (the conn) config inputs)
                            else Inr None) of
                        Inl e \<Rightarrow> Inl e
                      | Inr envelope \<Rightarrow> Inr (plugin,
                          \<lparr>pi_context = ctx, pi_node = n, pi_inputs = inputs, pi_config = config, pi_secrets = [],
                           pi_dataset = (if contract = 2 then resolved else None),
                           pi_connection = (if contract = 2 then conn else None),
                           pi_externalConnection = envelope\<rparr>, resolved)))))"

definition attempt_call ::
  "DagExecutorOptions \<Rightarrow> world \<Rightarrow> RuntimeContext \<Rightarrow> PipelineNode \<Rightarrow> RegisteredPlugin \<times> PluginExecutionInput \<times> ResolvedDataset option \<Rightarrow>
   nat \<Rightarrow> rt_state \<Rightarrow> (run_error + PluginExecutionOutput) \<times> rt_state" where
  "attempt_call opts wd ctx n = (\<lambda>(plugin, input, resolved) attempt rt.
     case checkAborted wd ctx (At_attempt (n_id n) attempt) of
       Some e \<Rightarrow> (Inl e, rt)
     | None \<Rightarrow> (case resolveNodeSecrets (op_getSecret opts) (nullish (n_secrets n) []) ctx resolved of
         Inl e \<Rightarrow> (Inl e, rt)
       | Inr secrets \<Rightarrow> (case op_execute opts plugin (input\<lparr>pi_secrets := secrets\<rparr>) attempt of
           (frames, result) \<Rightarrow> (result, emit_all opts wd ctx (n_id n) frames rt))))"

text \<open>The output of a node before the size guard.\<close>

definition node_output ::
  "DagExecutorOptions \<Rightarrow> world \<Rightarrow> RuntimeContext \<Rightarrow> bindings \<Rightarrow> PipelineNode \<Rightarrow> obj \<Rightarrow> rt_state \<Rightarrow>
   (run_error + PluginExecutionOutput) \<times> rt_state" where
  "node_output opts wd ctx bs n inputs rt =
     (if n_type n = Some NT_input then
        (let defaults = (case obj_get (nullish (n_config n) []) ''default'' of JObj d \<Rightarrow> d | _ \<Rightarrow> []) in
         (Inr \<lparr>po_outputs = obj_merge defaults inputs, po_usage = None\<rparr>, rt))
      else if n_type n = Some NT_output then (Inr \<lparr>po_outputs = inputs, po_usage = None\<rparr>, rt)
      else (case n_plugin n of
          None \<Rightarrow> (Inl (Not_executable (n_id n)), rt)
        | Some ref \<Rightarrow> (case prepare_call opts ctx bs n ref inputs of
              Inl e \<Rightarrow> (Inl e, rt)
            | Inr call \<Rightarrow> withRetries (attempt_call opts wd ctx n call) (nullish (op_maxRetries opts) 1)
                (\<lambda>e. \<not> isAbortError e) rt)))"

definition size_guard :: "DagExecutorOptions \<Rightarrow> string \<Rightarrow> run_error + PluginExecutionOutput \<Rightarrow> run_error + PluginExecutionOutput" where
  "size_guard opts nodeId result = (case result of Inl e \<Rightarrow> Inl e
    | Inr out \<Rightarrow> (let limit = nullish (op_maxNodeOutputDocs opts) 0; docs = largestCollectionSize (po_outputs out) in
        if limit > 0 \<and> docs > limit then Inl (NodeOutputTooLargeError nodeId docs limit) else Inr out))"

definition upd_store :: "(InMemoryExecutionStore \<Rightarrow> InMemoryExecutionStore) \<Rightarrow> rt_state \<Rightarrow> rt_state" where
  "upd_store f rt = rt\<lparr>rs_store := f (rs_store rt)\<rparr>"

abbreviation node_record :: "RuntimeContext \<Rightarrow> string \<Rightarrow> node_status \<Rightarrow> json \<Rightarrow> json \<Rightarrow> run_error option \<Rightarrow> ExecutionNodeRecord" where
  "node_record ctx nodeId status input out err \<equiv> \<lparr>nr_executionId = cx_executionId ctx, nr_nodeId = nodeId,
     nr_status = status, nr_input = input, nr_output = out, nr_error = err\<rparr>"

definition usage_record :: "RuntimeContext \<Rightarrow> plugin_usage \<Rightarrow> UsageRecord" where
  "usage_record ctx u = \<lparr>us_tenantId = cx_tenantId ctx, us_pipelineId = cx_pipelineId ctx,
     us_executionId = cx_executionId ctx, us_usage = u, us_success = True\<rparr>"

definition executeNode ::
  "DagExecutorOptions \<Rightarrow> world \<Rightarrow> RuntimeContext \<Rightarrow> bindings \<Rightarrow> PipelineNode \<Rightarrow> obj \<Rightarrow> rt_state \<Rightarrow>
   (run_error + PluginExecutionOutput) \<times> rt_state" where
  "executeNode opts wd ctx bs n inputs rt =
     (let rt1 = upd_store (store_startNode (node_record ctx (n_id n) N_running (redact opts (JObj inputs)) JUndef None)) rt in
      case node_output opts wd ctx bs n inputs rt1 of (result, rt2) \<Rightarrow>
      (case size_guard opts (n_id n) result of
         Inl e \<Rightarrow> (Inl e, upd_store (store_completeNode (node_record ctx (n_id n) N_failed JUndef JUndef (Some e))) rt2)
       | Inr out \<Rightarrow>
           (let rt3 = upd_store (store_completeNode (node_record ctx (n_id n) N_succeeded JUndef
                        (redact opts (JObj (po_outputs out))) None)) rt2;
                rt4 = (case po_usage out of None \<Rightarrow> rt3
                       | Some u \<Rightarrow> upd_store (store_recordUsage (usage_record ctx u)) rt3);
                rt5 = (if n_stream n
                       then emitStep opts wd ctx (n_id n) (nullish (n_streamAs n) (n_id n)) Src_node_output
                              (JObj (po_outputs out)) rt4
                       else rt4)
            in (Inr out, rt5))))"

definition markSkipped :: "RuntimeContext \<Rightarrow> PipelineNode \<Rightarrow> rt_state \<Rightarrow> rt_state" where
  "markSkipped ctx n rt =
     upd_store (store_completeNode (node_record ctx (n_id n) N_skipped JUndef JUndef None))
       (upd_store (store_startNode (node_record ctx (n_id n) N_skipped JUndef JUndef None)) rt)"

section \<open>Lemmas on retries\<close>

fun state_before :: "(nat \<Rightarrow> 's \<Rightarrow> 'r \<times> 's) \<Rightarrow> nat \<Rightarrow> nat \<Rightarrow> 's \<Rightarrow> 's" where
  "state_before operation first 0 s = s"
| "state_before operation first (Suc k) s = state_before operation (Suc first) k (snd (operation first s))"

lemma attempts_first_final:
  "\<exists>k \<le> left. attempts operation shouldRetry a (Suc left) l s = operation (a + k) (state_before operation a k s) \<and>
     (\<forall>j < k. \<exists>e. fst (operation (a + j) (state_before operation a j s)) = Inl e \<and> shouldRetry e) \<and>
     (k = left \<or> (\<exists>v. fst (operation (a + k) (state_before operation a k s)) = Inr v) \<or>
        (\<exists>e. fst (operation (a + k) (state_before operation a k s)) = Inl e \<and> \<not> shouldRetry e))"
proof (induction left arbitrary: a l s)
  case 0
  obtain r s' where o: "operation a s = (r, s')" by fastforce
  then show ?case by (cases r) auto
next
  case (Suc left)
  obtain r s' where o: "operation a s = (r, s')" by fastforce
  show ?case
  proof (cases "\<exists>e. r = Inl e \<and> shouldRetry e")
    case False
    with o show ?thesis by (intro exI [of _ 0]) (cases r; auto)
  next
    case True
    then obtain e where e: "r = Inl e" "shouldRetry e" by blast
    from Suc.IH [of "Suc a" e s'] obtain k where k: "k \<le> left"
      "attempts operation shouldRetry (Suc a) (Suc left) e s' = operation (Suc a + k) (state_before operation (Suc a) k s')"
      "\<forall>j < k. \<exists>e. fst (operation (Suc a + j) (state_before operation (Suc a) j s')) = Inl e \<and> shouldRetry e"
      "k = left \<or> (\<exists>v. fst (operation (Suc a + k) (state_before operation (Suc a) k s')) = Inr v) \<or>
        (\<exists>e. fst (operation (Suc a + k) (state_before operation (Suc a) k s')) = Inl e \<and> \<not> shouldRetry e)"
      by blast
    have "\<exists>e. fst (operation (a + j) (state_before operation a j s)) = Inl e \<and> shouldRetry e" if "j < Suc k" for j
      using that k(3) o e by (cases j) auto
    moreover have "attempts operation shouldRetry a (Suc (Suc left)) l s =
        operation (a + Suc k) (state_before operation a (Suc k) s)"
      using k(2) o e by (simp del: attempts.simps(2) add: attempts.simps(2) [of _ _ a])
    ultimately show ?thesis
      using k(1,4) o by (intro exI [of _ "Suc k"]) simp
  qed
qed

lemma attempts_keeps:
  "(\<And>a s. f (snd (operation a s)) = f s) \<Longrightarrow> f (snd (attempts operation shouldRetry a left l s)) = f s"
proof (induction left arbitrary: a l s)
  case (Suc left)
  obtain r s' where o: "operation a s = (r, s')" by fastforce
  with Suc.prems [of a s] have "f s' = f s" by simp
  with Suc o show ?case by (cases r) auto
qed simp

lemma attempts_invariant:
  "(\<And>a s. P s \<Longrightarrow> P (snd (operation a s))) \<Longrightarrow> P s \<Longrightarrow> P (snd (attempts operation shouldRetry a left l s))"
proof (induction left arbitrary: a l s)
  case (Suc left)
  obtain r s' where o: "operation a s = (r, s')" by fastforce
  with Suc.prems(1) [OF Suc.prems(2), of a] have "P s'" by simp
  with Suc o show ?case by (cases r) auto
qed simp

lemma attempts_result:
  "(\<And>a s t. fst (operation a s) = fst (operation a t)) \<Longrightarrow>
     fst (attempts operation shouldRetry a left l s) = fst (attempts operation shouldRetry a left l t)"
proof (induction left arbitrary: a l s t)
  case (Suc left)
  obtain r s' t' where o: "operation a s = (r, s')" "operation a t = (r, t')"
    using Suc.prems [of a s t] by (metis prod.collapse)
  with Suc show ?case by (cases r) auto
qed simp

text \<open>
  C37: retrying an operation runs it at most \<open>retries + 1\<close> times, the state of each attempt
  being handed to the next, and returns what attempt \<open>k\<close> returns, where all attempts
  before failed with an error that may be retried, and \<open>k\<close> succeeds, fails with an error
  that must not be retried, or is the last one allowed.
\<close>

theorem withRetries_first_final:
  assumes "0 \<le> retries"
  shows "\<exists>k \<le> nat retries. withRetries operation retries shouldRetry s = operation k (state_before operation 0 k s) \<and>
     (\<forall>j < k. \<exists>e. fst (operation j (state_before operation 0 j s)) = Inl e \<and> shouldRetry e) \<and>
     (k = nat retries \<or> (\<exists>v. fst (operation k (state_before operation 0 k s)) = Inr v) \<or>
        (\<exists>e. fst (operation k (state_before operation 0 k s)) = Inl e \<and> \<not> shouldRetry e))"
proof -
  have "nat (retries + 1) = Suc (nat retries)" using assms by simp
  then show ?thesis
    using attempts_first_final [of "nat retries" operation shouldRetry 0 Undefined_thrown s]
    by (simp add: withRetries_def)
qed

definition ex_operation :: "nat \<Rightarrow> nat \<Rightarrow> (run_error + nat) \<times> nat" where
  "ex_operation a n = (if a < 2 then Inl (Other_error ''again'') else Inl DeadlineExceededError, n + 1)"

theorem withRetries_first_final_witness:
  "\<exists>k \<le> 5. withRetries ex_operation 5 (\<lambda>e. \<not> isAbortError e) 0 = ex_operation k (state_before ex_operation 0 k 0)"
  using withRetries_first_final [of 5 ex_operation "\<lambda>e. \<not> isAbortError e" 0] by auto

section \<open>The dataset shim\<close>

lemma obj_get_splice:
  "obj_get (splice k v config) l =
     (if l = k \<and> obj_get config k = JUndef \<and> str_truthy v then JStr (the v) else obj_get config l)"
  by (simp add: splice_def)

text \<open>
  the shim never overrides a name the configuration sets, never touches a configuration
  of the dataset-aware contract, and for older plugins fills exactly the missing
  \<open>collection\<close> and \<open>index\<close> with the collection of the dataset's vector and text binding.
\<close>

theorem applyDatasetShim_fills_missing:
  "obj_get (applyDatasetShim contract config (Some d)) k =
     (if contract \<noteq> 2 \<and> obj_get config k = JUndef \<and> k = ''collection'' \<and>
         str_truthy (nullish_opt (binding_collection d ''vectors'') (binding_collection d ''vector''))
      then JStr (the (nullish_opt (binding_collection d ''vectors'') (binding_collection d ''vector'')))
      else if contract \<noteq> 2 \<and> obj_get config k = JUndef \<and> k = ''index'' \<and>
         str_truthy (nullish_opt (binding_collection d ''text'') (binding_collection d ''keyword''))
      then JStr (the (nullish_opt (binding_collection d ''text'') (binding_collection d ''keyword'')))
      else obj_get config k)"
  by (cases "contract = 2"; cases "k = ''collection''"; cases "k = ''index''")
    (simp_all add: applyDatasetShim_def Let_def obj_get_splice)

section \<open>Secrets\<close>

lemma explicit_secrets_Inr:
  "explicit_secrets get tenant refs acc = Inr res \<Longrightarrow> distinct (map fst refs) \<Longrightarrow>
     map_of res name = (case map_of refs name of None \<Rightarrow> map_of acc name
       | Some ref \<Rightarrow> (case get ref tenant of Inl e \<Rightarrow> None | Inr v \<Rightarrow> Some v)) \<and>
     (\<forall>ref. map_of refs name = Some ref \<longrightarrow> (\<exists>v. get ref tenant = Inr v))"
proof (induction refs arbitrary: acc)
  case (Cons p refs)
  obtain l ref where p: "p = (l, ref)" by fastforce
  from Cons.prems(1) p obtain v where v: "get ref tenant = Inr v"
    "explicit_secrets get tenant refs (obj_set l v acc) = Inr res"
    by (auto split: sum.splits)
  from Cons.IH [OF v(2)] Cons.prems(2) have ih: "map_of res name = (case map_of refs name of None \<Rightarrow> map_of (obj_set l v acc) name
       | Some ref \<Rightarrow> (case get ref tenant of Inl e \<Rightarrow> None | Inr v \<Rightarrow> Some v))"
    "\<forall>ref. map_of refs name = Some ref \<longrightarrow> (\<exists>v. get ref tenant = Inr v)" by auto
  have "l \<notin> fst ` set refs" using Cons.prems(2) p by simp
  then have "map_of refs l = None" by (simp add: map_of_eq_None_iff)
  with ih v(1) p show ?case by (auto split: option.splits)
qed simp

lemma splice_connection_keeps:
  "map_of acc k = Some v \<Longrightarrow> map_of (splice_connection get tenant b acc) k = Some v"
proof -
  assume a: "map_of acc k = Some v"
  obtain name rb where b: "b = (name, rb)" by fastforce
  show ?thesis
  proof (cases "k = connection_key name")
    case True
    have "k \<in> fst ` set acc" using a by (metis map_of_eq_None_iff option.distinct(1))
    with a b True show ?thesis
      by (cases "rb_connection rb") (simp_all add: splice_connection_def)
  next
    case False
    with a b show ?thesis by (simp add: splice_connection_def split: option.split sum.split)
  qed
qed

lemma fold_splice_connection_keeps:
  "map_of acc k = Some v \<Longrightarrow> map_of (fold (splice_connection get tenant) bs acc) k = Some v"
  by (induction bs arbitrary: acc) (auto intro: splice_connection_keeps)

lemma fold_splice_connection_new:
  "map_of (fold (splice_connection get tenant) bs acc) k = Some v \<Longrightarrow> map_of acc k = Some v \<or>
     (\<exists>(name, b) \<in> set bs. \<exists>conn. k = connection_key name \<and> rb_connection b = Some conn \<and>
        get (tenant_secret_ref tenant (rx_id conn)) tenant = Inr v)"
proof (induction bs arbitrary: acc)
  case (Cons nb bs)
  obtain name b where nb: "nb = (name, b)" by fastforce
  from Cons.IH [of "splice_connection get tenant nb acc"] Cons.prems
  consider "map_of (splice_connection get tenant nb acc) k = Some v"
    | "\<exists>(name, b) \<in> set bs. \<exists>conn. k = connection_key name \<and> rb_connection b = Some conn \<and>
        get (tenant_secret_ref tenant (rx_id conn)) tenant = Inr v" by auto
  then show ?case
  proof cases
    case 1
    show ?thesis
    proof (cases "splice_connection get tenant nb acc = acc")
      case False
      then obtain conn w where c: "rb_connection b = Some conn" "get (tenant_secret_ref tenant (rx_id conn)) tenant = Inr w"
        "splice_connection get tenant nb acc = obj_set (connection_key name) w acc"
        by (auto simp: splice_connection_def nb split: option.splits sum.splits if_splits)
      with 1 nb show ?thesis by (auto split: if_splits)
    qed (use 1 in simp)
  next
    case 2
    then show ?thesis by auto
  qed
qed simp

text \<open>
  the secrets of a node.  When they resolve, every declared name holds what the provider
  returns for its reference under the running tenant, and any other key is the well-known key
  of a binding of the resolved dataset and holds the tenant's secret of that binding's
  connection; a declared secret is never replaced by a spliced one.
\<close>

theorem resolveNodeSecrets_explicit_wins:
  assumes "resolveNodeSecrets get refs ctx dataset = Inr res" "distinct (map fst refs)"
  shows "(\<forall>name ref. map_of refs name = Some ref \<longrightarrow>
            (\<exists>v. get ref (cx_tenantId ctx) = Inr v \<and> map_of res name = Some v)) \<and>
         (\<forall>k v. map_of res k = Some v \<and> map_of refs k = None \<longrightarrow>
            (\<exists>d name b conn. dataset = Some d \<and> (name, b) \<in> set (rd_bindings d) \<and> k = connection_key name \<and>
               rb_connection b = Some conn \<and>
               get (tenant_secret_ref (cx_tenantId ctx) (rx_id conn)) (cx_tenantId ctx) = Inr v))"
proof -
  let ?t = "cx_tenantId ctx"
  from assms(1) obtain acc where acc: "explicit_secrets get ?t refs [] = Inr acc"
    by (auto simp: resolveNodeSecrets_def split: sum.splits)
  have res: "res = (case dataset of None \<Rightarrow> acc | Some d \<Rightarrow> fold (splice_connection get ?t) (rd_bindings d) acc)"
    using assms(1) acc by (auto simp: resolveNodeSecrets_def split: option.splits)
  note ex = explicit_secrets_Inr [OF acc assms(2)]
  have one: "\<exists>v. get ref ?t = Inr v \<and> map_of res name = Some v" if "map_of refs name = Some ref" for name ref
  proof -
    from ex [of name] that obtain v where "get ref ?t = Inr v" by blast
    moreover with ex [of name] that have "map_of acc name = Some v" by simp
    then have "map_of res name = Some v"
      unfolding res by (auto split: option.splits intro: fold_splice_connection_keeps)
    ultimately show ?thesis by blast
  qed
  have two: "\<exists>d name b conn. dataset = Some d \<and> (name, b) \<in> set (rd_bindings d) \<and> k = connection_key name \<and>
      rb_connection b = Some conn \<and> get (tenant_secret_ref ?t (rx_id conn)) ?t = Inr v"
    if "map_of res k = Some v" "map_of refs k = None" for k v
  proof -
    note pr = that
    from ex [of k] pr(2) have none: "map_of acc k = None" by simp
    then obtain d where d: "dataset = Some d" using pr(1) res by (cases dataset) auto
    with fold_splice_connection_new [of get ?t "rd_bindings d" acc k v] pr(1) res none show ?thesis by auto
  qed
  from one two show ?thesis by blast
qed

definition ex_secret_ref :: "string \<Rightarrow> SecretRef" where
  "ex_secret_ref k = tenant_secret_ref ''t'' k"

definition ex_get_secret :: "SecretRef \<Rightarrow> string \<Rightarrow> run_error + string" where
  "ex_get_secret r t = (if sr_key r = ''k'' then Inr (t @ ''-value'') else Inl (Other_error ''missing''))"

theorem resolveNodeSecrets_explicit_wins_witness:
  "\<exists>v. ex_get_secret (ex_secret_ref ''k'') ''t'' = Inr v \<and> map_of [(''api'', ''t-value'')] ''api'' = Some v"
proof -
  have "resolveNodeSecrets ex_get_secret [(''api'', ex_secret_ref ''k'')] (ex_context ''t'') None = Inr [(''api'', ''t-value'')]"
    by (simp add: resolveNodeSecrets_def ex_context_def ex_get_secret_def ex_secret_ref_def tenant_secret_ref_def
        obj_set_def is_index_def list_all_iff is_digit_def)
  from resolveNodeSecrets_explicit_wins [OF this, THEN conjunct1, rule_format, of "''api''" "ex_secret_ref ''k''"]
  show ?thesis by (simp add: ex_context_def)
qed

section \<open>What a node leaves in the store\<close>

lemma emitStep_other [simp]:
  "st_nodes (rs_store (emitStep opts wd ctx n c src d rt)) = st_nodes (rs_store rt)"
  "st_executions (rs_store (emitStep opts wd ctx n c src d rt)) = st_executions (rs_store rt)"
  "st_usage (rs_store (emitStep opts wd ctx n c src d rt)) = st_usage (rs_store rt)"
  by (simp_all add: emitStep_def Let_def store_defs)

lemma emit_all_other [simp]:
  "st_nodes (rs_store (emit_all opts wd ctx n fs rt)) = st_nodes (rs_store rt)"
  "st_executions (rs_store (emit_all opts wd ctx n fs rt)) = st_executions (rs_store rt)"
proof -
  have "st_nodes (rs_store (fold (\<lambda>(channel, data). emitStep opts wd ctx n channel Src_emit data) fs rt)) = st_nodes (rs_store rt) \<and>
      st_executions (rs_store (fold (\<lambda>(channel, data). emitStep opts wd ctx n channel Src_emit data) fs rt)) = st_executions (rs_store rt)"
    by (induction fs arbitrary: rt) (auto split: prod.splits)
  then show "st_nodes (rs_store (emit_all opts wd ctx n fs rt)) = st_nodes (rs_store rt)"
    "st_executions (rs_store (emit_all opts wd ctx n fs rt)) = st_executions (rs_store rt)"
    by (simp_all add: emit_all_def)
qed

lemma attempt_call_keeps:
  assumes "\<And>fs rt. f (emit_all opts wd ctx (n_id n) fs rt) = f rt"
  shows "f (snd (attempt_call opts wd ctx n call a rt)) = f rt"
  using assms by (simp add: attempt_call_def split: prod.split option.split sum.split)

lemma node_output_keeps:
  assumes "\<And>fs rt. f (emit_all opts wd ctx (n_id n) fs rt) = f rt"
  shows "f (snd (node_output opts wd ctx bs n inputs rt)) = f rt"
proof -
  have "f (snd (withRetries (attempt_call opts wd ctx n call) r sh rt)) = f rt" for call r sh
    unfolding withRetries_def by (rule attempts_keeps) (rule attempt_call_keeps [OF assms])
  then show ?thesis
    by (simp add: node_output_def Let_def split: option.split sum.split)
qed

lemma node_output_invariant:
  assumes "\<And>fs rt. P rt \<Longrightarrow> P (emit_all opts wd ctx (n_id n) fs rt)" "P rt"
  shows "P (snd (node_output opts wd ctx bs n inputs rt))"
proof -
  have step: "P (snd (attempt_call opts wd ctx n call a rt))" if "P rt" for call a rt
    using assms(1) that by (simp add: attempt_call_def split: prod.split option.split sum.split)
  have "P (snd (withRetries (attempt_call opts wd ctx n call) r sh rt))" for call r sh
    unfolding withRetries_def by (rule attempts_invariant [where P = P, OF step assms(2)])
  then show ?thesis
    using assms(2) by (simp add: node_output_def Let_def split: option.split sum.split)
qed

lemma attempt_call_result:
  "fst (attempt_call opts wd ctx n call a rt) = fst (attempt_call opts wd ctx n call a rt')"
  by (simp add: attempt_call_def split: prod.split option.split sum.split)

text \<open>What a node returns depends on its inputs and not on what other nodes left behind.\<close>

lemma node_output_result:
  "fst (node_output opts wd ctx bs n inputs rt) = fst (node_output opts wd ctx bs n inputs rt')"
proof -
  have "fst (withRetries (attempt_call opts wd ctx n call) r sh rt) = fst (withRetries (attempt_call opts wd ctx n call) r sh rt')"
    for call r sh
    unfolding withRetries_def by (rule attempts_result) (rule attempt_call_result)
  then show ?thesis
    by (simp add: node_output_def Let_def split: option.split sum.split)
qed

definition node_result ::
  "DagExecutorOptions \<Rightarrow> world \<Rightarrow> RuntimeContext \<Rightarrow> bindings \<Rightarrow> PipelineNode \<Rightarrow> obj \<Rightarrow> run_error + PluginExecutionOutput" where
  "node_result opts wd ctx bs n inputs = size_guard opts (n_id n)
     (fst (node_output opts wd ctx bs n inputs \<lparr>rs_store = empty_store, rs_stepSeq = [], rs_draws = 0\<rparr>))"

lemma executeNode_result: "fst (executeNode opts wd ctx bs n inputs rt) = node_result opts wd ctx bs n inputs"
proof -
  let ?rt1 = "upd_store (store_startNode (node_record ctx (n_id n) N_running (redact opts (JObj inputs)) JUndef None)) rt"
  obtain result rt2 where o: "node_output opts wd ctx bs n inputs ?rt1 = (result, rt2)" by fastforce
  have "node_result opts wd ctx bs n inputs = size_guard opts (n_id n) result"
    unfolding node_result_def using node_output_result o by (metis fst_conv)
  with o show ?thesis
    unfolding executeNode_def Let_def by (simp split: sum.split)
qed

lemma upd_store_other [simp]:
  "rs_stepSeq (upd_store f rt) = rs_stepSeq rt" "rs_draws (upd_store f rt) = rs_draws rt"
  "rs_store (upd_store f rt) = f (rs_store rt)"
  by (simp_all add: upd_store_def)

lemma store_ops_nodes [simp]:
  "st_nodes (store_recordUsage u s) = st_nodes s" "st_nodes (store_startNode r s) = st_nodes s @ [r]"
  "st_nodes (store_completeNode r s) = replace_by node_key r (st_nodes s)"
  "st_executions (store_recordUsage u s) = st_executions s" "st_executions (store_startNode r s) = st_executions s"
  "st_executions (store_completeNode r s) = st_executions s"
  "st_steps (store_recordUsage u s) = st_steps s" "st_steps (store_startNode r s) = st_steps s"
  "st_steps (store_completeNode r s) = st_steps s" "st_steps (store_start x s) = st_steps s"
  "st_steps (store_complete x s) = st_steps s"
  "st_nodes (store_start x s) = st_nodes s" "st_nodes (store_complete x s) = st_nodes s"
  by (simp_all add: store_defs)

abbreviation rows :: "rt_state \<Rightarrow> string \<times> string \<Rightarrow> ExecutionNodeRecord list" where
  "rows rt k \<equiv> filter (\<lambda>r. node_key r = k) (st_nodes (rs_store rt))"

lemma node_key_record [simp]: "node_key (node_record ctx i st a b e) = (cx_executionId ctx, i)"
  by (simp add: node_key_def)

lemma filter_replace_by:
  "filter (\<lambda>r. key r = k) (replace_by key v vs) = (if k = key v then [v] else filter (\<lambda>r. key r = k) vs)"
  by (induction vs) (auto simp: replace_by_def)

lemma rows_executeNode:
  "rows (snd (executeNode opts wd ctx bs n inputs rt)) k =
     (if k = (cx_executionId ctx, n_id n) then
        [case node_result opts wd ctx bs n inputs of
           Inl e \<Rightarrow> node_record ctx (n_id n) N_failed JUndef JUndef (Some e)
         | Inr out \<Rightarrow> node_record ctx (n_id n) N_succeeded JUndef (redact opts (JObj (po_outputs out))) None]
      else rows rt k)"
proof -
  let ?start = "node_record ctx (n_id n) N_running (redact opts (JObj inputs)) JUndef None"
  let ?rt1 = "upd_store (store_startNode ?start) rt"
  obtain result rt2 where o: "node_output opts wd ctx bs n inputs ?rt1 = (result, rt2)" by fastforce
  have sg: "size_guard opts (n_id n) result = node_result opts wd ctx bs n inputs"
    unfolding node_result_def using node_output_result o by (metis fst_conv)
  have "st_nodes (rs_store rt2) = st_nodes (rs_store ?rt1)"
    using node_output_keeps [of "\<lambda>rt. st_nodes (rs_store rt)" opts wd ctx n bs inputs ?rt1] o by simp
  then have n2: "st_nodes (rs_store rt2) = st_nodes (rs_store rt) @ [?start]" by simp
  show ?thesis
  proof (cases "node_result opts wd ctx bs n inputs")
    case (Inl e)
    with o sg show ?thesis
      unfolding executeNode_def Let_def by (auto simp: filter_replace_by n2)
  next
    case (Inr out)
    with o sg show ?thesis
      unfolding executeNode_def Let_def
      by (auto simp: filter_replace_by n2 split: option.split)
  qed
qed

lemma rows_markSkipped:
  "rows (markSkipped ctx n rt) k = (if k = (cx_executionId ctx, n_id n)
     then [node_record ctx (n_id n) N_skipped JUndef JUndef None] else rows rt k)"
  by (auto simp: markSkipped_def filter_replace_by)

text \<open>
  executing a node leaves exactly one record of that node in the execution, marked
  succeeded with the redacted output when the node returns and failed with the error when it
  throws, and never running; the records of all other nodes and executions are untouched.
\<close>

theorem executeNode_record:
  "filter (\<lambda>r. node_key r = k) (st_nodes (rs_store (snd (executeNode opts wd ctx bs n inputs rt)))) =
     (if k = (cx_executionId ctx, n_id n) then
        [case fst (executeNode opts wd ctx bs n inputs rt) of
           Inl e \<Rightarrow> node_record ctx (n_id n) N_failed JUndef JUndef (Some e)
         | Inr out \<Rightarrow> node_record ctx (n_id n) N_succeeded JUndef (redact opts (JObj (po_outputs out))) None]
      else filter (\<lambda>r. node_key r = k) (st_nodes (rs_store rt)))"
  unfolding executeNode_result by (rule rows_executeNode)

section \<open>Numbered frames\<close>

text \<open>
  The frames of every execution are numbered from one without gaps, in the order they were
  recorded, and their ids are random ids drawn so far.
\<close>

definition steps_ok :: "world \<Rightarrow> rt_state \<Rightarrow> bool" where
  "steps_ok wd rt \<longleftrightarrow>
     (\<forall>x. map er_seq (filter (\<lambda>f. er_executionId f = x) (st_steps (rs_store rt))) =
        [1..<Suc (nullish (map_of (rs_stepSeq rt) x) 0)]) \<and>
     (\<forall>f \<in> set (st_steps (rs_store rt)). \<exists>d < rs_draws rt. er_frameId f = wd_uuid wd d)"

lemma steps_ok_emitStep [invs]:
  assumes "inj (wd_uuid wd)" "steps_ok wd rt"
  shows "steps_ok wd (emitStep opts wd ctx n c src d rt)"
proof -
  have fresh: "er_frameId f \<noteq> wd_uuid wd (rs_draws rt)" if "f \<in> set (st_steps (rs_store rt))" for f
    using assms that unfolding steps_ok_def by (metis injD less_irrefl)
  then have "replace_by er_frameId fr (st_steps (rs_store rt)) = st_steps (rs_store rt) @ [fr]"
    if "er_frameId fr = wd_uuid wd (rs_draws rt)" for fr
    using that by (simp add: replace_by_def filter_id_conv)
  then show ?thesis
    using assms(2) by (auto simp: steps_ok_def emitStep_def Let_def store_recordStep_def less_Suc_eq)
qed

lemma steps_ok_emit_all [invs]:
  assumes "inj (wd_uuid wd)" "steps_ok wd rt"
  shows "steps_ok wd (emit_all opts wd ctx n fs rt)"
  using assms(2) unfolding emit_all_def
  by (induction fs arbitrary: rt) (auto intro: steps_ok_emitStep [OF assms(1)])

lemma steps_ok_upd_store [simp]:
  "(\<And>s. st_steps (f s) = st_steps s) \<Longrightarrow> steps_ok wd (upd_store f rt) = steps_ok wd rt"
  by (simp add: steps_ok_def)

lemma steps_ok_executeNode [invs]:
  assumes "inj (wd_uuid wd)" "steps_ok wd rt"
  shows "steps_ok wd (snd (executeNode opts wd ctx bs n inputs rt))"
proof -
  let ?rt1 = "upd_store (store_startNode (node_record ctx (n_id n) N_running (redact opts (JObj inputs)) JUndef None)) rt"
  obtain result rt2 where o: "node_output opts wd ctx bs n inputs ?rt1 = (result, rt2)" by fastforce
  have "steps_ok wd ?rt1" using assms(2) by simp
  then have "steps_ok wd rt2"
    using node_output_invariant [of "steps_ok wd" opts wd ctx n ?rt1 bs inputs] o steps_ok_emit_all [OF assms(1)] by simp
  with o show ?thesis
    unfolding executeNode_def Let_def
    by (auto split: sum.split option.split intro!: steps_ok_emitStep [OF assms(1)])
qed

lemma steps_ok_markSkipped [invs]: "steps_ok wd rt \<Longrightarrow> steps_ok wd (markSkipped ctx n rt)"
  by (simp add: markSkipped_def)

section \<open>Bounded outputs and named wiring\<close>

lemma node_result_bounded:
  "node_result opts wd ctx bs n inputs = Inr out \<Longrightarrow> op_maxNodeOutputDocs opts = Some limit \<Longrightarrow> 0 < limit \<Longrightarrow>
     largestCollectionSize (po_outputs out) \<le> limit"
  by (auto simp: node_result_def size_guard_def Let_def split: sum.splits if_splits)

text \<open>
  Named wiring does not always win.  A value wired to an input port is replaced when the
  outputs of a later edge that names no port are merged and hold a key of the same name.
\<close>

theorem buildNodeInputs_port_overridden:
  "obj_get (buildNodeInputs
      [\<lparr>e_from = ''a'', e_to = ''n'', e_fromPort = Some ''p'', e_toPort = Some ''query''\<rparr>,
       \<lparr>e_from = ''b'', e_to = ''n'', e_fromPort = None, e_toPort = None\<rparr>]
      [(''a'', [(''p'', JStr ''wired'')]), (''b'', [(''query'', JStr ''merged'')])] []) ''query'' = JStr ''merged''"
  by (simp add: buildNodeInputs_def add_edge_input_def Let_def port_value_def obj_get_def)

end
