(* ===== verification/Dag_Runtime.thy ===== *)
theory Dag_Runtime
  imports Node_Execution "HOL-Library.Multiset"
begin

text \<open>
  The executor of a pipeline graph (\<open>runDag\<close>, \<open>execute\<close> and \<open>runSubgraph\<close> of
  \<open>DagExecutor\<close> in \<open>packages/runtime/src/index.ts\<close>): draining the ready queue in
  batches, skipping dead branches, evicting outputs, choosing the terminal output, and the
  life cycle of the execution record.

  The nodes of a batch run concurrently.  Each reads only outputs of earlier batches and
  writes its own entries, so a batch is a sequence of atomic node executions in some order,
  the order in which they finish (\<open>wd_schedule\<close>).  What they share besides is the store, which no
  node reads, the counters of the frames, and the field \<open>currentBindings\<close>, which the run sets to its own bindings
  and a nested run of a concurrent plugin replaces: what a node then finds is \<open>wd_overwritten\<close>.  What a
  plugin computes, its nested runs included, is a parameter.  When one fails the others still run to
  their end and the first failure in that order is thrown, as \<open>Promise.all\<close> does.
\<close>

section \<open>The graph\<close>

definition bindings_of :: "PipelineSpec \<Rightarrow> bindings" where
  "bindings_of spec = fold (\<lambda>d m. if bd_id d = [] then m
     else AList.update (bd_id d) (bd_dataset d, bd_connection d) m) (ps_bindings spec) []"

text \<open>The field \<open>currentBindings\<close> as a node finds it.\<close>

definition bindings_read :: "world \<Rightarrow> PipelineSpec \<Rightarrow> PipelineNode \<Rightarrow> bindings" where
  "bindings_read wd spec n = nullish (wd_overwritten wd (n_id n)) (bindings_of spec)"

definition incoming :: "PipelineSpec \<Rightarrow> string \<Rightarrow> PipelineEdge list" where
  "incoming spec i = filter (\<lambda>e. e_to e = i) (ps_edges spec)"

definition outgoing :: "PipelineSpec \<Rightarrow> string \<Rightarrow> PipelineEdge list" where
  "outgoing spec i = filter (\<lambda>e. e_from e = i) (ps_edges spec)"

definition output_node :: "PipelineSpec \<Rightarrow> PipelineNode option" where
  "output_node spec = find (\<lambda>n. n_type n = Some NT_output) (ps_nodes spec)"

definition evictProtected :: "PipelineSpec \<Rightarrow> string list" where
  "evictProtected spec = (case output_node spec of None \<Rightarrow> []
     | Some n \<Rightarrow> n_id n # map e_from (incoming spec (n_id n)))"

definition remainingConsumers :: "PipelineSpec \<Rightarrow> (string, int) jsmap" where
  "remainingConsumers spec = map (\<lambda>u. (u, int (length (js_set (map e_to (outgoing spec u))))))
     (js_set (map e_from (ps_edges spec)))"

section \<open>State of a run\<close>

record dag_state =
  dg_completed :: "string list"
  dg_skipped :: "string list"
  dg_outputs :: "(string, obj) jsmap"
  dg_remaining :: "(string, int) jsmap"
  dg_rt :: rt_state

definition resolved :: "dag_state \<Rightarrow> string \<Rightarrow> bool" where
  "resolved st i = (i \<in> set (dg_completed st) \<or> i \<in> set (dg_skipped st))"

section \<open>One batch\<close>

text \<open>The skip decision of a node, on the state before its batch.\<close>

definition skips :: "PipelineSpec \<Rightarrow> dag_state \<Rightarrow> string \<Rightarrow> bool" where
  "skips spec pre i = (incoming spec i \<noteq> [] \<and>
     filter (\<lambda>e. isEdgeLive e (dg_outputs pre) (dg_skipped pre)) (incoming spec i) = [])"

text \<open>One node of the batch; the first component is the first error so far.\<close>

definition run_node ::
  "DagExecutorOptions \<Rightarrow> world \<Rightarrow> RuntimeContext \<Rightarrow> PipelineSpec \<Rightarrow> obj \<Rightarrow> dag_state \<Rightarrow> string \<Rightarrow>
   run_error option \<times> dag_state \<Rightarrow> run_error option \<times> dag_state" where
  "run_node opts wd ctx spec input pre i = (\<lambda>(err, st).
     case node_by_id (ps_nodes spec) i of
       None \<Rightarrow> (nullish_opt err (nullish_opt
                 (if skips spec pre i then None else checkAborted wd ctx (Before_node i)) (Some Type_error)), st)
     | Some n \<Rightarrow>
         if skips spec pre i
         then (err, st\<lparr>dg_rt := markSkipped ctx n (dg_rt st), dg_skipped := set_add i (dg_skipped st)\<rparr>)
         else (case checkAborted wd ctx (Before_node i) of
             Some e \<Rightarrow> (nullish_opt err (Some e), st)
           | None \<Rightarrow> (case executeNode opts wd ctx (bindings_read wd spec n) n
                 (buildNodeInputs (incoming spec i) (dg_outputs pre) input) (dg_rt st) of
               (Inl e, rt) \<Rightarrow> (nullish_opt err (Some e), st\<lparr>dg_rt := rt\<rparr>)
             | (Inr out, rt) \<Rightarrow> (err, st\<lparr>dg_rt := rt,
                 dg_outputs := AList.update i (po_outputs out) (dg_outputs st),
                 dg_completed := set_add i (dg_completed st)\<rparr>))))"

text \<open>A schedule is a reordering of the batch.\<close>

definition order_of :: "world \<Rightarrow> nat \<Rightarrow> string list \<Rightarrow> string list" where
  "order_of wd k batch = (if mset (wd_schedule wd k batch) = mset batch then wd_schedule wd k batch else batch)"

definition run_batch ::
  "DagExecutorOptions \<Rightarrow> world \<Rightarrow> RuntimeContext \<Rightarrow> PipelineSpec \<Rightarrow> obj \<Rightarrow> nat \<Rightarrow> string list \<Rightarrow> dag_state \<Rightarrow>
   run_error option \<times> dag_state" where
  "run_batch opts wd ctx spec input k batch pre =
     fold (run_node opts wd ctx spec input pre) (order_of wd k batch) (None, pre)"

definition refill_step :: "PipelineSpec \<Rightarrow> dag_state \<Rightarrow> PipelineEdge \<Rightarrow> string list \<Rightarrow> string list" where
  "refill_step spec st e ready =
     (if resolved st (e_to e) \<or> e_to e \<in> set ready then ready
      else if list_all (\<lambda>u. resolved st (e_from u)) (incoming spec (e_to e)) then ready @ [e_to e]
      else ready)"

definition refill :: "PipelineSpec \<Rightarrow> dag_state \<Rightarrow> string list \<Rightarrow> string list" where
  "refill spec st batch = fold (refill_step spec st) (concat (map (outgoing spec) batch)) []"

definition evict_step :: "PipelineSpec \<Rightarrow> string \<Rightarrow> dag_state \<Rightarrow> dag_state" where
  "evict_step spec u st =
     (let left = nullish (map_of (dg_remaining st) u) 0 - 1;
          st1 = st\<lparr>dg_remaining := AList.update u left (dg_remaining st)\<rparr> in
      if left \<le> 0 \<and> u \<notin> set (evictProtected spec)
      then st1\<lparr>dg_outputs := AList.delete u (dg_outputs st1)\<rparr> else st1)"

definition evict :: "PipelineSpec \<Rightarrow> string list \<Rightarrow> dag_state \<Rightarrow> dag_state" where
  "evict spec batch st = (if output_node spec = None then st
     else fold (evict_step spec) (concat (map (\<lambda>i. js_set (map e_from (incoming spec i))) batch)) st)"

section \<open>Termination of the ready queue\<close>

definition universe :: "PipelineSpec \<Rightarrow> string set" where
  "universe spec = set (map n_id (ps_nodes spec)) \<union> e_to ` set (ps_edges spec)"

definition pending :: "PipelineSpec \<Rightarrow> dag_state \<Rightarrow> string set" where
  "pending spec st = {i \<in> universe spec. \<not> resolved st i}"

lemma finite_pending [simp]: "finite (pending spec st)"
  by (simp add: pending_def universe_def)

lemma run_node_resolved:
  "run_node opts wd ctx spec input pre i (err, st) = (err', st') \<Longrightarrow>
     (\<forall>j. resolved st j \<longrightarrow> resolved st' j) \<and> (err' = None \<longrightarrow> err = None \<and> resolved st' i) \<and>
     dg_remaining st' = dg_remaining st"
  by (auto simp: run_node_def resolved_def nullish_opt_def split: option.splits if_splits prod.splits sum.splits)

lemma fold_run_node_resolved:
  "fold (run_node opts wd ctx spec input pre) is (err, st) = (err', st') \<Longrightarrow>
     (\<forall>j. resolved st j \<longrightarrow> resolved st' j) \<and> (err' = None \<longrightarrow> err = None \<and> (\<forall>i \<in> set is. resolved st' i)) \<and>
     dg_remaining st' = dg_remaining st"
proof (induction "is" arbitrary: err st)
  case (Cons i "is")
  obtain e s where es: "run_node opts wd ctx spec input pre i (err, st) = (e, s)" by fastforce
  from run_node_resolved [OF es] Cons.IH [of e s] Cons.prems es show ?case by auto
qed simp

lemma set_order_of [simp]: "set (order_of wd k batch) = set batch"
  unfolding order_of_def by (metis set_mset_mset)

lemma distinct_order_of [simp]: "distinct (order_of wd k batch) = distinct batch"
  unfolding order_of_def by (metis mset_eq_imp_distinct_iff)

lemma refill_subset: "set (refill spec st batch) \<subseteq> pending spec st"
proof -
  have "set (fold (refill_step spec st) es r) \<subseteq> set r \<union> {e_to e | e. e \<in> set es \<and> \<not> resolved st (e_to e)}" for es r
  proof (induction es arbitrary: r)
    case (Cons e es)
    have "set (refill_step spec st e r) \<subseteq> set r \<union> (if resolved st (e_to e) then {} else {e_to e})"
      by (auto simp: refill_step_def)
    with Cons.IH [of "refill_step spec st e r"] show ?case by (auto split: if_splits)
  qed simp
  from this [of "concat (map (outgoing spec) batch)" "[]"] show ?thesis
    by (auto simp: refill_def pending_def universe_def outgoing_def)
qed

lemma evict_fields [simp]:
  "dg_completed (evict spec batch st) = dg_completed st" "dg_skipped (evict spec batch st) = dg_skipped st"
  "dg_rt (evict spec batch st) = dg_rt st"
proof -
  have "dg_completed (fold (evict_step spec) us st) = dg_completed st \<and> dg_skipped (fold (evict_step spec) us st) = dg_skipped st
      \<and> dg_rt (fold (evict_step spec) us st) = dg_rt st" for us
    by (induction us arbitrary: st) (simp_all add: evict_step_def Let_def)
  then show "dg_completed (evict spec batch st) = dg_completed st" "dg_skipped (evict spec batch st) = dg_skipped st"
    "dg_rt (evict spec batch st) = dg_rt st" by (simp_all add: evict_def)
qed

lemma resolved_evict [simp]: "resolved (evict spec batch st) i = resolved st i"
  by (simp add: resolved_def)

lemma pending_evict [simp]: "pending spec (evict spec batch st) = pending spec st"
  by (simp add: pending_def)

definition dag_measure :: "PipelineSpec \<Rightarrow> string list \<Rightarrow> dag_state \<Rightarrow> nat" where
  "dag_measure spec ready st = 2 * card (pending spec st) + (if set ready \<inter> pending spec st = {} \<and> ready \<noteq> [] then 1 else 0)"

lemma batch_decreases:
  assumes "ready \<noteq> []" "run_batch opts wd ctx spec input k ready st = (None, st')"
  shows "dag_measure spec (refill spec st' ready) (evict spec ready st') < dag_measure spec ready st"
proof -
  have r: "\<And>j. resolved st j \<Longrightarrow> resolved st' j" "\<And>i. i \<in> set ready \<Longrightarrow> resolved st' i"
    using fold_run_node_resolved [OF assms(2) [unfolded run_batch_def]] by auto
  then have sub: "pending spec st' \<subseteq> pending spec st - set ready" by (auto simp: pending_def)
  have flag: "refill spec st' ready \<noteq> [] \<Longrightarrow> set (refill spec st' ready) \<inter> pending spec st' \<noteq> {}"
    using refill_subset [of spec st' ready] by (cases "refill spec st' ready") auto
  show ?thesis
  proof (cases "set ready \<inter> pending spec st = {}")
    case True
    have "card (pending spec st') \<le> card (pending spec st)" using sub by (intro card_mono) auto
    with True flag assms(1) show ?thesis by (auto simp: dag_measure_def)
  next
    case False
    then have "pending spec st' \<subset> pending spec st" using sub by auto
    then have "card (pending spec st') < card (pending spec st)" by (intro psubset_card_mono) auto
    with flag show ?thesis by (auto simp: dag_measure_def)
  qed
qed

function dag_loop ::
  "DagExecutorOptions \<Rightarrow> world \<Rightarrow> RuntimeContext \<Rightarrow> PipelineSpec \<Rightarrow> obj \<Rightarrow> nat \<Rightarrow> string list \<Rightarrow> dag_state \<Rightarrow>
   run_error option \<times> dag_state" where
  "dag_loop opts wd ctx spec input k ready st =
     (if ready = [] then (None, st)
      else case run_batch opts wd ctx spec input k ready st of
             (Some e, st') \<Rightarrow> (Some e, st')
           | (None, st') \<Rightarrow> dag_loop opts wd ctx spec input (Suc k) (refill spec st' ready) (evict spec ready st'))"
  by pat_completeness auto
termination
  by (relation "measure (\<lambda>(opts, wd, ctx, spec, input, k, ready, st). dag_measure spec ready st)")
    (auto intro: batch_decreases)

declare dag_loop.simps [simp del]

section \<open>A run of the graph\<close>

definition ready0 :: "PipelineSpec \<Rightarrow> string list" where
  "ready0 spec = map n_id (filter (\<lambda>n. incoming spec (n_id n) = []) (ps_nodes spec))"

definition dag_state0 :: "PipelineSpec \<Rightarrow> rt_state \<Rightarrow> dag_state" where
  "dag_state0 spec rt = \<lparr>dg_completed = [], dg_skipped = [], dg_outputs = [],
     dg_remaining = remainingConsumers spec, dg_rt = rt\<rparr>"

definition summary_of :: "PipelineSpec \<Rightarrow> dag_state \<Rightarrow> RuntimeExecutionSummary" where
  "summary_of spec st =
     (let nonRootCompleted = length (filter (\<lambda>i. incoming spec i \<noteq> []) (dg_completed st));
          nothing = (0 < length (dg_completed st) \<and> nonRootCompleted = 0 \<and> 0 < length (dg_skipped st)) in
      \<lparr>sm_nodesTotal = length (ps_nodes spec), sm_nodesCompleted = length (dg_completed st),
       sm_nodesSkipped = length (dg_skipped st), sm_noWorkDone = nothing,
       sm_reason = (if nothing then Some ''all_downstream_skipped'' else None)\<rparr>)"

definition pickOutput :: "PipelineSpec \<Rightarrow> dag_state \<Rightarrow> obj" where
  "pickOutput spec st = (case output_node spec of
      Some n \<Rightarrow> if n_id n \<in> set (dg_skipped st) then []
        else (case filter (\<lambda>e. isEdgeLive e (dg_outputs st) (dg_skipped st)) (incoming spec (n_id n)) of
                e # es \<Rightarrow> nullish (map_of (dg_outputs st) (e_from e)) []
              | [] \<Rightarrow> nullish (map_of (dg_outputs st) (n_id n)) [])
    | None \<Rightarrow> (case find (\<lambda>n. n_id n \<in> set (dg_completed st)) (rev (ps_nodes spec)) of
                Some n \<Rightarrow> nullish (map_of (dg_outputs st) (n_id n)) []
              | None \<Rightarrow> []))"

definition runDag ::
  "DagExecutorOptions \<Rightarrow> world \<Rightarrow> RuntimeContext \<Rightarrow> PipelineSpec \<Rightarrow> obj \<Rightarrow> rt_state \<Rightarrow>
   (run_error + obj \<times> RuntimeExecutionSummary) \<times> rt_state" where
  "runDag opts wd ctx spec input rt =
     (case dag_loop opts wd ctx spec input 0 (ready0 spec) (dag_state0 spec rt) of
        (Some e, st) \<Rightarrow> (Inl e, dg_rt st)
      | (None, st) \<Rightarrow> (Inr (pickOutput spec st, summary_of spec st), dg_rt st))"

definition runSubgraph ::
  "DagExecutorOptions \<Rightarrow> world \<Rightarrow> RuntimeContext \<Rightarrow> PipelineSpec \<Rightarrow> obj \<Rightarrow> rt_state \<Rightarrow> (run_error + obj) \<times> rt_state" where
  "runSubgraph opts wd ctx spec input rt = (case runDag opts wd ctx spec input rt of
      (Inl e, rt') \<Rightarrow> (Inl e, rt')
    | (Inr (out, _), rt') \<Rightarrow> (Inr out, rt'))"

section \<open>An execution\<close>

definition summary_json :: "RuntimeExecutionSummary \<Rightarrow> json" where
  "summary_json sm = JObj ([(''nodesTotal'', jint (int (sm_nodesTotal sm))),
     (''nodesCompleted'', jint (int (sm_nodesCompleted sm))), (''nodesSkipped'', jint (int (sm_nodesSkipped sm))),
     (''noWorkDone'', JBool (sm_noWorkDone sm))]
     @ (case sm_reason sm of None \<Rightarrow> [] | Some r \<Rightarrow> [(''reason'', JStr r)]))"

definition execution_record ::
  "DagExecutorOptions \<Rightarrow> RuntimeContext \<Rightarrow> obj \<Rightarrow> execution_status \<Rightarrow> json \<Rightarrow> run_error option \<Rightarrow> ExecutionRecord" where
  "execution_record opts ctx input status out err = \<lparr>xr_executionId = cx_executionId ctx, xr_tenantId = cx_tenantId ctx,
     xr_pipelineId = cx_pipelineId ctx, xr_pipelineVersionId = cx_pipelineVersionId ctx,
     xr_environment = cx_environment ctx, xr_status = status, xr_input = redact opts (JObj input), xr_output = out,
     xr_error = err, xr_actorId = cx_actorId ctx, xr_parentExecutionId = cx_parentExecutionId ctx\<rparr>"

definition may_run :: "RuntimeContext \<Rightarrow> bool" where
  "may_run ctx = (case cx_principalAuthorize ctx of None \<Rightarrow> True
     | Some authorize \<Rightarrow> authorize ''pipeline:run'' \<lparr>ar_tenantId = cx_tenantId ctx,
         ar_environment = cx_environment ctx, ar_pipelineId = Some (cx_pipelineId ctx)\<rparr>)"

text \<open>
  The \<open>try\<close> block: an error comes with the flag \<open>terminalRecorded\<close>.
\<close>

definition deny ::
  "DagExecutorOptions \<Rightarrow> RuntimeContext \<Rightarrow> obj \<Rightarrow> run_error \<Rightarrow> rt_state \<Rightarrow> ((run_error \<times> bool) + obj) \<times> rt_state" where
  "deny opts ctx input e rt =
     (Inl (e, True), upd_store (store_complete (execution_record opts ctx input X_denied JUndef (Some e))) rt)"

definition finish ::
  "DagExecutorOptions \<Rightarrow> RuntimeContext \<Rightarrow> obj \<Rightarrow> obj \<Rightarrow> rt_state \<Rightarrow> ((run_error \<times> bool) + obj) \<times> rt_state" where
  "finish opts ctx input enriched rt =
     (let done = (\<lambda>out. (Inr out, upd_store (store_complete
            (execution_record opts ctx input X_succeeded (redact opts (JObj out)) None)) rt)) in
      case op_onFinish opts of
        None \<Rightarrow> done enriched
      | Some hook \<Rightarrow> (case hook ctx enriched of
            Inl e \<Rightarrow> (Inl (e, False), rt)
          | Inr (Finish_fail reason) \<Rightarrow> (Inl (Force_failed reason, False), rt)
          | Inr (Finish_output out) \<Rightarrow> done out
          | Inr Finish_nothing \<Rightarrow> done enriched))"

definition run_and_finish ::
  "DagExecutorOptions \<Rightarrow> world \<Rightarrow> RuntimeContext \<Rightarrow> PipelineSpec \<Rightarrow> obj \<Rightarrow> obj \<Rightarrow> rt_state \<Rightarrow>
   ((run_error \<times> bool) + obj) \<times> rt_state" where
  "run_and_finish opts wd ctx spec input runInput rt = (case runDag opts wd ctx spec runInput rt of
      (Inl e, rt') \<Rightarrow> (Inl (e, False), rt')
    | (Inr (out, sm), rt') \<Rightarrow> finish opts ctx input
        (if 0 < sm_nodesSkipped sm then obj_set ''__ragdollSummary__'' (summary_json sm) out else out) rt')"

definition execute_body ::
  "DagExecutorOptions \<Rightarrow> world \<Rightarrow> RuntimeContext \<Rightarrow> PipelineSpec \<Rightarrow> obj \<Rightarrow> rt_state \<Rightarrow>
   ((run_error \<times> bool) + obj) \<times> rt_state" where
  "execute_body opts wd ctx spec input rt =
     (case checkAborted wd ctx At_start of
        Some e \<Rightarrow> (Inl (e, False), rt)
      | None \<Rightarrow> if \<not> may_run ctx then deny opts ctx input Principal_denied rt
          else (case op_onStart opts of
              None \<Rightarrow> run_and_finish opts wd ctx spec input input rt
            | Some hook \<Rightarrow> (case hook ctx input of
                  Inl e \<Rightarrow> (Inl (e, False), rt)
                | Inr (Start_deny reason) \<Rightarrow> deny opts ctx input (Denied_by_platform_plugin reason) rt
                | Inr (Start_input runInput) \<Rightarrow> run_and_finish opts wd ctx spec input runInput rt
                | Inr Start_nothing \<Rightarrow> run_and_finish opts wd ctx spec input input rt)))"

definition end_execution :: "RuntimeContext \<Rightarrow> rt_state \<Rightarrow> rt_state" where
  "end_execution ctx rt = rt\<lparr>rs_stepSeq := AList.delete (cx_executionId ctx) (rs_stepSeq rt)\<rparr>"

definition execute ::
  "DagExecutorOptions \<Rightarrow> world \<Rightarrow> RuntimeContext \<Rightarrow> PipelineSpec \<Rightarrow> obj \<Rightarrow> rt_state \<Rightarrow> (run_error + obj) \<times> rt_state" where
  "execute opts wd ctx spec input rt =
     (let validation = validatePipelineSpec spec (Some (op_registry opts)) None in
      if \<not> pv_valid validation then (Inl (Validation_failed (pv_errors validation)), rt)
      else
        let rt1 = upd_store (store_start (execution_record opts ctx input X_running JUndef None)) rt in
        case execute_body opts wd ctx spec input rt1 of
          (Inr out, rt2) \<Rightarrow> (Inr out, end_execution ctx rt2)
        | (Inl (e, recorded), rt2) \<Rightarrow> (Inl e, end_execution ctx
            (if recorded then rt2
             else upd_store (store_complete (execution_record opts ctx input
                    (if isAbortError e then X_cancelled else X_failed) JUndef (Some e))) rt2)))"

end
