(* ===== verification/Dataflow.thy ===== *)
theory Dataflow
  imports Dag_Runtime
begin

text \<open>
  What a run of a pipeline graph computes.  The specification has no queue, no batches, no
  schedule and no eviction: it gives every node a value (done with its outputs, skipped or
  failed) that depends on the values of its predecessors only.  The main lemma shows that the
  executor of \<open>Dag_Runtime\<close> computes exactly this on every well-formed graph, whatever the
  order in which the nodes of a batch finish.
\<close>

section \<open>Specification\<close>

datatype node_val = Done obj | Skip | Failed

definition val_outs :: "node_val \<Rightarrow> obj option" where
  "val_outs v = (case v of Done outs \<Rightarrow> Some outs | _ \<Rightarrow> None)"

lemma val_outs_simps [simp]: "val_outs (Done outs) = Some outs" "val_outs Skip = None" "val_outs Failed = None"
  by (simp_all add: val_outs_def)

lemma val_outs_Some: "val_outs v = Some outs \<longleftrightarrow> v = Done outs"
  by (cases v) auto

definition live :: "(string \<Rightarrow> node_val) \<Rightarrow> PipelineEdge \<Rightarrow> bool" where
  "live V e = (case val_outs (V (e_from e)) of None \<Rightarrow> False
     | Some src \<Rightarrow> \<not> str_truthy (e_fromPort e) \<or> obj_get src (the (e_fromPort e)) \<noteq> JUndef)"

text \<open>The outputs of the sources of some edges, as the map \<^const>\<open>buildNodeInputs\<close> reads.\<close>

definition source_outputs :: "(string \<Rightarrow> node_val) \<Rightarrow> PipelineEdge list \<Rightarrow> (string, obj) jsmap" where
  "source_outputs V es = concat (map (\<lambda>e. case val_outs (V (e_from e)) of None \<Rightarrow> [] | Some src \<Rightarrow> [(e_from e, src)]) es)"

definition node_value ::
  "DagExecutorOptions \<Rightarrow> world \<Rightarrow> RuntimeContext \<Rightarrow> PipelineSpec \<Rightarrow> obj \<Rightarrow> (string \<Rightarrow> node_val) \<Rightarrow> PipelineNode \<Rightarrow> node_val" where
  "node_value opts wd ctx spec input V n =
     (let es = incoming spec (n_id n) in
      if es \<noteq> [] \<and> \<not> list_ex (live V) es then Skip
      else if checkAborted wd ctx (Before_node (n_id n)) \<noteq> None then Failed
      else (case node_result opts wd ctx (bindings_read wd spec n) n (buildNodeInputs es (source_outputs V es) input) of
              Inl e \<Rightarrow> Failed
            | Inr out \<Rightarrow> Done (po_outputs out)))"

definition dataflow ::
  "DagExecutorOptions \<Rightarrow> world \<Rightarrow> RuntimeContext \<Rightarrow> PipelineSpec \<Rightarrow> obj \<Rightarrow> (string \<Rightarrow> node_val) \<Rightarrow> bool" where
  "dataflow opts wd ctx spec input V \<longleftrightarrow> (\<forall>n \<in> set (ps_nodes spec). V (n_id n) = node_value opts wd ctx spec input V n)"

definition val_output :: "PipelineSpec \<Rightarrow> (string \<Rightarrow> node_val) \<Rightarrow> obj" where
  "val_output spec V = (case output_node spec of
      Some n \<Rightarrow> if V (n_id n) = Skip then []
        else (case filter (live V) (incoming spec (n_id n)) of
                e # es \<Rightarrow> nullish (val_outs (V (e_from e))) []
              | [] \<Rightarrow> nullish (val_outs (V (n_id n))) [])
    | None \<Rightarrow> (case find (\<lambda>n. val_outs (V (n_id n)) \<noteq> None) (rev (ps_nodes spec)) of
                Some n \<Rightarrow> nullish (val_outs (V (n_id n))) []
              | None \<Rightarrow> []))"

definition val_summary :: "PipelineSpec \<Rightarrow> (string \<Rightarrow> node_val) \<Rightarrow> RuntimeExecutionSummary" where
  "val_summary spec V =
     (let done = filter (\<lambda>n. val_outs (V (n_id n)) \<noteq> None) (ps_nodes spec);
          skipped = filter (\<lambda>n. V (n_id n) = Skip) (ps_nodes spec);
          nothing = (done \<noteq> [] \<and> filter (\<lambda>n. incoming spec (n_id n) \<noteq> []) done = [] \<and> skipped \<noteq> []) in
      \<lparr>sm_nodesTotal = length (ps_nodes spec), sm_nodesCompleted = length done, sm_nodesSkipped = length skipped,
       sm_noWorkDone = nothing, sm_reason = (if nothing then Some ''all_downstream_skipped'' else None)\<rparr>)"

text \<open>The graphs the validator lets through.\<close>

definition graph_ok :: "PipelineSpec \<Rightarrow> bool" where
  "graph_ok spec \<longleftrightarrow> distinct (map n_id (ps_nodes spec)) \<and>
     (\<forall>e \<in> set (ps_edges spec). e_from e \<in> n_id ` set (ps_nodes spec) \<and> e_to e \<in> n_id ` set (ps_nodes spec)) \<and>
     acyclic {(e_from e, e_to e) | e. e \<in> set (ps_edges spec)}"

lemma well_formed_graph_ok: "well_formed_spec spec reg idx \<Longrightarrow> graph_ok spec"
  by (simp add: well_formed_spec_def graph_ok_def)

abbreviation edge_pairs :: "PipelineSpec \<Rightarrow> (string \<times> string) set" where
  "edge_pairs spec \<equiv> {(e_from e, e_to e) | e. e \<in> set (ps_edges spec)}"

lemma wf_edge_pairs: "graph_ok spec \<Longrightarrow> wf (edge_pairs spec)"
proof -
  assume "graph_ok spec"
  moreover have "finite (edge_pairs spec)"
    by (rule finite_surj [of "set (ps_edges spec)" _ "\<lambda>e. (e_from e, e_to e)"]) auto
  ultimately show ?thesis by (intro finite_acyclic_wf) (simp_all add: graph_ok_def)
qed

section \<open>The equations have exactly one solution\<close>

lemma node_value_cong:
  assumes "\<And>u. (u, n_id n) \<in> edge_pairs spec \<Longrightarrow> V u = W u"
  shows "node_value opts wd ctx spec input V n = node_value opts wd ctx spec input W n"
proof -
  have vw: "V (e_from e) = W (e_from e)" if "e \<in> set (incoming spec (n_id n))" for e
    using assms [of "e_from e"] that by (force simp: incoming_def)
  then have "list_ex (live V) (incoming spec (n_id n)) = list_ex (live W) (incoming spec (n_id n))"
    by (auto simp: list_ex_iff live_def)
  moreover have "source_outputs V (incoming spec (n_id n)) = source_outputs W (incoming spec (n_id n))"
    unfolding source_outputs_def using vw by (intro arg_cong [of _ _ concat] map_cong) auto
  ultimately show ?thesis by (simp only: node_value_def Let_def)
qed

lemma node_by_id_iff:
  assumes "graph_ok spec"
  shows "node_by_id (ps_nodes spec) i = Some n \<longleftrightarrow> n \<in> set (ps_nodes spec) \<and> n_id n = i"
proof -
  have d: "distinct (map fst (rev (map (\<lambda>n. (n_id n, n)) (ps_nodes spec))))"
  proof -
    have "map fst (rev (map (\<lambda>n. (n_id n, n)) (ps_nodes spec))) = rev (map n_id (ps_nodes spec))"
      by (induction "ps_nodes spec") (simp_all add: rev_map comp_def)
    then show ?thesis using assms unfolding graph_ok_def by (metis distinct_rev)
  qed
  show ?thesis
    unfolding node_by_id_def using map_of_eq_Some_iff [OF d, of i n] by auto
qed

lemma dataflow_exists:
  assumes "graph_ok spec"
  shows "\<exists>V. dataflow opts wd ctx spec input V"
proof -
  let ?F = "\<lambda>f i. (case node_by_id (ps_nodes spec) i of None \<Rightarrow> Failed | Some n \<Rightarrow> node_value opts wd ctx spec input f n)"
  let ?V = "wfrec (edge_pairs spec) ?F"
  have "?V (n_id n) = node_value opts wd ctx spec input ?V n" if n: "n \<in> set (ps_nodes spec)" for n
  proof -
    have "?V (n_id n) = ?F (cut ?V (edge_pairs spec) (n_id n)) (n_id n)"
      by (rule wfrec [OF wf_edge_pairs [OF assms]])
    also have "\<dots> = node_value opts wd ctx spec input (cut ?V (edge_pairs spec) (n_id n)) n"
      using node_by_id_iff [OF assms, of "n_id n" n] n by simp
    also have "\<dots> = node_value opts wd ctx spec input ?V n"
      by (rule node_value_cong) (rule cut_apply)
    finally show ?thesis .
  qed
  then show ?thesis unfolding dataflow_def by blast
qed

lemma dataflow_unique:
  assumes "graph_ok spec" "dataflow opts wd ctx spec input V" "dataflow opts wd ctx spec input W"
    "n \<in> set (ps_nodes spec)"
  shows "V (n_id n) = W (n_id n)"
  using assms(4)
proof (induction "n_id n" arbitrary: n rule: wf_induct_rule [OF wf_edge_pairs [OF assms(1)]])
  case 1
  have "V u = W u" if "(u, n_id n) \<in> edge_pairs spec" for u
  proof -
    from that assms(1) obtain m where m: "m \<in> set (ps_nodes spec)" "u = n_id m"
      unfolding graph_ok_def by blast
    from "1.hyps"(1) [OF that [unfolded m(2)] m(1)] show ?thesis unfolding m(2) .
  qed
  then have eq: "node_value opts wd ctx spec input V n = node_value opts wd ctx spec input W n"
    by (rule node_value_cong)
  have "V (n_id n) = node_value opts wd ctx spec input V n" "W (n_id n) = node_value opts wd ctx spec input W n"
    using assms(2,3) "1.prems" unfolding dataflow_def by blast+
  with eq show ?case by simp
qed

section \<open>Inputs and liveness agree\<close>

lemma map_of_source_outputs:
  "map_of (source_outputs V es) u = (if u \<in> e_from ` set es then val_outs (V u) else None)"
proof (induction es)
  case (Cons e es)
  then show ?case by (cases "val_outs (V (e_from e))") (auto simp: source_outputs_def)
qed (simp add: source_outputs_def)

lemma buildNodeInputs_cong:
  assumes "\<And>e. e \<in> set es \<Longrightarrow> map_of outs (e_from e) = map_of outs' (e_from e)"
  shows "buildNodeInputs es outs input = buildNodeInputs es outs' input"
proof -
  have "fold (add_edge_input outs) es r = fold (add_edge_input outs') es r" for r
    using assms by (induction es arbitrary: r) (simp_all add: add_edge_input_def)
  then show ?thesis by (simp add: buildNodeInputs_def)
qed

text \<open>
  The outputs and skipped nodes of a state agree with the values on the sources of some edges.
\<close>

definition agree :: "(string \<Rightarrow> node_val) \<Rightarrow> dag_state \<Rightarrow> PipelineEdge \<Rightarrow> bool" where
  "agree V st e \<longleftrightarrow> map_of (dg_outputs st) (e_from e) = val_outs (V (e_from e)) \<and>
     (e_from e \<in> set (dg_skipped st) \<longrightarrow> V (e_from e) = Skip)"

lemma isEdgeLive_live: "agree V st e \<Longrightarrow> isEdgeLive e (dg_outputs st) (dg_skipped st) = live V e"
  by (auto simp: isEdgeLive_def live_def agree_def split: option.split)

lemma skips_iff:
  assumes "\<And>e. e \<in> set (incoming spec i) \<Longrightarrow> agree V st e"
  shows "skips spec st i \<longleftrightarrow> incoming spec i \<noteq> [] \<and> \<not> list_ex (live V) (incoming spec i)"
  using assms isEdgeLive_live [of V st]
  by (auto simp: skips_def filter_empty_conv list_ex_iff)

lemma buildNodeInputs_agree:
  assumes "\<And>e. e \<in> set (incoming spec i) \<Longrightarrow> agree V st e"
  shows "buildNodeInputs (incoming spec i) (dg_outputs st) input =
    buildNodeInputs (incoming spec i) (source_outputs V (incoming spec i)) input"
  by (rule buildNodeInputs_cong) (use assms in \<open>auto simp: agree_def map_of_source_outputs\<close>)

section \<open>A batch records the values of its nodes\<close>

definition recorded :: "(string \<Rightarrow> node_val) \<Rightarrow> string set \<Rightarrow> dag_state \<Rightarrow> dag_state \<Rightarrow> bool" where
  "recorded V I st st' \<longleftrightarrow>
     set (dg_completed st') = set (dg_completed st) \<union> {i \<in> I. val_outs (V i) \<noteq> None} \<and>
     set (dg_skipped st') = set (dg_skipped st) \<union> {i \<in> I. V i = Skip} \<and>
     (\<forall>j. map_of (dg_outputs st') j = (if j \<in> I \<and> val_outs (V j) \<noteq> None then val_outs (V j) else map_of (dg_outputs st) j)) \<and>
     (distinct (dg_completed st) \<longrightarrow> distinct (dg_completed st')) \<and>
     (distinct (dg_skipped st) \<longrightarrow> distinct (dg_skipped st')) \<and>
     dg_remaining st' = dg_remaining st"

lemma recorded_refl: "recorded V {} st st"
  by (simp add: recorded_def)

lemma recorded_trans: "recorded V I a b \<Longrightarrow> recorded V J b c \<Longrightarrow> recorded V (I \<union> J) a c"
  unfolding recorded_def by (intro conjI) (force+)

lemma run_node_recorded:
  assumes V: "V i = node_value opts wd ctx spec input V n"
    and n: "node_by_id (ps_nodes spec) i = Some n" "n_id n = i"
    and ag: "\<And>e. e \<in> set (incoming spec i) \<Longrightarrow> agree V pre e"
    and r: "run_node opts wd ctx spec input pre i (err, st) = (err', st')"
  shows "(V i = Failed \<longrightarrow> err' \<noteq> None) \<and> (V i \<noteq> Failed \<longrightarrow> err' = err \<and> recorded V {i} st st')"
proof (cases "skips spec pre i")
  case True
  then have "V i = Skip" using V n(2) skips_iff [OF ag] by (simp add: node_value_def)
  moreover from r True n have "err' = err" "st' = st\<lparr>dg_rt := markSkipped ctx n (dg_rt st), dg_skipped := set_add i (dg_skipped st)\<rparr>"
    by (auto simp: run_node_def)
  ultimately show ?thesis by (auto simp: recorded_def)
next
  case False
  then have nsk: "\<not> (incoming spec i \<noteq> [] \<and> \<not> list_ex (live V) (incoming spec i))"
    using skips_iff [OF ag] by blast
  have inputs: "buildNodeInputs (incoming spec i) (dg_outputs pre) input =
      buildNodeInputs (incoming spec i) (source_outputs V (incoming spec i)) input"
    by (rule buildNodeInputs_agree) (rule ag)
  show ?thesis
  proof (cases "checkAborted wd ctx (Before_node i)")
    case (Some e)
    with V n(2) nsk have "V i = Failed" unfolding node_value_def Let_def by simp
    moreover have "err' = nullish_opt err (Some e)"
      using r by (simp add: run_node_def Some False n)
    then have "err' \<noteq> None" by (cases err) simp_all
    ultimately show ?thesis by simp
  next
    case None
    let ?in = "buildNodeInputs (incoming spec i) (dg_outputs pre) input"
    obtain res rt where x: "executeNode opts wd ctx (bindings_read wd spec n) n ?in (dg_rt st) = (res, rt)" by fastforce
    then have res: "res = node_result opts wd ctx (bindings_read wd spec n) n ?in"
      using executeNode_result [of opts wd ctx "bindings_read wd spec n" n ?in "dg_rt st"] by simp
    have Vi: "V i = (case res of Inl e \<Rightarrow> Failed | Inr out \<Rightarrow> Done (po_outputs out))"
      using V n(2) nsk None res inputs unfolding node_value_def Let_def by simp
    show ?thesis
    proof (cases res)
      case (Inl e)
      with Vi have "V i = Failed" by simp
      moreover have "err' = nullish_opt err (Some e)"
        using r x by (simp add: run_node_def None False n Inl)
      then have "err' \<noteq> None" by (cases err) simp_all
      ultimately show ?thesis by simp
    next
      case (Inr out)
      with Vi have "V i = Done (po_outputs out)" by simp
      moreover have "err' = err" "st' = st\<lparr>dg_rt := rt, dg_outputs := AList.update i (po_outputs out) (dg_outputs st),
          dg_completed := set_add i (dg_completed st)\<rparr>"
        using r x Inr None False n by (auto simp: run_node_def)
      ultimately show ?thesis by (auto simp: recorded_def)
    qed
  qed
qed

lemma fold_run_node_recorded:
  assumes "\<And>i. i \<in> set is \<Longrightarrow> \<exists>n. node_by_id (ps_nodes spec) i = Some n \<and> n_id n = i \<and>
      V i = node_value opts wd ctx spec input V n"
    and "\<And>i e. i \<in> set is \<Longrightarrow> e \<in> set (incoming spec i) \<Longrightarrow> agree V pre e"
    and "fold (run_node opts wd ctx spec input pre) is (err, st) = (err', st')"
  shows "(err' = None \<longleftrightarrow> err = None \<and> (\<forall>i \<in> set is. V i \<noteq> Failed)) \<and>
    (err' = None \<longrightarrow> recorded V (set is) st st')"
  using assms
proof (induction "is" arbitrary: err st)
  case (Cons i "is")
  obtain e s where es: "run_node opts wd ctx spec input pre i (err, st) = (e, s)" by fastforce
  obtain n where n: "node_by_id (ps_nodes spec) i = Some n" "n_id n = i" "V i = node_value opts wd ctx spec input V n"
    using Cons.prems(1) [of i] by auto
  have one: "(V i = Failed \<longrightarrow> e \<noteq> None) \<and> (V i \<noteq> Failed \<longrightarrow> e = err \<and> recorded V {i} st s)"
    by (rule run_node_recorded [OF n(3,1,2) _ es]) (use Cons.prems(2) in auto)
  have rest: "(err' = None \<longleftrightarrow> e = None \<and> (\<forall>i \<in> set is. V i \<noteq> Failed)) \<and>
      (err' = None \<longrightarrow> recorded V (set is) s st')"
  proof (rule Cons.IH)
    show "fold (run_node opts wd ctx spec input pre) is (e, s) = (err', st')" using Cons.prems(3) es by simp
  qed (use Cons.prems(1,2) in auto)
  have keep: "err \<noteq> None \<Longrightarrow> e \<noteq> None"
    using run_node_resolved [OF es] by auto
  show ?case
  proof (cases "V i = Failed")
    case True
    with one rest show ?thesis by auto
  next
    case False
    with one have o: "e = err" "recorded V {i} st s" by auto
    have "err' = None \<longrightarrow> recorded V (set (i # is)) st st'"
      using recorded_trans [OF o(2), of "set is" st'] rest by simp
    with o(1) rest False show ?thesis by auto
  qed
qed (simp add: recorded_refl)

section \<open>Eviction\<close>

text \<open>The consumers of a node that are not resolved yet.\<close>

definition waiting :: "PipelineSpec \<Rightarrow> dag_state \<Rightarrow> string \<Rightarrow> string set" where
  "waiting spec st u = {i. (\<exists>e \<in> set (ps_edges spec). e_from e = u \<and> e_to e = i) \<and> \<not> resolved st i}"

lemma finite_waiting [simp]: "finite (waiting spec st u)"
  by (rule finite_subset [of _ "e_to ` set (ps_edges spec)"]) (auto simp: waiting_def)

abbreviation remaining_of :: "dag_state \<Rightarrow> string \<Rightarrow> int" where
  "remaining_of st u \<equiv> nullish (map_of (dg_remaining st) u) 0"

lemma fold_evict_step:
  "remaining_of (fold (evict_step spec) us st) u = remaining_of st u - int (count_list us u) \<and>
   (map_of (dg_outputs (fold (evict_step spec) us st)) u = map_of (dg_outputs st) u \<or>
      map_of (dg_outputs (fold (evict_step spec) us st)) u = None \<and>
      remaining_of st u \<le> int (count_list us u) \<and> u \<notin> set (evictProtected spec))"
proof (induction us arbitrary: st)
  case (Cons v us)
  let ?st = "evict_step spec v st"
  have r: "remaining_of ?st u = remaining_of st u - (if u = v then 1 else 0)"
    by (simp add: evict_step_def Let_def)
  have d: "map_of (dg_outputs ?st) u = map_of (dg_outputs st) u \<or>
      map_of (dg_outputs ?st) u = None \<and> u = v \<and> remaining_of st u \<le> 1 \<and> u \<notin> set (evictProtected spec)"
    by (auto simp: evict_step_def Let_def)
  from Cons.IH [of ?st] r d show ?case by auto
qed simp

lemma count_sources:
  assumes "distinct is"
  shows "count_list (concat (map (\<lambda>i. js_set (map e_from (incoming spec i))) is)) u =
    card {i \<in> set is. \<exists>e \<in> set (ps_edges spec). e_from e = u \<and> e_to e = i}"
  using assms
proof (induction "is")
  case (Cons i "is")
  have c: "count_list (js_set (map e_from (incoming spec i))) u = (if \<exists>e \<in> set (ps_edges spec). e_from e = u \<and> e_to e = i then 1 else 0)"
  proof -
    have "u \<in> set (js_set (map e_from (incoming spec i))) \<longleftrightarrow> (\<exists>e \<in> set (ps_edges spec). e_from e = u \<and> e_to e = i)"
      by (auto simp: incoming_def)
    moreover have "count_list xs u = (if u \<in> set xs then 1 else 0)" if "distinct xs" for xs :: "string list"
      using that by (induction xs) auto
    ultimately show ?thesis by (simp del: js_set_simps(1) add: js_set_simps(2))
  qed
  let ?P = "\<lambda>i. \<exists>e \<in> set (ps_edges spec). e_from e = u \<and> e_to e = i"
  have "{j \<in> set (i # is). ?P j} = (if ?P i then insert i {j \<in> set is. ?P j} else {j \<in> set is. ?P j})" by auto
  with c Cons show ?case by simp
qed simp

section \<open>The loop invariant\<close>

definition loop_inv :: "PipelineSpec \<Rightarrow> (string \<Rightarrow> node_val) \<Rightarrow> string list \<Rightarrow> dag_state \<Rightarrow> bool" where
  "loop_inv spec V ready st \<longleftrightarrow>
     (distinct (dg_completed st) \<and> distinct (dg_skipped st) \<and> distinct ready) \<and>
     (\<forall>i \<in> set (dg_completed st). i \<in> n_id ` set (ps_nodes spec) \<and> val_outs (V i) \<noteq> None) \<and>
     (\<forall>i \<in> set (dg_skipped st). i \<in> n_id ` set (ps_nodes spec) \<and> V i = Skip) \<and>
     (\<forall>i outs. map_of (dg_outputs st) i = Some outs \<longrightarrow> val_outs (V i) = Some outs) \<and>
     (\<forall>i \<in> set (dg_completed st). output_node spec = None \<or> i \<in> set (evictProtected spec) \<or> waiting spec st i \<noteq> {} \<longrightarrow>
        map_of (dg_outputs st) i = val_outs (V i)) \<and>
     set ready = {i \<in> n_id ` set (ps_nodes spec). \<not> resolved st i \<and> (\<forall>e \<in> set (incoming spec i). resolved st (e_from e))} \<and>
     (output_node spec \<noteq> None \<longrightarrow> (\<forall>u. remaining_of st u = int (card (waiting spec st u))))"

lemma loop_invD:
  assumes "loop_inv spec V ready st"
  shows "distinct (dg_completed st)" "distinct (dg_skipped st)" "distinct ready"
    and "\<And>i. i \<in> set (dg_completed st) \<Longrightarrow> i \<in> n_id ` set (ps_nodes spec) \<and> val_outs (V i) \<noteq> None"
    and "\<And>i. i \<in> set (dg_skipped st) \<Longrightarrow> i \<in> n_id ` set (ps_nodes spec) \<and> V i = Skip"
    and "\<And>i outs. map_of (dg_outputs st) i = Some outs \<Longrightarrow> val_outs (V i) = Some outs"
    and "\<And>i. i \<in> set (dg_completed st) \<Longrightarrow> output_node spec = None \<or> i \<in> set (evictProtected spec) \<or> waiting spec st i \<noteq> {} \<Longrightarrow>
        map_of (dg_outputs st) i = val_outs (V i)"
    and "\<And>i. i \<in> set ready \<longleftrightarrow> i \<in> n_id ` set (ps_nodes spec) \<and> \<not> resolved st i \<and> (\<forall>e \<in> set (incoming spec i). resolved st (e_from e))"
    and "\<And>u. output_node spec \<noteq> None \<Longrightarrow> remaining_of st u = int (card (waiting spec st u))"
  using assms unfolding loop_inv_def by blast+

lemma ready_agree:
  assumes "loop_inv spec V ready st" "i \<in> set ready" "e \<in> set (incoming spec i)"
  shows "agree V st e"
proof -
  note I = loop_invD [OF assms(1)]
  have i: "\<not> resolved st i" "resolved st (e_from e)" using I(8) assms(2,3) by auto
  have w: "i \<in> waiting spec st (e_from e)" using i(1) assms(3) by (auto simp: waiting_def incoming_def)
  show ?thesis
  proof (cases "e_from e \<in> set (dg_skipped st)")
    case True
    then have "V (e_from e) = Skip" using I(5) by blast
    moreover have "map_of (dg_outputs st) (e_from e) = None"
      using I(6) [of "e_from e"] calculation by (cases "map_of (dg_outputs st) (e_from e)") auto
    ultimately show ?thesis by (simp add: agree_def)
  next
    case False
    with i(2) have "e_from e \<in> set (dg_completed st)" by (simp add: resolved_def)
    with I(7) w False show ?thesis by (auto simp: agree_def)
  qed
qed

lemma refill_iff:
  "i \<in> set (refill spec st batch) \<longleftrightarrow> \<not> resolved st i \<and> (\<forall>e \<in> set (incoming spec i). resolved st (e_from e)) \<and>
     (\<exists>e \<in> set (ps_edges spec). e_from e \<in> set batch \<and> e_to e = i)"
  "distinct (refill spec st batch)"
proof -
  have "i \<in> set (fold (refill_step spec st) es r) \<longleftrightarrow> i \<in> set r \<or>
      \<not> resolved st i \<and> (\<forall>e \<in> set (incoming spec i). resolved st (e_from e)) \<and> (\<exists>e \<in> set es. e_to e = i)" for es r
    by (induction es arbitrary: r) (auto simp: refill_step_def list_all_iff)
  from this [of "concat (map (outgoing spec) batch)" "[]"]
  show "i \<in> set (refill spec st batch) \<longleftrightarrow> \<not> resolved st i \<and> (\<forall>e \<in> set (incoming spec i). resolved st (e_from e)) \<and>
     (\<exists>e \<in> set (ps_edges spec). e_from e \<in> set batch \<and> e_to e = i)"
    by (auto simp: refill_def outgoing_def)
  have "distinct r \<Longrightarrow> distinct (fold (refill_step spec st) es r)" for es r
    by (induction es arbitrary: r) (auto simp: refill_step_def)
  then show "distinct (refill spec st batch)" by (simp add: refill_def)
qed

lemma loop_inv_init: "graph_ok spec \<Longrightarrow> loop_inv spec V (ready0 spec) (dag_state0 spec rt)"
proof -
  assume g: "graph_ok spec"
  have none: "\<not> resolved (dag_state0 spec rt) i" for i by (simp add: resolved_def dag_state0_def)
  have m: "map_of (map (\<lambda>u. (u, f u)) us) u = (if u \<in> set us then Some (f u) else None)" for us :: "string list" and f :: "string \<Rightarrow> int" and u
    by (induction us) auto
  have rem: "remaining_of (dag_state0 spec rt) u = int (card (waiting spec (dag_state0 spec rt) u))" for u
  proof -
    have w: "waiting spec (dag_state0 spec rt) u = set (js_set (map e_to (outgoing spec u)))"
      using none by (auto simp: waiting_def outgoing_def)
    have "card (set (js_set (map e_to (outgoing spec u)))) = length (js_set (map e_to (outgoing spec u)))"
      by (rule distinct_card) simp
    moreover have "outgoing spec u = []" if "u \<notin> e_from ` set (ps_edges spec)"
      using that by (auto simp: outgoing_def filter_empty_conv)
    ultimately show ?thesis
      unfolding w by (auto simp: dag_state0_def remainingConsumers_def m js_set_def)
  qed
  have "distinct (ready0 spec)" using g by (simp add: ready0_def graph_ok_def distinct_map_filter)
  moreover have "set (ready0 spec) = {i \<in> n_id ` set (ps_nodes spec). \<not> resolved (dag_state0 spec rt) i \<and>
      (\<forall>e \<in> set (incoming spec i). resolved (dag_state0 spec rt) (e_from e))}"
    using none by (auto simp: ready0_def)
  ultimately show ?thesis
    using rem unfolding loop_inv_def by (simp add: dag_state0_def)
qed

text \<open>Resolution, waiting consumers and values after a batch without failure.\<close>

lemma batch_resolved:
  assumes "recorded V (set ready) st st1" "\<forall>i \<in> set ready. V i \<noteq> Failed"
  shows "resolved st1 i \<longleftrightarrow> resolved st i \<or> i \<in> set ready"
proof -
  have "i \<in> set ready \<Longrightarrow> val_outs (V i) \<noteq> None \<or> V i = Skip"
    using assms(2) by (cases "V i") auto
  then show ?thesis using assms(1) unfolding recorded_def resolved_def by auto
qed

lemma evicted_outputs:
  assumes "loop_inv spec V ready st" "recorded V (set ready) st st1" "\<forall>i \<in> set ready. V i \<noteq> Failed"
  shows "map_of (dg_outputs (evict spec ready st1)) u = map_of (dg_outputs st1) u \<or>
      map_of (dg_outputs (evict spec ready st1)) u = None \<and> output_node spec \<noteq> None \<and>
      waiting spec st1 u = {} \<and> u \<notin> set (evictProtected spec)"
    and "output_node spec \<noteq> None \<Longrightarrow> remaining_of (evict spec ready st1) u = int (card (waiting spec st1 u))"
proof -
  note I = loop_invD [OF assms(1)]
  let ?us = "concat (map (\<lambda>i. js_set (map e_from (incoming spec i))) ready)"
  let ?now = "{i \<in> set ready. \<exists>e \<in> set (ps_edges spec). e_from e = u \<and> e_to e = i}"
  have split: "waiting spec st u = waiting spec st1 u \<union> ?now" "waiting spec st1 u \<inter> ?now = {}"
    using batch_resolved [OF assms(2,3)] I(8) by (auto simp: waiting_def)
  then have card: "card (waiting spec st u) = card (waiting spec st1 u) + card ?now"
    by (simp add: card_Un_disjoint)
  have count: "count_list ?us u = card ?now" by (rule count_sources [OF I(3)])
  have rem: "remaining_of st1 u = remaining_of st u" using assms(2) by (simp add: recorded_def)
  show "remaining_of (evict spec ready st1) u = int (card (waiting spec st1 u))" if "output_node spec \<noteq> None"
  proof -
    have "evict spec ready st1 = fold (evict_step spec) ?us st1" using that by (auto simp: evict_def)
    then show ?thesis
      using fold_evict_step [of spec ?us st1 u, THEN conjunct1] I(9) [OF that, of u] rem card count by simp
  qed
  show "map_of (dg_outputs (evict spec ready st1)) u = map_of (dg_outputs st1) u \<or>
      map_of (dg_outputs (evict spec ready st1)) u = None \<and> output_node spec \<noteq> None \<and>
      waiting spec st1 u = {} \<and> u \<notin> set (evictProtected spec)"
  proof (cases "output_node spec = None")
    case False
    have "waiting spec st1 u = {}" if "remaining_of st1 u \<le> int (count_list ?us u)"
    proof -
      have "card (waiting spec st1 u) = 0" using that I(9) [OF False, of u] rem card count by linarith
      then show ?thesis by simp
    qed
    moreover have "evict spec ready st1 = fold (evict_step spec) ?us st1" using False by (auto simp: evict_def)
    ultimately show ?thesis
      using fold_evict_step [of spec ?us st1 u, THEN conjunct2] False by metis
  qed (simp add: evict_def)
qed

lemma loop_inv_step:
  assumes g: "graph_ok spec" and inv: "loop_inv spec V ready st"
    and rec: "recorded V (set ready) st st1" and nf: "\<forall>i \<in> set ready. V i \<noteq> Failed"
  shows "loop_inv spec V (refill spec st1 ready) (evict spec ready st1)"
proof -
  note I = loop_invD [OF inv]
  let ?st2 = "evict spec ready st1"
  have r1: "resolved st1 i \<longleftrightarrow> resolved st i \<or> i \<in> set ready" for i
    by (rule batch_resolved [OF rec nf])
  have w2: "waiting spec ?st2 u = waiting spec st1 u" for u by (simp add: waiting_def)
  have out1: "map_of (dg_outputs st1) j =
      (if j \<in> set ready \<and> val_outs (V j) \<noteq> None then val_outs (V j) else map_of (dg_outputs st) j)" for j
    using rec by (simp add: recorded_def)
  have c1: "set (dg_completed st1) = set (dg_completed st) \<union> {i \<in> set ready. val_outs (V i) \<noteq> None}"
    "set (dg_skipped st1) = set (dg_skipped st) \<union> {i \<in> set ready. V i = Skip}"
    "distinct (dg_completed st1)" "distinct (dg_skipped st1)"
    using rec I(1,2) by (simp_all add: recorded_def)
  have vals: "val_outs (V i) = Some outs" if "map_of (dg_outputs ?st2) i = Some outs" for i outs
  proof -
    have "map_of (dg_outputs st1) i = Some outs"
      using evicted_outputs(1) [OF inv rec nf, of i] that by auto
    then show ?thesis using out1 [of i] I(6) [of i outs] by (auto split: if_splits)
  qed
  have kept: "map_of (dg_outputs ?st2) i = val_outs (V i)"
    if i: "i \<in> set (dg_completed st1)" "output_node spec = None \<or> i \<in> set (evictProtected spec) \<or> waiting spec st1 i \<noteq> {}" for i
  proof -
    have "map_of (dg_outputs st1) i = val_outs (V i)"
    proof (cases "i \<in> set ready \<and> val_outs (V i) \<noteq> None")
      case False
      with i(1) c1(1) have "i \<in> set (dg_completed st)" by auto
      moreover have "waiting spec st1 i \<subseteq> waiting spec st i" using r1 by (auto simp: waiting_def)
      ultimately have "map_of (dg_outputs st) i = val_outs (V i)" using I(7) [of i] i(2) by blast
      with False out1 [of i] show ?thesis by auto
    qed (use out1 [of i] in simp)
    then show ?thesis using evicted_outputs(1) [OF inv rec nf, of i] i(2) by auto
  qed
  have nodes: "e_from e \<in> n_id ` set (ps_nodes spec) \<and> e_to e \<in> n_id ` set (ps_nodes spec)"
    if "e \<in> set (ps_edges spec)" for e
    using g that unfolding graph_ok_def by blast
  have ready: "i \<in> set (refill spec st1 ready) \<longleftrightarrow>
      i \<in> n_id ` set (ps_nodes spec) \<and> \<not> resolved st1 i \<and> (\<forall>e \<in> set (incoming spec i). resolved st1 (e_from e))" for i
  proof
    assume "i \<in> set (refill spec st1 ready)"
    then show "i \<in> n_id ` set (ps_nodes spec) \<and> \<not> resolved st1 i \<and> (\<forall>e \<in> set (incoming spec i). resolved st1 (e_from e))"
      unfolding refill_iff using nodes by blast
  next
    assume a: "i \<in> n_id ` set (ps_nodes spec) \<and> \<not> resolved st1 i \<and> (\<forall>e \<in> set (incoming spec i). resolved st1 (e_from e))"
    then have "i \<notin> set ready" "\<not> resolved st i" using r1 by blast+
    then obtain e where e: "e \<in> set (incoming spec i)" "\<not> resolved st (e_from e)" using I(8) a by blast
    then have "e_from e \<in> set ready" using a r1 by blast
    with a e(1) show "i \<in> set (refill spec st1 ready)"
      unfolding refill_iff by (auto simp: incoming_def)
  qed
  have rem: "remaining_of ?st2 u = int (card (waiting spec ?st2 u))" if "output_node spec \<noteq> None" for u
    using evicted_outputs(2) [OF inv rec nf that] w2 by simp
  show ?thesis
    unfolding loop_inv_def
  proof (intro conjI)
    show "set (refill spec st1 ready) = {i \<in> n_id ` set (ps_nodes spec). \<not> resolved ?st2 i \<and>
        (\<forall>e \<in> set (incoming spec i). resolved ?st2 (e_from e))}"
      using ready by auto
    show "\<forall>i \<in> set (dg_completed ?st2). i \<in> n_id ` set (ps_nodes spec) \<and> val_outs (V i) \<noteq> None"
      using c1(1) I(4,8) by auto
    show "\<forall>i \<in> set (dg_skipped ?st2). i \<in> n_id ` set (ps_nodes spec) \<and> V i = Skip"
      using c1(2) I(5,8) by auto
    show "\<forall>i outs. map_of (dg_outputs ?st2) i = Some outs \<longrightarrow> val_outs (V i) = Some outs"
      using vals by blast
    show "\<forall>i \<in> set (dg_completed ?st2). output_node spec = None \<or> i \<in> set (evictProtected spec) \<or> waiting spec ?st2 i \<noteq> {} \<longrightarrow>
        map_of (dg_outputs ?st2) i = val_outs (V i)"
      using kept w2 by simp
    show "output_node spec \<noteq> None \<longrightarrow> (\<forall>u. remaining_of ?st2 u = int (card (waiting spec ?st2 u)))"
      using rem by blast
  qed (use c1(3,4) refill_iff(2) in simp_all)
qed

section \<open>The whole loop\<close>

lemma run_batch_recorded:
  assumes g: "graph_ok spec" and df: "dataflow opts wd ctx spec input V" and inv: "loop_inv spec V ready st"
    and run: "run_batch opts wd ctx spec input k ready st = (err, st1)"
  shows "(err = None \<longleftrightarrow> (\<forall>i \<in> set ready. V i \<noteq> Failed)) \<and> (err = None \<longrightarrow> recorded V (set ready) st st1)"
proof -
  have "\<exists>n. node_by_id (ps_nodes spec) i = Some n \<and> n_id n = i \<and> V i = node_value opts wd ctx spec input V n"
    if "i \<in> set (order_of wd k ready)" for i
  proof -
    from that loop_invD(8) [OF inv] obtain n where n: "n \<in> set (ps_nodes spec)" "i = n_id n" by auto
    with df have "V i = node_value opts wd ctx spec input V n" unfolding dataflow_def by blast
    with n node_by_id_iff [OF g, of i n] show ?thesis by blast
  qed
  moreover have "agree V st e" if "i \<in> set (order_of wd k ready)" "e \<in> set (incoming spec i)" for i e
    using ready_agree [OF inv _ that(2)] that(1) by simp
  ultimately have "(err = None \<longleftrightarrow> None = (None :: run_error option) \<and> (\<forall>i \<in> set (order_of wd k ready). V i \<noteq> Failed)) \<and>
    (err = None \<longrightarrow> recorded V (set (order_of wd k ready)) st st1)"
    by (intro fold_run_node_recorded) (use run in \<open>auto simp: run_batch_def\<close>)
  then show ?thesis by simp
qed

lemma dag_loop_inv:
  "graph_ok spec \<Longrightarrow> dataflow opts wd ctx spec input V \<Longrightarrow> loop_inv spec V ready st \<Longrightarrow>
     dag_loop opts wd ctx spec input k ready st = (err, st') \<Longrightarrow>
     (err = None \<longrightarrow> loop_inv spec V [] st') \<and> (err \<noteq> None \<longrightarrow> (\<exists>n \<in> set (ps_nodes spec). V (n_id n) = Failed))"
proof (induction opts wd ctx spec input k ready st rule: dag_loop.induct)
  case (1 opts wd ctx spec input k ready st)
  obtain e st1 where b: "run_batch opts wd ctx spec input k ready st = (e, st1)" by fastforce
  note rb = run_batch_recorded [OF "1.prems"(1-3) b]
  show ?case
  proof (cases "ready = []")
    case True
    with "1.prems"(3,4) show ?thesis by (simp add: dag_loop.simps)
  next
    case ne: False
    show ?thesis
    proof (cases e)
      case None
      with "1.prems"(4) ne b have l: "dag_loop opts wd ctx spec input (Suc k) (refill spec st1 ready) (evict spec ready st1) = (err, st')"
        by (subst (asm) dag_loop.simps) simp
      have inv: "loop_inv spec V (refill spec st1 ready) (evict spec ready st1)"
        by (rule loop_inv_step [OF "1.prems"(1,3)]) (use rb None in blast)+
      show ?thesis
        by (rule "1.IH" [OF ne b [symmetric] None "1.prems"(1,2) inv l])
    next
      case (Some x)
      with "1.prems"(4) ne b have "err = Some x" by (subst (asm) dag_loop.simps) simp
      moreover from rb Some obtain i where "i \<in> set ready" "V i = Failed" by auto
      ultimately show ?thesis using loop_invD(8) [OF "1.prems"(3)] by auto
    qed
  qed
qed

lemma final_resolved:
  assumes "graph_ok spec" "loop_inv spec V [] st" "n \<in> set (ps_nodes spec)"
  shows "resolved st (n_id n)"
  using assms(3)
proof (induction "n_id n" arbitrary: n rule: wf_induct_rule [OF wf_edge_pairs [OF assms(1)]])
  case 1
  have "resolved st (e_from e)" if e: "e \<in> set (incoming spec (n_id n))" for e
  proof -
    have p: "(e_from e, n_id n) \<in> edge_pairs spec" "e \<in> set (ps_edges spec)" using e by (auto simp: incoming_def)
    then obtain m where m: "m \<in> set (ps_nodes spec)" "e_from e = n_id m"
      using assms(1) unfolding graph_ok_def by blast
    from "1.hyps"(1) [OF p(1) [unfolded m(2)] m(1)] show ?thesis by (simp add: m(2))
  qed
  with loop_invD(8) [OF assms(2), of "n_id n"] "1.prems" show ?case by auto
qed

section \<open>Reading the final state\<close>

lemma final_sets:
  assumes "graph_ok spec" "loop_inv spec V [] st"
  shows "set (dg_completed st) = n_id ` {n \<in> set (ps_nodes spec). val_outs (V (n_id n)) \<noteq> None}"
    and "set (dg_skipped st) = n_id ` {n \<in> set (ps_nodes spec). V (n_id n) = Skip}"
    and "\<And>n. n \<in> set (ps_nodes spec) \<Longrightarrow> V (n_id n) \<noteq> Failed"
proof -
  note I = loop_invD [OF assms(2)]
  have r: "n_id n \<in> set (dg_completed st) \<or> n_id n \<in> set (dg_skipped st)" if "n \<in> set (ps_nodes spec)" for n
    using final_resolved [OF assms that] by (simp add: resolved_def)
  show "set (dg_completed st) = n_id ` {n \<in> set (ps_nodes spec). val_outs (V (n_id n)) \<noteq> None}"
    using r I(4,5) by fastforce
  show "set (dg_skipped st) = n_id ` {n \<in> set (ps_nodes spec). V (n_id n) = Skip}"
    using r I(4,5) by fastforce
  show "V (n_id n) \<noteq> Failed" if "n \<in> set (ps_nodes spec)" for n
    using r [OF that] I(4,5) by fastforce
qed

lemma length_of_ids:
  assumes "distinct (map n_id ns)" "distinct is" "set is = n_id ` {n \<in> set ns. P n}"
  shows "length is = length (filter P ns)"
proof -
  have "distinct (map n_id (filter P ns))" using assms(1) by (simp add: distinct_map_filter)
  moreover have "set (map n_id (filter P ns)) = set is" using assms(3) by auto
  ultimately show ?thesis using assms(2) by (metis distinct_card length_map)
qed

lemma summary_of_final:
  assumes g: "graph_ok spec" and inv: "loop_inv spec V [] st"
  shows "summary_of spec st = val_summary spec V"
proof -
  note I = loop_invD [OF inv] and S = final_sets [OF g inv]
  let ?done = "filter (\<lambda>n. val_outs (V (n_id n)) \<noteq> None) (ps_nodes spec)"
  let ?skipped = "filter (\<lambda>n. V (n_id n) = Skip) (ps_nodes spec)"
  have d: "distinct (map n_id (ps_nodes spec))" using g by (simp add: graph_ok_def)
  have a: "length (dg_completed st) = length ?done" by (rule length_of_ids [OF d I(1) S(1)])
  have b: "length (dg_skipped st) = length ?skipped" by (rule length_of_ids [OF d I(2) S(2)])
  have c: "length (filter (\<lambda>i. incoming spec i \<noteq> []) (dg_completed st)) = 0 \<longleftrightarrow>
      filter (\<lambda>n. incoming spec (n_id n) \<noteq> []) ?done = []"
    using S(1) by (auto simp: filter_empty_conv)
  have "0 < length (dg_completed st) \<longleftrightarrow> ?done \<noteq> []" "0 < length (dg_skipped st) \<longleftrightarrow> ?skipped \<noteq> []"
    unfolding a b by simp_all
  with a b c show ?thesis
    unfolding summary_of_def val_summary_def Let_def by (simp only: HOL.refl)
qed

lemma pickOutput_final:
  assumes g: "graph_ok spec" and inv: "loop_inv spec V [] st"
  shows "pickOutput spec st = val_output spec V"
proof (cases "output_node spec")
  case None
  note I = loop_invD [OF inv] and S = final_sets [OF g inv]
  have P: "n_id n \<in> set (dg_completed st) \<longleftrightarrow> val_outs (V (n_id n)) \<noteq> None" if "n \<in> set (ps_nodes spec)" for n
    using that I(4) S(1) by blast
  have f: "find (\<lambda>n. n_id n \<in> set (dg_completed st)) (rev (ps_nodes spec)) =
      find (\<lambda>n. val_outs (V (n_id n)) \<noteq> None) (rev (ps_nodes spec))"
    by (rule find_cong) (simp_all add: P)
  show ?thesis
  proof (cases "find (\<lambda>n. val_outs (V (n_id n)) \<noteq> None) (rev (ps_nodes spec))")
    case (Some n)
    then have n: "n \<in> set (ps_nodes spec)" "val_outs (V (n_id n)) \<noteq> None" by (auto dest: find_SomeD)
    then have "map_of (dg_outputs st) (n_id n) = val_outs (V (n_id n))" using I(7) P None by blast
    with Some f None show ?thesis by (simp add: pickOutput_def val_output_def)
  qed (use f None in \<open>simp add: pickOutput_def val_output_def\<close>)
next
  case (Some n)
  note I = loop_invD [OF inv] and S = final_sets [OF g inv]
  have n: "n \<in> set (ps_nodes spec)" using Some by (auto simp: output_node_def dest: find_SomeD)
  have out: "map_of (dg_outputs st) i = val_outs (V i) \<and> (i \<in> set (dg_skipped st) \<longrightarrow> V i = Skip)"
    if i: "i \<in> n_id ` set (ps_nodes spec)" "i \<in> set (evictProtected spec)" for i
  proof (cases "i \<in> set (dg_completed st)")
    case True
    with I(5,7) i(2) show ?thesis by blast
  next
    case False
    with i(1) final_resolved [OF g inv] have "i \<in> set (dg_skipped st)" by (auto simp: resolved_def)
    then have "V i = Skip" using I(5) by blast
    with I(6) [of i] show ?thesis by (cases "map_of (dg_outputs st) i") auto
  qed
  have ag: "agree V st e" if e: "e \<in> set (incoming spec (n_id n))" for e
  proof -
    have "e_from e \<in> n_id ` set (ps_nodes spec)" using g e unfolding graph_ok_def incoming_def by auto
    moreover have "e_from e \<in> set (evictProtected spec)" using Some e by (simp add: evictProtected_def)
    ultimately show ?thesis using out by (simp add: agree_def)
  qed
  then have f: "filter (\<lambda>e. isEdgeLive e (dg_outputs st) (dg_skipped st)) (incoming spec (n_id n)) =
      filter (live V) (incoming spec (n_id n))"
    by (intro filter_cong) (auto simp: isEdgeLive_live)
  have sk: "n_id n \<in> set (dg_skipped st) \<longleftrightarrow> V (n_id n) = Skip"
    using n S(2) I(5) by blast
  have own: "map_of (dg_outputs st) (n_id n) = val_outs (V (n_id n))"
    using out [of "n_id n"] n Some by (simp add: evictProtected_def)
  show ?thesis
  proof (cases "filter (live V) (incoming spec (n_id n))")
    case Nil
    with f sk own Some show ?thesis by (simp add: pickOutput_def val_output_def)
  next
    case (Cons e es)
    then have "e \<in> set (incoming spec (n_id n))" by (metis filter_eq_ConsD')
    with ag have "map_of (dg_outputs st) (e_from e) = val_outs (V (e_from e))" by (simp add: agree_def)
    with f sk Cons Some show ?thesis by (simp add: pickOutput_def val_output_def)
  qed
qed

lemma runDag_value:
  assumes "graph_ok spec" "dataflow opts wd ctx spec input V"
  shows "(\<forall>n \<in> set (ps_nodes spec). V (n_id n) \<noteq> Failed) \<Longrightarrow>
      fst (runDag opts wd ctx spec input rt) = Inr (val_output spec V, val_summary spec V)"
    and "\<not> (\<forall>n \<in> set (ps_nodes spec). V (n_id n) \<noteq> Failed) \<Longrightarrow> \<exists>e. fst (runDag opts wd ctx spec input rt) = Inl e"
proof -
  obtain err st where l: "dag_loop opts wd ctx spec input 0 (ready0 spec) (dag_state0 spec rt) = (err, st)" by fastforce
  note inv = dag_loop_inv [OF assms loop_inv_init [OF assms(1)] l]
  show "fst (runDag opts wd ctx spec input rt) = Inr (val_output spec V, val_summary spec V)"
    if "\<forall>n \<in> set (ps_nodes spec). V (n_id n) \<noteq> Failed"
  proof -
    from inv that have "err = None" "loop_inv spec V [] st" by (cases err; blast)+
    with l pickOutput_final [OF assms(1)] summary_of_final [OF assms(1)] show ?thesis by (simp add: runDag_def)
  qed
  show "\<exists>e. fst (runDag opts wd ctx spec input rt) = Inl e"
    if "\<not> (\<forall>n \<in> set (ps_nodes spec). V (n_id n) \<noteq> Failed)"
  proof (cases err)
    case None
    with inv have "loop_inv spec V [] st" by blast
    with that final_sets(3) [OF assms(1)] show ?thesis by blast
  qed (use l in \<open>simp add: runDag_def\<close>)
qed

lemma val_summary_counts:
  assumes "\<forall>n \<in> set (ps_nodes spec). V (n_id n) \<noteq> Failed"
  shows "sm_nodesCompleted (val_summary spec V) + sm_nodesSkipped (val_summary spec V) = sm_nodesTotal (val_summary spec V)"
proof -
  have "length (filter (\<lambda>n. val_outs (V (n_id n)) \<noteq> None) ns) + length (filter (\<lambda>n. V (n_id n) = Skip) ns) = length ns"
    if "\<forall>n \<in> set ns. V (n_id n) \<noteq> Failed" for ns :: "PipelineNode list"
    using that
  proof (induction ns)
    case (Cons n ns)
    then show ?case by (cases "V (n_id n)") auto
  qed simp
  with assms show ?thesis by (simp add: val_summary_def Let_def)
qed

end
