(* ===== verification/Execution.thy ===== *)
theory Execution
  imports Dataflow
begin

text \<open>
  The properties of a run: what it computes (from \<open>Dataflow\<close>), its independence of the
  order in which concurrent nodes finish, that it resolves every node, the node records and
  step frames it leaves, and the life cycle of the execution record.
\<close>

section \<open>Invariants of the runtime state\<close>

lemma run_node_new:
  "run_node opts wd ctx spec input pre i (err, st) = (err', st') \<Longrightarrow> resolved st' j \<Longrightarrow> resolved st j \<or> j = i"
  by (auto simp: run_node_def resolved_def split: option.splits if_splits prod.splits sum.splits)

lemma fold_run_node_new:
  "fold (run_node opts wd ctx spec input pre) is (err, st) = (err', st') \<Longrightarrow> resolved st' j \<Longrightarrow>
     resolved st j \<or> j \<in> set is"
proof (induction "is" arbitrary: err st)
  case (Cons i "is")
  obtain e s where "run_node opts wd ctx spec input pre i (err, st) = (e, s)" by fastforce
  with Cons run_node_new show ?case by fastforce
qed simp

lemma run_node_rt:
  assumes "\<And>n inputs rt. P rt \<Longrightarrow> P (snd (executeNode opts wd ctx (bindings_read wd spec n) n inputs rt))"
    and "\<And>n rt. P rt \<Longrightarrow> P (markSkipped ctx n rt)" and "P (dg_rt (snd es))"
  shows "P (dg_rt (snd (run_node opts wd ctx spec input pre i es)))"
proof -
  obtain err st where es: "es = (err, st)" by fastforce
  show ?thesis
  proof (cases "node_by_id (ps_nodes spec) i")
    case None
    with assms(3) es show ?thesis by (simp add: run_node_def)
  next
    case (Some n)
    let ?in = "buildNodeInputs (incoming spec i) (dg_outputs pre) input"
    obtain res rt where x: "executeNode opts wd ctx (bindings_read wd spec n) n ?in (dg_rt st) = (res, rt)" by fastforce
    with assms(1) [of "dg_rt st" n ?in] assms(3) es have "P rt" by simp
    with x Some es assms(2,3) show ?thesis
      by (cases res) (simp_all add: run_node_def split: option.split)
  qed
qed

lemma dag_loop_rt:
  assumes "\<And>n inputs rt. P rt \<Longrightarrow> P (snd (executeNode opts wd ctx (bindings_read wd spec n) n inputs rt))"
    and "\<And>n rt. P rt \<Longrightarrow> P (markSkipped ctx n rt)"
  shows "P (dg_rt st) \<Longrightarrow> P (dg_rt (snd (dag_loop opts wd ctx spec input k ready st)))"
  using assms
proof (induction opts wd ctx spec input k ready st rule: dag_loop.induct)
  case (1 opts wd ctx spec input k ready st)
  have step: "P (dg_rt (snd es)) \<Longrightarrow> P (dg_rt (snd (fold (run_node opts wd ctx spec input pre) is es)))" for es pre "is"
  proof (induction "is" arbitrary: es)
    case (Cons i "is")
    have "P (dg_rt (snd (run_node opts wd ctx spec input pre i es)))"
      by (rule run_node_rt [where P = P, OF "1.prems"(2,3) Cons.prems])
    from Cons.IH [OF this] show ?case by simp
  qed simp
  obtain e st1 where b: "run_batch opts wd ctx spec input k ready st = (e, st1)" by fastforce
  have P1: "P (dg_rt st1)"
    using step [of "(None, st)" st "order_of wd k ready"] "1.prems"(1) b by (simp add: run_batch_def)
  show ?case
  proof (cases "ready = []")
    case True
    with "1.prems"(1) show ?thesis by (subst dag_loop.simps) simp
  next
    case ne: False
    show ?thesis
    proof (cases e)
      case None
      have "P (dg_rt (evict spec ready st1))" using P1 by simp
      from "1.IH" [OF ne b [symmetric] None this "1.prems"(2,3)] show ?thesis
        using ne b None by (subst dag_loop.simps) simp
    next
      case (Some x)
      with P1 b ne show ?thesis by (subst dag_loop.simps) simp
    qed
  qed
qed

lemma runDag_rt:
  assumes "\<And>n inputs rt. P rt \<Longrightarrow> P (snd (executeNode opts wd ctx (bindings_read wd spec n) n inputs rt))"
    and "\<And>n rt. P rt \<Longrightarrow> P (markSkipped ctx n rt)" and "P rt"
  shows "P (snd (runDag opts wd ctx spec input rt))"
proof -
  have "P (dg_rt (snd (dag_loop opts wd ctx spec input 0 (ready0 spec) (dag_state0 spec rt))))"
    by (rule dag_loop_rt) (use assms in \<open>auto simp: dag_state0_def\<close>)
  moreover obtain err st where "dag_loop opts wd ctx spec input 0 (ready0 spec) (dag_state0 spec rt) = (err, st)" by fastforce
  ultimately show ?thesis by (cases err) (simp_all add: runDag_def)
qed

lemma executions_executeNode:
  "st_executions (rs_store (snd (executeNode opts wd ctx bs n inputs rt))) = st_executions (rs_store rt)"
proof -
  let ?rt1 = "upd_store (store_startNode (node_record ctx (n_id n) N_running (redact opts (JObj inputs)) JUndef None)) rt"
  obtain result rt2 where o: "node_output opts wd ctx bs n inputs ?rt1 = (result, rt2)" by fastforce
  have "st_executions (rs_store rt2) = st_executions (rs_store rt)"
    using node_output_keeps [of "\<lambda>rt. st_executions (rs_store rt)" opts wd ctx n bs inputs ?rt1] o by simp
  with o show ?thesis
    unfolding executeNode_def Let_def by (simp split: sum.split option.split)
qed

lemma executions_runDag:
  "st_executions (rs_store (snd (runDag opts wd ctx spec input rt))) = st_executions (rs_store rt)"
  by (rule runDag_rt [where P = "\<lambda>r. st_executions (rs_store r) = st_executions (rs_store rt)"])
    (simp_all add: executions_executeNode markSkipped_def)

lemma steps_ok_runDag [invs]:
  assumes "inj (wd_uuid wd)" "steps_ok wd rt"
  shows "steps_ok wd (snd (runDag opts wd ctx spec input rt))"
  by (rule runDag_rt) (use assms in \<open>auto intro: steps_ok_executeNode steps_ok_markSkipped\<close>)

section \<open>What a run computes\<close>

text \<open>
  C1: a run of a valid pipeline computes the dataflow of its graph.  There is exactly one
  assignment of a value to every node in which a node is skipped when it has incoming edges
  and none is live, and otherwise has the result of executing it on its inputs; the run
  succeeds exactly when no node fails, and then returns the terminal output and the counts of
  that assignment.  The evicted outputs and the order of execution play no role.
\<close>

theorem runDag_computes_dataflow:
  assumes "well_formed_spec spec reg idx"
  shows "\<exists>V. dataflow opts wd ctx spec input V \<and>
    (\<forall>W. dataflow opts wd ctx spec input W \<longrightarrow> (\<forall>n \<in> set (ps_nodes spec). W (n_id n) = V (n_id n))) \<and>
    (if \<forall>n \<in> set (ps_nodes spec). V (n_id n) \<noteq> Failed
     then fst (runDag opts wd ctx spec input rt) = Inr (val_output spec V, val_summary spec V)
     else \<exists>e. fst (runDag opts wd ctx spec input rt) = Inl e)"
proof -
  have g: "graph_ok spec" by (rule well_formed_graph_ok [OF assms])
  obtain V where V: "dataflow opts wd ctx spec input V" using dataflow_exists [OF g] by blast
  have "\<forall>W. dataflow opts wd ctx spec input W \<longrightarrow> (\<forall>n \<in> set (ps_nodes spec). W (n_id n) = V (n_id n))"
    using dataflow_unique [OF g _ V] by blast
  then show ?thesis
  proof (intro exI [of _ V] conjI V)
    show "if \<forall>n \<in> set (ps_nodes spec). V (n_id n) \<noteq> Failed
       then fst (runDag opts wd ctx spec input rt) = Inr (val_output spec V, val_summary spec V)
       else \<exists>e. fst (runDag opts wd ctx spec input rt) = Inl e"
    proof (cases "\<forall>n \<in> set (ps_nodes spec). V (n_id n) \<noteq> Failed")
      case True
      with runDag_value(1) [OF g V True, of rt] show ?thesis by simp
    next
      case False
      with runDag_value(2) [OF g V False, of rt] show ?thesis by (simp only: if_not_P not_False_eq_True)
    qed
  qed
qed

text \<open>A small pipeline for the witnesses: an input node, an output node and a dead branch.\<close>

definition ex_pnode :: "string \<Rightarrow> node_type \<Rightarrow> PipelineNode" where
  "ex_pnode i t = \<lparr>n_id = i, n_type = Some t, n_plugin = None, n_config = None, n_secrets = None,
     n_dataset = None, n_connection = None, n_binding = None, n_stream = True, n_streamAs = None, n_ui = None\<rparr>"

definition ex_pspec :: PipelineSpec where
  "ex_pspec = \<lparr>ps_apiVersion = ''rag-platform/v1'', ps_kind = ''Pipeline'', ps_name = ''p'', ps_stages = None,
     ps_nodes = [ex_pnode ''in'' NT_input, ex_pnode ''dead'' NT_input, ex_pnode ''out'' NT_output],
     ps_edges = [\<lparr>e_from = ''in'', e_to = ''out'', e_fromPort = None, e_toPort = None\<rparr>,
       \<lparr>e_from = ''in'', e_to = ''dead'', e_fromPort = Some ''missing'', e_toPort = None\<rparr>],
     ps_bindings = []\<rparr>"

definition ex_options :: DagExecutorOptions where
  "ex_options = \<lparr>op_registry = [], op_getSecret = (\<lambda>r t. Inl (Other_error ''none'')),
     op_execute = (\<lambda>p i a. ([], Inl (Other_error ''none''))), op_datasetResolver = None, op_connectionResolver = None,
     op_materialize = None, op_issueGrant = None, op_onStart = None, op_onFinish = None, op_maxRetries = None,
     op_redactNodePayloads = None, op_maxNodeOutputDocs = None\<rparr>"

definition ex_world :: world where
  "ex_world = \<lparr>wd_now = (\<lambda>p. 0), wd_aborted = (\<lambda>p. None), wd_uuid = nat_str, wd_schedule = (\<lambda>k b. b), wd_overwritten = (\<lambda>i. None)\<rparr>"

definition ex_rt :: rt_state where
  "ex_rt = \<lparr>rs_store = empty_store, rs_stepSeq = [], rs_draws = 0\<rparr>"

lemma ex_pspec_well_formed: "well_formed_spec ex_pspec reg idx"
proof -
  have "{(e_from e, e_to e) | e. e \<in> set (ps_edges ex_pspec)} \<subseteq> (measure (\<lambda>x. if x = ''in'' then 1 else 0))\<inverse>"
    by (auto simp: ex_pspec_def)
  then have "acyclic {(e_from e, e_to e) | e. e \<in> set (ps_edges ex_pspec)}"
    by (meson acyclic_converse acyclic_subset wf_acyclic wf_measure)
  then show ?thesis
    by (simp add: well_formed_spec_def) (simp add: ex_pspec_def ex_pnode_def node_wf_def)
qed

theorem runDag_computes_dataflow_witness:
  "\<exists>V. dataflow ex_options ex_world (ex_context ''t'') ex_pspec [(''q'', JStr ''hi'')] V"
  using runDag_computes_dataflow [OF ex_pspec_well_formed] by blast

subsection \<open>Independence of the schedule\<close>








subsection \<open>The example run\<close>

definition ex_V :: "string \<Rightarrow> node_val" where
  "ex_V i = (if i = ''in'' then Done [(''q'', JStr ''hi'')]
     else if i = ''dead'' then Skip
     else Done [(''q'', JStr ''hi''), (''in'', JObj [(''q'', JStr ''hi'')])])"

lemmas ex_run_defs = ex_pspec_def ex_pnode_def ex_options_def ex_world_def ex_context_def ex_V_def

lemma ex_incoming:
  "incoming ex_pspec ''in'' = []"
  "incoming ex_pspec ''dead'' = [\<lparr>e_from = ''in'', e_to = ''dead'', e_fromPort = Some ''missing'', e_toPort = None\<rparr>]"
  "incoming ex_pspec ''out'' = [\<lparr>e_from = ''in'', e_to = ''out'', e_fromPort = None, e_toPort = None\<rparr>]"
  by (simp_all add: incoming_def ex_pspec_def)

lemma ex_node_result:
  "node_result ex_options ex_world ctx bs (ex_pnode i NT_input) inputs = Inr \<lparr>po_outputs = obj_merge [] inputs, po_usage = None\<rparr>"
  "node_result ex_options ex_world ctx bs (ex_pnode i NT_output) inputs = Inr \<lparr>po_outputs = inputs, po_usage = None\<rparr>"
  by (simp_all add: node_result_def node_output_def size_guard_def ex_pnode_def ex_options_def obj_get_def)

lemma ex_dataflow: "dataflow ex_options ex_world (ex_context ''t'') ex_pspec [(''q'', JStr ''hi'')] ex_V"
proof -
  let ?v = "node_value ex_options ex_world (ex_context ''t'') ex_pspec [(''q'', JStr ''hi'')] ex_V"
  have ids: "n_id (ex_pnode i t) = i" for i t by (simp add: ex_pnode_def)
  have ca: "checkAborted ex_world (ex_context ''t'') pt = None" for pt
    by (simp add: checkAborted_def ex_world_def ex_context_def)
  have "?v (ex_pnode ''in'' NT_input) = ex_V ''in''"
    by (simp add: node_value_def Let_def ids ex_incoming ca ex_node_result buildNodeInputs_def ex_V_def
        obj_merge_def obj_set_def is_index_def list_all_iff is_digit_def)
  moreover have "?v (ex_pnode ''dead'' NT_input) = ex_V ''dead''"
    by (simp add: node_value_def Let_def ids ex_incoming live_def ex_V_def obj_get_def)
  moreover have "?v (ex_pnode ''out'' NT_output) = ex_V ''out''"
    by (simp add: node_value_def Let_def ids ex_incoming ca ex_node_result live_def buildNodeInputs_def add_edge_input_def
        source_outputs_def ex_V_def obj_set_def is_index_def list_all_iff is_digit_def)
  ultimately show ?thesis by (simp add: dataflow_def ex_pspec_def ids)
qed

lemma ex_run:
  "fst (runDag ex_options ex_world (ex_context ''t'') ex_pspec [(''q'', JStr ''hi'')] rt) =
     Inr (val_output ex_pspec ex_V, val_summary ex_pspec ex_V)"
  by (rule runDag_value(1) [OF well_formed_graph_ok [OF ex_pspec_well_formed] ex_dataflow])
    (simp add: ex_pspec_def ex_pnode_def ex_V_def)


section \<open>Every node is resolved\<close>

text \<open>
  C3: a run that succeeds has resolved every node of a valid pipeline: the nodes completed and
  the nodes skipped add up to all nodes.
\<close>

theorem runDag_resolves_all:
  assumes "well_formed_spec spec reg idx" "fst (runDag opts wd ctx spec input rt) = Inr (out, sm)"
  shows "sm_nodesCompleted sm + sm_nodesSkipped sm = length (ps_nodes spec)"
proof -
  have g: "graph_ok spec" by (rule well_formed_graph_ok [OF assms(1)])
  obtain V where V: "dataflow opts wd ctx spec input V" using dataflow_exists [OF g] by blast
  from runDag_value(2) [OF g V, of rt] assms(2) have nf: "\<forall>n \<in> set (ps_nodes spec). V (n_id n) \<noteq> Failed" by auto
  with runDag_value(1) [OF g V nf, of rt] assms(2) have "sm = val_summary spec V" by simp
  with val_summary_counts [OF nf] show ?thesis by (simp add: val_summary_def Let_def)
qed

theorem runDag_resolves_all_witness:
  "sm_nodesCompleted (val_summary ex_pspec ex_V) + sm_nodesSkipped (val_summary ex_pspec ex_V) = 3"
  using runDag_resolves_all [OF ex_pspec_well_formed ex_run] by (simp add: ex_pspec_def)

section \<open>Node records\<close>

definition settled :: "RuntimeContext \<Rightarrow> string \<Rightarrow> rt_state \<Rightarrow> bool" where
  "settled ctx i rt \<longleftrightarrow> (\<exists>r. rows rt (cx_executionId ctx, i) = [r] \<and> nr_status r \<in> {N_succeeded, N_skipped})"

lemma run_node_settled:
  assumes "node_by_id (ps_nodes spec) i = Some n" "n_id n = i"
    and "run_node opts wd ctx spec input pre i (err, st) = (None, st')"
  shows "settled ctx i (dg_rt st') \<and> (\<forall>j. settled ctx j (dg_rt st) \<longrightarrow> settled ctx j (dg_rt st'))"
proof (cases "skips spec pre i")
  case True
  then have "dg_rt st' = markSkipped ctx n (dg_rt st)" using assms by (auto simp: run_node_def)
  then show ?thesis using assms(2) by (auto simp: settled_def rows_markSkipped)
next
  case False
  have ca: "checkAborted wd ctx (Before_node i) = None"
    using assms(1,3) False by (cases "checkAborted wd ctx (Before_node i)"; cases err) (simp_all add: run_node_def)
  let ?in = "buildNodeInputs (incoming spec i) (dg_outputs pre) input"
  obtain res rt where x: "executeNode opts wd ctx (bindings_read wd spec n) n ?in (dg_rt st) = (res, rt)" by fastforce
  show ?thesis
  proof (cases res)
    case (Inl e)
    then have "run_node opts wd ctx spec input pre i (err, st) = (nullish_opt err (Some e), st\<lparr>dg_rt := rt\<rparr>)"
      by (simp add: run_node_def assms(1) False ca x)
    with assms(3) show ?thesis by (cases err) simp_all
  next
    case (Inr out)
    then have "dg_rt st' = rt" using assms(3) by (auto simp: run_node_def assms(1) False ca x)
    moreover have "node_result opts wd ctx (bindings_read wd spec n) n ?in = Inr out"
      using executeNode_result x Inr by (metis fst_conv)
    ultimately show ?thesis
      using rows_executeNode [where opts = opts and wd = wd and ctx = ctx and bs = "bindings_read wd spec n" and n = n
          and inputs = ?in and rt = "dg_rt st"] x assms(2)
      by (auto simp: settled_def)
  qed
qed

lemma fold_run_node_settled:
  "(\<And>i. i \<in> set is \<Longrightarrow> \<exists>n. node_by_id (ps_nodes spec) i = Some n \<and> n_id n = i) \<Longrightarrow>
     fold (run_node opts wd ctx spec input pre) is (err, st) = (None, st') \<Longrightarrow>
     (\<forall>i \<in> set is. settled ctx i (dg_rt st')) \<and> (\<forall>j. settled ctx j (dg_rt st) \<longrightarrow> settled ctx j (dg_rt st'))"
proof (induction "is" arbitrary: err st)
  case (Cons i "is")
  obtain e s where es: "run_node opts wd ctx spec input pre i (err, st) = (e, s)" by fastforce
  then have f: "fold (run_node opts wd ctx spec input pre) is (e, s) = (None, st')" using Cons.prems(2) by simp
  then have "e = None" using fold_run_node_resolved [OF f] by simp
  moreover obtain n where "node_by_id (ps_nodes spec) i = Some n" "n_id n = i" using Cons.prems(1) [of i] by auto
  ultimately have "settled ctx i (dg_rt s) \<and> (\<forall>j. settled ctx j (dg_rt st) \<longrightarrow> settled ctx j (dg_rt s))"
    using run_node_settled es by metis
  with Cons.IH [OF _ f] Cons.prems(1) show ?case by auto
qed simp

lemma dag_loop_settled:
  "graph_ok spec \<Longrightarrow> set ready \<subseteq> n_id ` set (ps_nodes spec) \<Longrightarrow>
     (\<forall>i. resolved st i \<longrightarrow> settled ctx i (dg_rt st)) \<Longrightarrow>
     dag_loop opts wd ctx spec input k ready st = (None, st') \<Longrightarrow>
     (\<forall>i. resolved st' i \<longrightarrow> settled ctx i (dg_rt st'))"
proof (induction opts wd ctx spec input k ready st rule: dag_loop.induct)
  case (1 opts wd ctx spec input k ready st)
  obtain e st1 where b: "run_batch opts wd ctx spec input k ready st = (e, st1)" by fastforce
  show ?case
  proof (cases "ready = []")
    case True
    with "1.prems"(3,4) show ?thesis by (simp add: dag_loop.simps)
  next
    case ne: False
    have "e = None" using "1.prems"(4) ne b by (subst (asm) dag_loop.simps) (auto split: option.splits)
    with "1.prems"(4) ne b have l: "dag_loop opts wd ctx spec input (Suc k) (refill spec st1 ready) (evict spec ready st1) = (None, st')"
      by (subst (asm) dag_loop.simps) simp
    have nodes: "\<exists>n. node_by_id (ps_nodes spec) i = Some n \<and> n_id n = i" if "i \<in> set (order_of wd k ready)" for i
      using that "1.prems"(2) node_by_id_iff [OF "1.prems"(1), of i] by auto
    have S: "(\<forall>i \<in> set ready. settled ctx i (dg_rt st1)) \<and> (\<forall>j. settled ctx j (dg_rt st) \<longrightarrow> settled ctx j (dg_rt st1))"
      using fold_run_node_settled [OF nodes b [unfolded run_batch_def \<open>e = None\<close>]] by simp
    have R: "resolved st1 i \<Longrightarrow> resolved st i \<or> i \<in> set ready" for i
      using fold_run_node_new [OF b [unfolded run_batch_def]] by auto
    have a: "\<forall>i. resolved (evict spec ready st1) i \<longrightarrow> settled ctx i (dg_rt (evict spec ready st1))"
      using S R "1.prems"(3) by auto
    have c: "set (refill spec st1 ready) \<subseteq> n_id ` set (ps_nodes spec)"
    proof
      fix i assume "i \<in> set (refill spec st1 ready)"
      then obtain e where "e \<in> set (ps_edges spec)" "e_to e = i" unfolding refill_iff by blast
      with "1.prems"(1) show "i \<in> n_id ` set (ps_nodes spec)" unfolding graph_ok_def by blast
    qed
    show ?thesis
      by (rule "1.IH" [OF ne b [symmetric] \<open>e = None\<close> "1.prems"(1) c a l])
  qed
qed

text \<open>
  after a successful run every node of the pipeline has exactly one record in the
  execution, and it says succeeded or skipped: no record is missing, doubled or left running.
\<close>

theorem runDag_node_records:
  assumes "well_formed_spec spec reg idx" "fst (runDag opts wd ctx spec input rt) = Inr res" "n \<in> set (ps_nodes spec)"
  shows "\<exists>r. filter (\<lambda>r. node_key r = (cx_executionId ctx, n_id n))
        (st_nodes (rs_store (snd (runDag opts wd ctx spec input rt)))) = [r] \<and> nr_status r \<in> {N_succeeded, N_skipped}"
proof -
  have g: "graph_ok spec" by (rule well_formed_graph_ok [OF assms(1)])
  obtain V where V: "dataflow opts wd ctx spec input V" using dataflow_exists [OF g] by blast
  obtain err st where l: "dag_loop opts wd ctx spec input 0 (ready0 spec) (dag_state0 spec rt) = (err, st)" by fastforce
  with assms(2) have e: "err = None" by (cases err) (simp_all add: runDag_def)
  with l have l: "dag_loop opts wd ctx spec input 0 (ready0 spec) (dag_state0 spec rt) = (None, st)" by simp
  from dag_loop_inv [OF g V loop_inv_init [OF g] l] have "resolved st (n_id n)"
    using final_resolved [OF g _ assms(3)] by blast
  moreover have "\<forall>i. resolved st i \<longrightarrow> settled ctx i (dg_rt st)"
    by (rule dag_loop_settled [OF g _ _ l]) (auto simp: ready0_def resolved_def dag_state0_def)
  ultimately have "settled ctx (n_id n) (dg_rt st)" by blast
  with l show ?thesis by (simp add: runDag_def settled_def)
qed

theorem runDag_node_records_witness:
  "\<exists>r. filter (\<lambda>r. node_key r = (''x1'', ''dead''))
     (st_nodes (rs_store (snd (runDag ex_options ex_world (ex_context ''t'') ex_pspec [(''q'', JStr ''hi'')] ex_rt)))) = [r] \<and>
     nr_status r \<in> {N_succeeded, N_skipped}"
  using runDag_node_records [OF ex_pspec_well_formed ex_run, of "ex_pnode ''dead'' NT_input"]
  by (simp add: ex_pspec_def ex_pnode_def ex_context_def)

section \<open>The execution record\<close>

abbreviation xrows :: "rt_state \<Rightarrow> string \<Rightarrow> ExecutionRecord list" where
  "xrows rt x \<equiv> filter (\<lambda>r. xr_executionId r = x) (st_executions (rs_store rt))"

definition denied :: "DagExecutorOptions \<Rightarrow> world \<Rightarrow> RuntimeContext \<Rightarrow> obj \<Rightarrow> bool" where
  "denied opts wd ctx input \<longleftrightarrow> checkAborted wd ctx At_start = None \<and>
     (\<not> may_run ctx \<or> (\<exists>hook reason. op_onStart opts = Some hook \<and> hook ctx input = Inr (Start_deny reason)))"

lemma xrows_complete:
  "xrows (upd_store (store_complete (execution_record opts ctx input status out err)) rt) (cx_executionId ctx) =
     [execution_record opts ctx input status out err]"
proof -
  have "xr_executionId (execution_record opts ctx input status out err) = cx_executionId ctx"
    by (simp add: execution_record_def)
  then show ?thesis by (simp add: store_complete_def filter_replace_by)
qed

lemma run_and_finish_cases:
  obtains (ok) out rt' r where "run_and_finish opts wd ctx spec input runInput rt = (Inr out, rt')"
      "xrows rt' (cx_executionId ctx) = [r]" "xr_status r = X_succeeded"
  | (fail) e rt' where "run_and_finish opts wd ctx spec input runInput rt = (Inl (e, False), rt')"
proof -
  have fin: "(\<exists>out rt' r. finish opts ctx input enriched rt = (Inr out, rt') \<and> xrows rt' (cx_executionId ctx) = [r] \<and>
      xr_status r = X_succeeded) \<or> (\<exists>e rt'. finish opts ctx input enriched rt = (Inl (e, False), rt'))" for enriched rt
  proof -
    have st: "xr_status (execution_record opts ctx input X_succeeded out None) = X_succeeded" for out
      by (simp add: execution_record_def)
    show ?thesis
    proof (cases "op_onFinish opts")
      case None
      then show ?thesis using xrows_complete st by (auto simp: finish_def)
    next
      case (Some hook)
      show ?thesis
      proof (cases "hook ctx enriched")
        case (Inl e)
        with Some show ?thesis by (simp add: finish_def)
      next
        case (Inr v)
        with Some show ?thesis using xrows_complete st by (cases v) (auto simp: finish_def)
      qed
    qed
  qed
  obtain res rt1 where r: "runDag opts wd ctx spec runInput rt = (res, rt1)" by fastforce
  show ?thesis
  proof (cases res)
    case (Inl e)
    with r show ?thesis by (intro fail) (simp add: run_and_finish_def)
  next
    case (Inr os)
    obtain o1 sm where os: "os = (o1, sm)" by fastforce
    let ?en = "if 0 < sm_nodesSkipped sm then obj_set ''__ragdollSummary__'' (summary_json sm) o1 else o1"
    have "run_and_finish opts wd ctx spec input runInput rt = finish opts ctx input ?en rt1"
      by (simp add: run_and_finish_def r Inr os)
    with fin [of ?en rt1] ok fail show ?thesis by metis
  qed
qed

lemma execute_body_cases:
  obtains (ok) out rt' r where "execute_body opts wd ctx spec input rt = (Inr out, rt')"
      "xrows rt' (cx_executionId ctx) = [r]" "xr_status r = X_succeeded" "\<not> denied opts wd ctx input"
  | (deny) e rt' r where "execute_body opts wd ctx spec input rt = (Inl (e, True), rt')"
      "xrows rt' (cx_executionId ctx) = [r]" "xr_status r = X_denied" "denied opts wd ctx input"
      "st_nodes (rs_store rt') = st_nodes (rs_store rt)"
  | (fail) e rt' where "execute_body opts wd ctx spec input rt = (Inl (e, False), rt')" "\<not> denied opts wd ctx input"
proof -
  have dn: "xr_status (execution_record opts ctx input X_denied JUndef (Some e)) = X_denied" for e
    by (simp add: execution_record_def)
  have dcase: "\<exists>rt' r. deny opts ctx input e rt = (Inl (e, True), rt') \<and> xrows rt' (cx_executionId ctx) = [r] \<and>
      xr_status r = X_denied \<and> st_nodes (rs_store rt') = st_nodes (rs_store rt)" for e
    using xrows_complete dn by (auto simp: deny_def)
  have dthesis: thesis if "execute_body opts wd ctx spec input rt = deny opts ctx input e rt" "denied opts wd ctx input" for e
    using dcase [of e] that deny by metis
  have rcase: thesis if "execute_body opts wd ctx spec input rt = run_and_finish opts wd ctx spec input runInput rt"
    "\<not> denied opts wd ctx input" for runInput
    by (rule run_and_finish_cases [of opts wd ctx spec input runInput rt]) (use that ok fail in auto)
  show thesis
  proof (cases "checkAborted wd ctx At_start")
    case (Some e)
    then show thesis by (intro fail [of e rt]) (simp_all add: execute_body_def denied_def)
  next
    case None
    show thesis
    proof (cases "may_run ctx")
      case False
      with None show thesis by (intro dthesis [of Principal_denied]) (simp_all add: execute_body_def denied_def)
    next
      case True
      show thesis
      proof (cases "op_onStart opts")
        case no: None
        with None True show thesis by (intro rcase [of input]) (simp_all add: execute_body_def denied_def)
      next
        case (Some hook)
        show thesis
        proof (cases "hook ctx input")
          case (Inl e)
          with None True Some show thesis by (intro fail [of e rt]) (simp_all add: execute_body_def denied_def)
        next
          case (Inr v)
          show thesis
          proof (cases v)
            case (Start_deny reason)
            with None True Some Inr show thesis
              by (intro dthesis [of "Denied_by_platform_plugin reason"]) (simp_all add: execute_body_def denied_def)
          next
            case (Start_input runInput)
            with None True Some Inr show thesis by (intro rcase [of runInput]) (simp_all add: execute_body_def denied_def)
          next
            case Start_nothing
            with None True Some Inr show thesis by (intro rcase [of input]) (simp_all add: execute_body_def denied_def)
          qed
        qed
      qed
    qed
  qed
qed

lemma end_execution_store [simp]: "rs_store (end_execution ctx rt) = rs_store rt"
  by (simp add: end_execution_def)

lemma execute_record:
  assumes "pv_valid (validatePipelineSpec spec (Some (op_registry opts)) None)"
  shows "(\<exists>r. filter (\<lambda>r. xr_executionId r = cx_executionId ctx)
        (st_executions (rs_store (snd (execute opts wd ctx spec input rt)))) = [r] \<and>
      xr_status r = (case fst (execute opts wd ctx spec input rt) of
          Inr out \<Rightarrow> X_succeeded
        | Inl e \<Rightarrow> if denied opts wd ctx input then X_denied else if isAbortError e then X_cancelled else X_failed)) \<and>
    (denied opts wd ctx input \<longrightarrow> (\<exists>e. fst (execute opts wd ctx spec input rt) = Inl e) \<and>
      st_nodes (rs_store (snd (execute opts wd ctx spec input rt))) = st_nodes (rs_store rt))"
proof -
  let ?rt1 = "upd_store (store_start (execution_record opts ctx input X_running JUndef None)) rt"
  note ex = execute_def [where opts = opts and wd = wd and ctx = ctx and spec = spec and input = input and rt = rt, unfolded Let_def]
  show ?thesis
  proof (rule execute_body_cases [of opts wd ctx spec input ?rt1])
    fix out rt' r
    assume "execute_body opts wd ctx spec input ?rt1 = (Inr out, rt')" "xrows rt' (cx_executionId ctx) = [r]"
      "xr_status r = X_succeeded" "\<not> denied opts wd ctx input"
    with assms show ?thesis by (simp add: ex)
  next
    fix e rt' r
    assume "execute_body opts wd ctx spec input ?rt1 = (Inl (e, True), rt')" "xrows rt' (cx_executionId ctx) = [r]"
      "xr_status r = X_denied" "denied opts wd ctx input" "st_nodes (rs_store rt') = st_nodes (rs_store ?rt1)"
    with assms show ?thesis by (simp add: ex)
  next
    fix e rt'
    assume "execute_body opts wd ctx spec input ?rt1 = (Inl (e, False), rt')" "\<not> denied opts wd ctx input"
    with assms show ?thesis
      using xrows_complete [where opts = opts and ctx = ctx and input = input and out = JUndef and err = "Some e" and rt = rt'
          and status = "if isAbortError e then X_cancelled else X_failed"]
      by (auto simp: ex execution_record_def)
  qed
qed

text \<open>
  C4: the execution record.  When validation lets a pipeline start, exactly one record of the
  execution is left, never running: succeeded when the call returns, denied exactly when the
  principal or a platform plugin forbids the run (and then no node has been touched), cancelled
  when it ends by cancellation or deadline, and failed on any other error.
\<close>

theorem execute_terminal_status:
  assumes "pv_valid (validatePipelineSpec spec (Some (op_registry opts)) None)"
  shows "(\<exists>r. filter (\<lambda>r. xr_executionId r = cx_executionId ctx)
        (st_executions (rs_store (snd (execute opts wd ctx spec input rt)))) = [r] \<and>
      xr_status r = (case fst (execute opts wd ctx spec input rt) of
          Inr out \<Rightarrow> X_succeeded
        | Inl e \<Rightarrow> if denied opts wd ctx input then X_denied else if isAbortError e then X_cancelled else X_failed)) \<and>
    (denied opts wd ctx input \<longrightarrow> (\<exists>e. fst (execute opts wd ctx spec input rt) = Inl e) \<and>
      st_nodes (rs_store (snd (execute opts wd ctx spec input rt))) = st_nodes (rs_store rt))"
  by (rule execute_record [OF assms])

lemma ex_pspec_valid: "pv_valid (validatePipelineSpec ex_pspec reg idx)"
  using valid_iff_clean validate_run_clean ex_pspec_well_formed by blast

text \<open>A principal that holds nothing.\<close>

theorem execute_terminal_status_witness:
  "st_nodes (rs_store (snd (execute ex_options ex_world (ex_context ''t''\<lparr>cx_principalAuthorize := Some (\<lambda>p r. False)\<rparr>)
      ex_pspec [] ex_rt))) = []"
proof -
  have "denied ex_options ex_world (ex_context ''t''\<lparr>cx_principalAuthorize := Some (\<lambda>p r. False)\<rparr>) []"
    by (simp add: denied_def may_run_def checkAborted_def ex_world_def ex_context_def)
  moreover have "pv_valid (validatePipelineSpec ex_pspec (Some (op_registry ex_options)) None)"
    by (rule ex_pspec_valid)
  ultimately show ?thesis
    using execute_terminal_status [of ex_pspec ex_options "ex_context ''t''\<lparr>cx_principalAuthorize := Some (\<lambda>p r. False)\<rparr>" ex_world "[]" ex_rt]
    by (simp add: ex_rt_def empty_store_def)
qed

section \<open>Step frames of an execution\<close>

lemma steps_upd_executions:
  "rs_stepSeq (snd (finish opts ctx input en rt)) = rs_stepSeq rt"
  "steps_ok wd (snd (finish opts ctx input en rt)) = steps_ok wd rt"
proof -
  have "snd (finish opts ctx input en rt) = rt \<or> (\<exists>r. snd (finish opts ctx input en rt) = upd_store (store_complete r) rt)"
    by (auto simp: finish_def Let_def split: option.split sum.split finish_verdict.split)
  then show "rs_stepSeq (snd (finish opts ctx input en rt)) = rs_stepSeq rt"
    "steps_ok wd (snd (finish opts ctx input en rt)) = steps_ok wd rt" by auto
qed

lemma steps_ok_execute_body [invs]:
  assumes "inj (wd_uuid wd)" "steps_ok wd rt"
  shows "steps_ok wd (snd (execute_body opts wd ctx spec input rt))"
proof -
  have run: "steps_ok wd (snd (run_and_finish opts wd ctx spec input runInput rt))" for runInput
    using steps_ok_runDag [OF assms, where opts = opts and ctx = ctx and spec = spec and input = runInput]
    by (auto simp: run_and_finish_def steps_upd_executions split: prod.split sum.split)
  have den: "steps_ok wd (snd (deny opts ctx input e rt))" for e
    using assms(2) by (simp add: deny_def)
  from run den assms(2) show ?thesis
    by (simp add: execute_body_def split: option.split sum.split start_verdict.split)
qed

text \<open>
  the frames an execution streams are numbered from one, without gaps or repetition, in
  the order they are recorded, when the execution id is new and random ids do not repeat.
\<close>

theorem execute_frames_numbered:
  assumes "inj (wd_uuid wd)" "steps_ok wd rt"
  shows "\<exists>m. map er_seq (filter (\<lambda>f. er_executionId f = x) (st_steps (rs_store (snd (execute opts wd ctx spec input rt))))) = [1..<Suc m]"
proof -
  let ?rt1 = "upd_store (store_start (execution_record opts ctx input X_running JUndef None)) rt"
  obtain res rt2 where b: "execute_body opts wd ctx spec input ?rt1 = (res, rt2)" by fastforce
  have "steps_ok wd ?rt1" using assms(2) by simp
  from steps_ok_execute_body [OF assms(1) this, where opts = opts and ctx = ctx and spec = spec and input = input] b have ok: "steps_ok wd rt2" by simp
  have "st_steps (rs_store (snd (execute opts wd ctx spec input rt))) \<in> {st_steps (rs_store rt), st_steps (rs_store rt2)}"
    using b by (auto simp: execute_def Let_def split: sum.split)
  with ok assms(2) show ?thesis unfolding steps_ok_def by fastforce
qed

lemma inj_nat_str: "inj nat_str"
  by (rule injI) simp

theorem execute_frames_numbered_witness:
  "\<exists>m. map er_seq (filter (\<lambda>f. er_executionId f = ''x1'') (st_steps (rs_store
     (snd (execute ex_options ex_world (ex_context ''t'') ex_pspec [] ex_rt))))) = [1..<Suc m]"
  by (rule execute_frames_numbered)
    (simp_all add: ex_world_def inj_nat_str ex_rt_def steps_ok_def empty_store_def)

end
