(* ===== verification/Scoped_Repos.thy ===== *)
theory Scoped_Repos
  imports Execution_Store
begin

text \<open>
  The in-memory repositories of the database package
  (\<open>packages/db/src/memory/base.ts\<close>, \<open>connections.ts\<close>, \<open>datasets.ts\<close>,
  \<open>catalog.ts\<close>, \<open>tenancy.ts\<close>): the generic keyed repository, and the rows that live at a
  scope (global, tenant or environment) and are found by slug.  Connections and datasets have
  the same code for what they share; it is written once over the common part
  \<open>scoped_row\<close>.

  A row is copied by \<open>structuredClone\<close> on its way in and out, so values without identity are
  a faithful model of it.  \<open>None\<close> stands for \<open>undefined\<close> and for \<open>null\<close>.  A patch
  (\<open>Partial<T>\<close>) is the function that assigns its fields.
\<close>

type_synonym 'r rows = "(string, 'r) jsmap"

datatype repo_error = NotFoundError string string | ConflictError string string

section \<open>The generic repository\<close>

text \<open>\<open>idf\<close> and \<open>set_id\<close> read and write the field \<open>id\<close> of a row.\<close>

definition crud_create :: "('r \<Rightarrow> string) \<Rightarrow> string \<Rightarrow> 'r \<Rightarrow> 'r rows \<Rightarrow> repo_error + 'r \<times> 'r rows" where
  "crud_create idf entity row rows =
     (if map_of rows (idf row) \<noteq> None
      then Inl (ConflictError entity (''id already exists: '' @ idf row))
      else Inr (row, AList.update (idf row) row rows))"

definition crud_get :: "'r rows \<Rightarrow> string \<Rightarrow> 'r option" where
  "crud_get rows i = map_of rows i"

definition crud_require :: "string \<Rightarrow> 'r rows \<Rightarrow> string \<Rightarrow> repo_error + 'r" where
  "crud_require entity rows i =
     (case crud_get rows i of None \<Rightarrow> Inl (NotFoundError entity i) | Some row \<Rightarrow> Inr row)"

definition crud_update ::
  "(string \<Rightarrow> 'r \<Rightarrow> 'r) \<Rightarrow> string \<Rightarrow> string \<Rightarrow> ('r \<Rightarrow> 'r) \<Rightarrow> 'r rows \<Rightarrow> repo_error + 'r \<times> 'r rows"
where
  "crud_update set_id entity i patch rows =
     (case map_of rows i of
        None \<Rightarrow> Inl (NotFoundError entity i)
      | Some existing \<Rightarrow>
          let next = set_id i (patch existing)
          in Inr (next, AList.update i next rows))"

definition crud_delete :: "string \<Rightarrow> 'r rows \<Rightarrow> 'r rows" where
  "crud_delete i rows = AList.delete i rows"

definition crud_list :: "'r rows \<Rightarrow> 'r list" where
  "crud_list rows = map snd rows"

section \<open>Rows at a scope\<close>

record scoped_row =
  so_id :: string
  so_displayName :: string
  so_description :: "string option"
  so_createdAt :: string
  so_scope :: data_scope
  so_tenantId :: "string option"
  so_environmentId :: "string option"
  so_slug :: string
  so_archivedAt :: "string option"
  so_updatedAt :: string

record ConnectionRow = scoped_row +
  cn_kind :: string
  cn_config :: "(string \<times> json) list"
  cn_secretRefKey :: "string option"
  cn_allowedHosts :: "string list"
  cn_denyPrivateNetworks :: bool
  cn_lastProbedAt :: "string option"
  cn_lastProbeOk :: "bool option"
  cn_lastProbeError :: "string option"

record dataset_binding =
  db_connection :: "string option"
  db_collection :: "string option"
  db_namespace :: "string option"

record DatasetRow = scoped_row +
  ds_embeddingProfile :: json
  ds_chunkSchema :: json
  ds_bindings :: "(string \<times> dataset_binding option) list"
  ds_currentVersionId :: "string option"
  ds_createdBy :: "string option"

text \<open>The slug is taken by a live row of the same scope, tenant and environment.\<close>

definition takes_slug :: "'a scoped_row_scheme \<Rightarrow> 'b scoped_row_scheme \<Rightarrow> bool" where
  "takes_slug row existing \<longleftrightarrow>
     so_slug existing = so_slug row \<and> so_scope existing = so_scope row \<and>
     \<not> str_truthy (so_archivedAt existing) \<and>
     so_tenantId existing = so_tenantId row \<and> so_environmentId existing = so_environmentId row"

definition scoped_create ::
  "string \<Rightarrow> 'a scoped_row_scheme \<Rightarrow> 'a scoped_row_scheme rows \<Rightarrow>
   repo_error + 'a scoped_row_scheme \<times> 'a scoped_row_scheme rows"
where
  "scoped_create entity row rows =
     (if map_of rows (so_id row) \<noteq> None
      then Inl (ConflictError entity (''id already exists: '' @ so_id row))
      else if list_ex (takes_slug row) (map snd rows)
      then Inl (ConflictError entity (''slug already exists at scope: '' @ so_slug row))
      else Inr (row, AList.update (so_id row) row rows))"

text \<open>\<open>updatedAt\<close> is the patch's own value or the present time.\<close>

definition scoped_update ::
  "string \<Rightarrow> string \<Rightarrow> string \<Rightarrow> ('a scoped_row_scheme \<Rightarrow> 'a scoped_row_scheme) \<Rightarrow> string option \<Rightarrow>
   'a scoped_row_scheme rows \<Rightarrow> repo_error + 'a scoped_row_scheme \<times> 'a scoped_row_scheme rows"
where
  "scoped_update entity now i patch updatedAt rows =
     (case map_of rows i of
        None \<Rightarrow> Inl (NotFoundError entity i)
      | Some existing \<Rightarrow>
          let next = (patch existing)\<lparr>so_id := so_id existing, so_updatedAt := nullish updatedAt now\<rparr>
          in Inr (next, AList.update i next rows))"

record SlugArgs =
  sa_slug :: string
  sa_tenantId :: "string option"
  sa_environmentId :: "string option"

definition env_hit :: "SlugArgs \<Rightarrow> 'a scoped_row_scheme \<Rightarrow> bool" where
  "env_hit args r \<longleftrightarrow> so_scope r = DS_environment \<and> so_tenantId r = sa_tenantId args \<and>
     so_environmentId r = sa_environmentId args"

definition tenant_hit :: "SlugArgs \<Rightarrow> 'a scoped_row_scheme \<Rightarrow> bool" where
  "tenant_hit args r \<longleftrightarrow> so_scope r = DS_tenant \<and> so_tenantId r = sa_tenantId args"

definition global_hit :: "'a scoped_row_scheme \<Rightarrow> bool" where
  "global_hit r \<longleftrightarrow> so_scope r = DS_global"

definition live_slug :: "string \<Rightarrow> 'a scoped_row_scheme \<Rightarrow> bool" where
  "live_slug slug r \<longleftrightarrow> so_slug r = slug \<and> \<not> str_truthy (so_archivedAt r)"

definition resolveSlug :: "'a scoped_row_scheme rows \<Rightarrow> SlugArgs \<Rightarrow> 'a scoped_row_scheme option" where
  "resolveSlug rows args =
     (let all = filter (live_slug (sa_slug args)) (map snd rows);
          envHit = (if str_truthy (sa_tenantId args) \<and> str_truthy (sa_environmentId args)
                    then find (env_hit args) all else None);
          tenantHit = (if str_truthy (sa_tenantId args) then find (tenant_hit args) all else None)
      in case envHit of
           Some r \<Rightarrow> Some r
         | None \<Rightarrow>
             (case tenantHit of
                Some r \<Rightarrow> Some r
              | None \<Rightarrow> find global_hit all))"

definition visible_at :: "string option \<Rightarrow> string option \<Rightarrow> 'a scoped_row_scheme \<Rightarrow> bool" where
  "visible_at tenantId environmentId r \<longleftrightarrow>
     (if so_scope r = DS_global then True
      else if so_scope r = DS_tenant then so_tenantId r = tenantId
      else so_tenantId r = tenantId \<and> so_environmentId r = environmentId)"

definition listVisibleAt ::
  "'a scoped_row_scheme rows \<Rightarrow> string option \<Rightarrow> string option \<Rightarrow> bool \<Rightarrow> 'a scoped_row_scheme list"
where
  "listVisibleAt rows tenantId environmentId includeArchived =
     filter (visible_at tenantId environmentId)
       (filter (\<lambda>r. includeArchived \<or> \<not> str_truthy (so_archivedAt r)) (map snd rows))"

record list_filter =
  lf_scope :: "data_scope option"
  lf_tenantId :: "string option"
  lf_environmentId :: "string option"
  lf_includeArchived :: bool

definition listAll :: "'a scoped_row_scheme rows \<Rightarrow> list_filter \<Rightarrow> 'a scoped_row_scheme list" where
  "listAll rows f =
     filter (\<lambda>r. \<not> str_truthy (lf_environmentId f) \<or> so_environmentId r = lf_environmentId f)
       (filter (\<lambda>r. \<not> str_truthy (lf_tenantId f) \<or> so_tenantId r = lf_tenantId f)
         (filter (\<lambda>r. lf_scope f = None \<or> Some (so_scope r) = lf_scope f)
           (filter (\<lambda>r. lf_includeArchived f \<or> \<not> str_truthy (so_archivedAt r)) (map snd rows))))"

subsection \<open>Connections\<close>

definition connection_create :: "ConnectionRow \<Rightarrow> ConnectionRow rows \<Rightarrow> repo_error + ConnectionRow \<times> ConnectionRow rows" where
  "connection_create = scoped_create ''connection''"

definition connection_update ::
  "string \<Rightarrow> string \<Rightarrow> (ConnectionRow \<Rightarrow> ConnectionRow) \<Rightarrow> string option \<Rightarrow> ConnectionRow rows \<Rightarrow>
   repo_error + ConnectionRow \<times> ConnectionRow rows"
where
  "connection_update = scoped_update ''connection''"

definition connection_resolveSlug :: "ConnectionRow rows \<Rightarrow> SlugArgs \<Rightarrow> ConnectionRow option" where
  "connection_resolveSlug = resolveSlug"

definition connection_listAll :: "ConnectionRow rows \<Rightarrow> list_filter \<Rightarrow> string option \<Rightarrow> ConnectionRow list" where
  "connection_listAll rows f kind =
     filter (\<lambda>r. \<not> str_truthy kind \<or> Some (cn_kind r) = kind) (listAll rows f)"

definition connection_listVisibleAt ::
  "ConnectionRow rows \<Rightarrow> string option \<Rightarrow> string option \<Rightarrow> bool \<Rightarrow> ConnectionRow list" where
  "connection_listVisibleAt = listVisibleAt"

definition recordProbe ::
  "string \<Rightarrow> bool \<Rightarrow> string option \<Rightarrow> string \<Rightarrow> ConnectionRow rows \<Rightarrow> repo_error + ConnectionRow rows"
where
  "recordProbe i ok err at rows =
     (case map_of rows i of
        None \<Rightarrow> Inl (NotFoundError ''connection'' i)
      | Some existing \<Rightarrow>
          Inr (AList.update i (existing\<lparr>cn_lastProbedAt := Some at, cn_lastProbeOk := Some ok,
                                        cn_lastProbeError := err\<rparr>) rows))"

subsection \<open>Datasets\<close>

definition dataset_create :: "DatasetRow \<Rightarrow> DatasetRow rows \<Rightarrow> repo_error + DatasetRow \<times> DatasetRow rows" where
  "dataset_create = scoped_create ''dataset''"

definition dataset_update ::
  "string \<Rightarrow> string \<Rightarrow> (DatasetRow \<Rightarrow> DatasetRow) \<Rightarrow> string option \<Rightarrow> DatasetRow rows \<Rightarrow>
   repo_error + DatasetRow \<times> DatasetRow rows"
where
  "dataset_update = scoped_update ''dataset''"

definition dataset_resolveSlug :: "DatasetRow rows \<Rightarrow> SlugArgs \<Rightarrow> DatasetRow option" where
  "dataset_resolveSlug = resolveSlug"

record DatasetVersionRow =
  dv_id :: string
  dv_datasetId :: string
  dv_versionLabel :: string
  dv_schemaSpec :: json
  dv_backendCollections :: "(string \<times> string) list"
  dv_status :: version_status
  dv_docCount :: jsnum
  dv_sizeBytes :: jsnum
  dv_createdAt :: string
  dv_readyAt :: "string option"

definition version_create ::
  "DatasetVersionRow \<Rightarrow> DatasetVersionRow rows \<Rightarrow> repo_error + DatasetVersionRow \<times> DatasetVersionRow rows"
where
  "version_create row rows =
     (if map_of rows (dv_id row) \<noteq> None
      then Inl (ConflictError ''dataset_version'' (''id already exists: '' @ dv_id row))
      else if list_ex (\<lambda>e. dv_datasetId e = dv_datasetId row \<and> dv_versionLabel e = dv_versionLabel row) (map snd rows)
      then Inl (ConflictError ''dataset_version''
        (''version '' @ dv_versionLabel row @ '' already exists for dataset '' @ dv_datasetId row))
      else Inr (row, AList.update (dv_id row) row rows))"

text \<open>\<open>le\<close> is the collation order \<open>localeCompare\<close>, of the runtime's locale.\<close>

definition sort_rows :: "(string \<Rightarrow> string \<Rightarrow> bool) \<Rightarrow> ('r \<Rightarrow> string) \<Rightarrow> 'r list \<Rightarrow> 'r list" where
  "sort_rows le key = sort_by (\<lambda>a b. le (key a) (key b))"

definition version_listByDataset ::
  "(string \<Rightarrow> string \<Rightarrow> bool) \<Rightarrow> DatasetVersionRow rows \<Rightarrow> string \<Rightarrow> DatasetVersionRow list"
where
  "version_listByDataset le rows datasetId =
     sort_rows le dv_versionLabel (filter (\<lambda>r. dv_datasetId r = datasetId) (map snd rows))"

record DatasetAliasRow =
  da_id :: string
  da_datasetId :: string
  da_alias :: string
  da_versionId :: string
  da_updatedAt :: string
  da_updatedBy :: "string option"

record alias_repo =
  ar_rows :: "DatasetAliasRow rows"
  ar_byKey :: "(string, string) jsmap"

definition keyOf :: "string \<Rightarrow> string \<Rightarrow> string" where
  "keyOf datasetId alias = datasetId @ '':'' @ alias"

definition alias_upsert :: "DatasetAliasRow \<Rightarrow> alias_repo \<Rightarrow> alias_repo" where
  "alias_upsert row repo =
     (let key = keyOf (da_datasetId row) (da_alias row);
          existingId = map_of (ar_byKey repo) key;
          rows1 = (if str_truthy existingId \<and> existingId \<noteq> Some (da_id row)
                   then AList.delete (the existingId) (ar_rows repo) else ar_rows repo)
      in \<lparr>ar_rows = AList.update (da_id row) row rows1,
          ar_byKey = AList.update key (da_id row) (ar_byKey repo)\<rparr>)"

definition alias_resolve :: "alias_repo \<Rightarrow> string \<Rightarrow> string \<Rightarrow> DatasetAliasRow option" where
  "alias_resolve repo datasetId alias =
     (case map_of (ar_byKey repo) (keyOf datasetId alias) of
        None \<Rightarrow> None
      | Some i \<Rightarrow> if i = [] then None else map_of (ar_rows repo) i)"

definition alias_listByDataset ::
  "(string \<Rightarrow> string \<Rightarrow> bool) \<Rightarrow> alias_repo \<Rightarrow> string \<Rightarrow> DatasetAliasRow list"
where
  "alias_listByDataset le repo datasetId =
     sort_rows le da_alias (filter (\<lambda>r. da_datasetId r = datasetId) (map snd (ar_rows repo)))"

definition alias_delete :: "string \<Rightarrow> string \<Rightarrow> alias_repo \<Rightarrow> alias_repo" where
  "alias_delete datasetId alias repo =
     (let key = keyOf datasetId alias
      in case map_of (ar_byKey repo) key of
           None \<Rightarrow> repo
         | Some i \<Rightarrow>
             if i = [] then repo
             else \<lparr>ar_rows = AList.delete i (ar_rows repo), ar_byKey = AList.delete key (ar_byKey repo)\<rparr>)"

subsection \<open>Pipeline dataset bindings and tenants\<close>

record PipelineDatasetBindingRow =
  pb_id :: string
  pb_pipelineId :: string
  pb_tenantId :: string
  pb_environmentId :: "string option"
  pb_sourceSlug :: string
  pb_targetDatasetId :: string
  pb_createdAt :: string
  pb_createdBy :: "string option"
  pb_updatedAt :: string

definition listByPipeline :: "PipelineDatasetBindingRow rows \<Rightarrow> string \<Rightarrow> PipelineDatasetBindingRow list" where
  "listByPipeline rows pipelineId = filter (\<lambda>r. pb_pipelineId r = pipelineId) (crud_list rows)"

definition resolveBinding ::
  "PipelineDatasetBindingRow rows \<Rightarrow> string \<Rightarrow> string \<Rightarrow> string option \<Rightarrow> string \<Rightarrow>
   PipelineDatasetBindingRow option"
where
  "resolveBinding rows pipelineId tenantId environmentId sourceSlug =
     (let candidates = filter (\<lambda>r. pb_pipelineId r = pipelineId \<and> pb_tenantId r = tenantId \<and>
                                  pb_sourceSlug r = sourceSlug) (crud_list rows)
      in nullish_opt (find (\<lambda>r. pb_environmentId r = environmentId) candidates)
           (find (\<lambda>r. pb_environmentId r = None) candidates))"

record TenantRow =
  tn_id :: string
  tn_slug :: string
  tn_name :: string
  tn_status :: string
  tn_metadata :: json
  tn_storageMode :: "string option"
  tn_createdAt :: string
  tn_updatedAt :: string

definition findBySlug :: "TenantRow rows \<Rightarrow> string \<Rightarrow> TenantRow option" where
  "findBySlug rows slug = find (\<lambda>r. tn_slug r = slug) (crud_list rows)"

section \<open>Registries of slugs\<close>

text \<open>
  The contract of a registry in which names are found along a cascade: the answer is a
  member that matches, no matching member is more specific, and there is an answer when a
  member matches.
\<close>

locale slug_registry =
  fixes resolve :: "'s \<Rightarrow> 'a \<Rightarrow> 'r option"
    and members :: "'s \<Rightarrow> 'r list"
    and matches :: "'a \<Rightarrow> 'r \<Rightarrow> bool"
    and rank :: "'r \<Rightarrow> nat"
  assumes resolve_match: "resolve s a = Some r \<Longrightarrow> r \<in> set (members s) \<and> matches a r"
    and resolve_best: "resolve s a = Some r \<Longrightarrow> q \<in> set (members s) \<Longrightarrow> matches a q \<Longrightarrow> rank q \<le> rank r"
    and resolve_none: "resolve s a = None \<Longrightarrow> q \<in> set (members s) \<Longrightarrow> \<not> matches a q"
begin

lemma resolve_defined: "(\<exists>r. resolve s a = Some r) \<longleftrightarrow> (\<exists>r \<in> set (members s). matches a r)"
  by (metis not_None_eq resolve_match resolve_none)

definition candidates :: "'s \<Rightarrow> 'a \<Rightarrow> 'r set" where
  "candidates s a = {r \<in> set (members s). matches a r}"

definition ranked :: "'s \<Rightarrow> 'a \<Rightarrow> bool" where
  "ranked s a \<longleftrightarrow> (\<forall>r \<in> candidates s a. \<forall>q \<in> candidates s a. rank r = rank q \<longrightarrow> r = q)"

lemma resolve_iff:
  assumes "ranked s a"
  shows "resolve s a = Some r \<longleftrightarrow> r \<in> candidates s a \<and> (\<forall>q \<in> candidates s a. rank q \<le> rank r)"
proof
  assume "resolve s a = Some r"
  then show "r \<in> candidates s a \<and> (\<forall>q \<in> candidates s a. rank q \<le> rank r)"
    using resolve_match resolve_best by (auto simp: candidates_def)
next
  assume r: "r \<in> candidates s a \<and> (\<forall>q \<in> candidates s a. rank q \<le> rank r)"
  then obtain q where q: "resolve s a = Some q"
    using resolve_defined unfolding candidates_def by blast
  then have "q \<in> candidates s a" "rank r \<le> rank q"
    using resolve_match resolve_best r by (auto simp: candidates_def)
  with r assms q show "resolve s a = Some r"
    by (metis ranked_def le_antisym)
qed

lemma resolve_isolated:
  assumes "ranked s a" "candidates s a = candidates t a"
  shows "resolve s a = resolve t a"
proof -
  from assms have "ranked t a" by (simp add: ranked_def)
  with assms show ?thesis by (metis option.exhaust resolve_iff)
qed

end

lemma find_filter: "find P (filter Q xs) = find (\<lambda>x. Q x \<and> P x) xs"
  by (induction xs) auto

lemma find_None_all: "find P xs = None \<longleftrightarrow> (\<forall>x \<in> set xs. \<not> P x)"
  by (induction xs) auto

fun scope_rank :: "data_scope \<Rightarrow> nat" where
  "scope_rank DS_global = 0"
| "scope_rank DS_tenant = 1"
| "scope_rank DS_environment = 2"

definition slug_match :: "SlugArgs \<Rightarrow> 'a scoped_row_scheme \<Rightarrow> bool" where
  "slug_match args r \<longleftrightarrow> live_slug (sa_slug args) r \<and>
     (case so_scope r of
        DS_global \<Rightarrow> True
      | DS_tenant \<Rightarrow> str_truthy (sa_tenantId args) \<and> so_tenantId r = sa_tenantId args
      | DS_environment \<Rightarrow> str_truthy (sa_tenantId args) \<and> str_truthy (sa_environmentId args) \<and>
          so_tenantId r = sa_tenantId args \<and> so_environmentId r = sa_environmentId args)"

lemmas hit_defs = env_hit_def tenant_hit_def global_hit_def slug_match_def

lemma resolveSlug_hits:
  assumes "all = filter (live_slug (sa_slug args)) (map snd rows)"
    and "env = (if str_truthy (sa_tenantId args) \<and> str_truthy (sa_environmentId args) then find (env_hit args) all else None)"
    and "ten = (if str_truthy (sa_tenantId args) then find (tenant_hit args) all else None)"
    and "glo = find global_hit all"
  shows "resolveSlug rows args = (case env of Some r \<Rightarrow> Some r | None \<Rightarrow> (case ten of Some r \<Rightarrow> Some r | None \<Rightarrow> glo))"
    and "env = Some r \<Longrightarrow> r \<in> set (map snd rows) \<and> slug_match args r \<and> so_scope r = DS_environment"
    and "ten = Some r \<Longrightarrow> r \<in> set (map snd rows) \<and> slug_match args r \<and> so_scope r = DS_tenant"
    and "glo = Some r \<Longrightarrow> r \<in> set (map snd rows) \<and> slug_match args r \<and> so_scope r = DS_global"
    and "env = None \<Longrightarrow> q \<in> set (map snd rows) \<Longrightarrow> slug_match args q \<Longrightarrow> so_scope q \<noteq> DS_environment"
    and "ten = None \<Longrightarrow> q \<in> set (map snd rows) \<Longrightarrow> slug_match args q \<Longrightarrow> so_scope q \<noteq> DS_tenant"
    and "glo = None \<Longrightarrow> q \<in> set (map snd rows) \<Longrightarrow> slug_match args q \<Longrightarrow> so_scope q \<noteq> DS_global"
  unfolding assms
  by (auto split: if_splits dest!: find_SomeD simp: resolveSlug_def Let_def find_filter find_None_all hit_defs)

lemma resolveSlug_found:
  assumes res: "resolveSlug rows args = Some r"
  shows "r \<in> set (map snd rows) \<and> slug_match args r"
    and "q \<in> set (map snd rows) \<Longrightarrow> slug_match args q \<Longrightarrow> scope_rank (so_scope q) \<le> scope_rank (so_scope r)"
proof -
  note hits = resolveSlug_hits [OF refl refl refl refl, where rows = rows and args = args]
  show "r \<in> set (map snd rows) \<and> slug_match args r"
    using res unfolding hits(1) by (auto split: option.splits dest: hits(2,3,4))
  assume q: "q \<in> set (map snd rows)" "slug_match args q"
  have le: "scope_rank k \<le> 2" "k \<noteq> DS_environment \<Longrightarrow> scope_rank k \<le> 1"
    "k \<noteq> DS_environment \<Longrightarrow> k \<noteq> DS_tenant \<Longrightarrow> scope_rank k \<le> 0" for k
    by (cases k; simp)+
  show "scope_rank (so_scope q) \<le> scope_rank (so_scope r)"
    using res hits(2,3,4) [of r] hits(5,6,7) [OF _ q] le [of "so_scope q"]
    unfolding hits(1) by (auto split: option.splits)
qed

lemma resolveSlug_None:
  assumes "resolveSlug rows args = None" "q \<in> set (map snd rows)"
  shows "\<not> slug_match args q"
  using assms(1) resolveSlug_hits(5-7) [OF refl refl refl refl _ assms(2)]
  unfolding resolveSlug_hits(1) [OF refl refl refl refl]
  by (cases "so_scope q") (auto split: option.splits)

interpretation connection_slugs: slug_registry connection_resolveSlug "map snd" slug_match "\<lambda>r. scope_rank (so_scope r)"
  unfolding connection_resolveSlug_def
  by unfold_locales (blast dest: resolveSlug_found resolveSlug_None)+

interpretation dataset_slugs: slug_registry dataset_resolveSlug "map snd" slug_match "\<lambda>r. scope_rank (so_scope r)"
  unfolding dataset_resolveSlug_def
  by unfold_locales (blast dest: resolveSlug_found resolveSlug_None)+

text \<open>The bindings of a pipeline are a registry too, with two levels.\<close>

definition binding_match :: "string \<times> string \<times> string option \<times> string \<Rightarrow> PipelineDatasetBindingRow \<Rightarrow> bool" where
  "binding_match = (\<lambda>(p, t, e, slug) r. pb_pipelineId r = p \<and> pb_tenantId r = t \<and> pb_sourceSlug r = slug \<and>
     (pb_environmentId r = e \<or> pb_environmentId r = None))"

definition binding_rank :: "PipelineDatasetBindingRow \<Rightarrow> nat" where
  "binding_rank r = (if pb_environmentId r = None then 0 else 1)"

abbreviation resolve_binding_at ::
  "PipelineDatasetBindingRow rows \<Rightarrow> string \<times> string \<times> string option \<times> string \<Rightarrow> PipelineDatasetBindingRow option"
where
  "resolve_binding_at rows a \<equiv> resolveBinding rows (fst a) (fst (snd a)) (fst (snd (snd a))) (snd (snd (snd a)))"

interpretation binding_slugs: slug_registry resolve_binding_at "map snd" binding_match binding_rank
proof
  fix rows :: "PipelineDatasetBindingRow rows" and a :: "string \<times> string \<times> string option \<times> string"
    and r q :: PipelineDatasetBindingRow
  obtain p t e slug where a: "a = (p, t, e, slug)" by (cases a)
  define cs where "cs = filter (\<lambda>r. pb_pipelineId r = p \<and> pb_tenantId r = t \<and> pb_sourceSlug r = slug) (map snd rows)"
  have res: "resolve_binding_at rows a =
      nullish_opt (find (\<lambda>r. pb_environmentId r = e) cs) (find (\<lambda>r. pb_environmentId r = None) cs)"
    by (simp add: a resolveBinding_def crud_list_def cs_def Let_def)
  have cand: "q \<in> set (map snd rows) \<and> binding_match a q \<longleftrightarrow> q \<in> set cs \<and> (pb_environmentId q = e \<or> pb_environmentId q = None)" for q
    by (auto simp: a binding_match_def cs_def)
  show "r \<in> set (map snd rows) \<and> binding_match a r" if "resolve_binding_at rows a = Some r"
    using that unfolding res cand
    by (cases "find (\<lambda>r. pb_environmentId r = e) cs") (auto dest: find_SomeD)
  show "binding_rank q \<le> binding_rank r"
    if "resolve_binding_at rows a = Some r" "q \<in> set (map snd rows)" "binding_match a q"
  proof (cases "find (\<lambda>r. pb_environmentId r = e) cs")
    case None
    with that(2,3) cand [of q] show ?thesis by (auto simp: find_None_all binding_rank_def)
  next
    case (Some r')
    with that(1) have "r' = r" by (simp add: res)
    with Some have "pb_environmentId r = e" by (auto dest: find_SomeD)
    moreover have "pb_environmentId q = e \<or> pb_environmentId q = None"
      using cand [of q] that(2,3) by simp
    ultimately show ?thesis by (auto simp: binding_rank_def)
  qed
  show "\<not> binding_match a q" if "resolve_binding_at rows a = None" "q \<in> set (map snd rows)"
    using that cand [of q] unfolding res
    by (cases "find (\<lambda>r. pb_environmentId r = e) cs") (auto simp: find_None_all)
qed

section \<open>Histories of a registry\<close>

definition rows_ok :: "'a scoped_row_scheme rows \<Rightarrow> bool" where
  "rows_ok rows \<longleftrightarrow> distinct (map fst rows) \<and> (\<forall>(k, r) \<in> set rows. k = so_id r)"

definition slugs_unique :: "'a scoped_row_scheme rows \<Rightarrow> bool" where
  "slugs_unique rows \<longleftrightarrow>
     (\<forall>r \<in> set (map snd rows). \<forall>q \<in> set (map snd rows).
        \<not> str_truthy (so_archivedAt r) \<and> takes_slug r q \<longrightarrow> r = q)"

text \<open>What the schema demands of a row: a tenant and an environment exactly where the scope has one.\<close>

definition well_shaped :: "'a scoped_row_scheme \<Rightarrow> bool" where
  "well_shaped r \<longleftrightarrow>
     (case so_scope r of
        DS_global \<Rightarrow> so_tenantId r = None \<and> so_environmentId r = None
      | DS_tenant \<Rightarrow> str_truthy (so_tenantId r) \<and> so_environmentId r = None
      | DS_environment \<Rightarrow> str_truthy (so_tenantId r) \<and> str_truthy (so_environmentId r))"

text \<open>
  A patch that moves no row to another slug or scope and does not bring back an archived one.  The repository
  accepts others too, and they may leave two live rows with one slug (\<open>update_duplicates_slug\<close> below): the
  histories of \<open>registry_reach\<close> are those in which slugs stay unique.
\<close>

definition keeps_slug :: "('a scoped_row_scheme \<Rightarrow> 'a scoped_row_scheme) \<Rightarrow> bool" where
  "keeps_slug patch \<longleftrightarrow>
     (\<forall>r. so_slug (patch r) = so_slug r \<and> so_scope (patch r) = so_scope r \<and>
          so_tenantId (patch r) = so_tenantId r \<and> so_environmentId (patch r) = so_environmentId r \<and>
          (str_truthy (so_archivedAt r) \<longrightarrow> str_truthy (so_archivedAt (patch r))))"

inductive registry_reach :: "string \<Rightarrow> 'a scoped_row_scheme rows \<Rightarrow> bool" for entity where
  rr_empty: "registry_reach entity []"
| rr_create: "registry_reach entity rows \<Longrightarrow> well_shaped row \<Longrightarrow>
    scoped_create entity row rows = Inr (row', rows') \<Longrightarrow> registry_reach entity rows'"
| rr_update: "registry_reach entity rows \<Longrightarrow> keeps_slug patch \<Longrightarrow>
    scoped_update entity now i patch updatedAt rows = Inr (row', rows') \<Longrightarrow> registry_reach entity rows'"
| rr_delete: "registry_reach entity rows \<Longrightarrow> registry_reach entity (crud_delete i rows)"

definition registry_inv :: "'a scoped_row_scheme rows \<Rightarrow> bool" where
  "registry_inv rows \<longleftrightarrow> rows_ok rows \<and> slugs_unique rows \<and> (\<forall>r \<in> set (map snd rows). well_shaped r)"

lemma mem_map_of: "distinct (map fst rows) \<Longrightarrow> r \<in> set (map snd rows) \<longleftrightarrow> (\<exists>k. map_of rows k = Some r)"
  by (force simp: image_iff)

lemma rows_ok_map_of: "rows_ok rows \<Longrightarrow> map_of rows k = Some r \<Longrightarrow> so_id r = k"
  by (auto simp: rows_ok_def dest!: map_of_SomeD)

lemma rows_ok_mem: "rows_ok rows \<Longrightarrow> r \<in> set (map snd rows) \<longleftrightarrow> map_of rows (so_id r) = Some r"
  using mem_map_of [of rows r] rows_ok_map_of [of rows _ r] by (auto simp: rows_ok_def)

lemma rows_ok_update:
  assumes "rows_ok rows" "so_id r = k"
  shows "rows_ok (AList.update k r rows)"
proof -
  have d: "distinct (map fst (AList.update k r rows))"
    using assms(1) by (simp add: rows_ok_def distinct_update)
  have "so_id q = l" if "(l, q) \<in> set (AList.update k r rows)" for l q
  proof -
    from d that have "map_of (AList.update k r rows) l = Some q" by (rule map_of_is_SomeI)
    then have "((map_of rows)(k \<mapsto> r)) l = Some q" unfolding map_of_update .
    then show ?thesis using assms(2) rows_ok_map_of [OF assms(1), of l q] by (cases "l = k") simp_all
  qed
  with d show ?thesis by (auto simp: rows_ok_def)
qed

lemma members_update:
  assumes "rows_ok rows" "so_id r = k"
  shows "q \<in> set (map snd (AList.update k r rows)) \<longleftrightarrow> q = r \<or> (q \<in> set (map snd rows) \<and> so_id q \<noteq> k)"
  unfolding rows_ok_mem [OF rows_ok_update [OF assms]] rows_ok_mem [OF assms(1)]
  using assms(2) by auto

lemma rows_ok_delete: "rows_ok rows \<Longrightarrow> rows_ok (AList.delete k rows)"
  unfolding rows_ok_def by (intro conjI distinct_delete) (auto simp: AList.delete_eq)

lemma members_delete: "rows_ok rows \<Longrightarrow> q \<in> set (map snd (AList.delete k rows)) \<Longrightarrow> q \<in> set (map snd rows)"
  by (auto simp: AList.delete_eq)

subsection \<open>Every operation keeps the invariant\<close>

lemma registry_invD:
  assumes "registry_inv rows"
  shows "rows_ok rows" "r \<in> set (map snd rows) \<Longrightarrow> well_shaped r"
    and "r \<in> set (map snd rows) \<Longrightarrow> q \<in> set (map snd rows) \<Longrightarrow> \<not> str_truthy (so_archivedAt r) \<Longrightarrow>
      takes_slug r q \<Longrightarrow> r = q"
  using assms unfolding registry_inv_def slugs_unique_def by blast+

lemma registry_invI:
  assumes "rows_ok rows" "\<And>r. r \<in> set (map snd rows) \<Longrightarrow> well_shaped r"
    and "\<And>r q. r \<in> set (map snd rows) \<Longrightarrow> q \<in> set (map snd rows) \<Longrightarrow> \<not> str_truthy (so_archivedAt r) \<Longrightarrow>
      takes_slug r q \<Longrightarrow> r = q"
  shows "registry_inv rows"
  unfolding registry_inv_def slugs_unique_def using assms by blast

lemma takes_slug_sym:
  "\<not> str_truthy (so_archivedAt r) \<Longrightarrow> takes_slug r q \<Longrightarrow> \<not> str_truthy (so_archivedAt q) \<and> takes_slug q r"
  by (simp add: takes_slug_def)

lemma create_inv [invs]:
  assumes inv: "registry_inv rows" and shape: "well_shaped row"
    and res: "scoped_create entity row rows = Inr (row', rows')"
  shows "registry_inv rows'"
proof -
  from res have new: "map_of rows (so_id row) = None" and free: "\<not> list_ex (takes_slug row) (map snd rows)"
    and rows': "rows' = AList.update (so_id row) row rows"
    by (auto simp: scoped_create_def split: if_splits)
  note ok = registry_invD(1) [OF inv]
  have mem: "q \<in> set (map snd rows') \<longleftrightarrow> q = row \<or> (q \<in> set (map snd rows) \<and> so_id q \<noteq> so_id row)" for q
    unfolding rows' by (rule members_update [OF ok refl])
  have free': "\<not> takes_slug row q" if "q \<in> set (map snd rows)" for q
    using free that unfolding list_ex_iff by blast
  show ?thesis
  proof (rule registry_invI)
    show "rows_ok rows'" unfolding rows' by (rule rows_ok_update [OF ok refl])
    show "well_shaped r" if "r \<in> set (map snd rows')" for r
      using that unfolding mem using shape registry_invD(2) [OF inv] by blast
    show "r = q" if "r \<in> set (map snd rows')" "q \<in> set (map snd rows')" "\<not> str_truthy (so_archivedAt r)" "takes_slug r q" for r q
      using that unfolding mem using free' takes_slug_sym [OF that(3,4)] registry_invD(3) [OF inv] by blast
  qed
qed

lemma update_inv [invs]:
  assumes inv: "registry_inv rows" and keeps: "keeps_slug patch"
    and res: "scoped_update entity now i patch updatedAt rows = Inr (row', rows')"
  shows "registry_inv rows'"
proof -
  from res obtain old where old: "map_of rows i = Some old"
    and row': "row' = (patch old)\<lparr>so_id := so_id old, so_updatedAt := nullish updatedAt now\<rparr>"
    and rows': "rows' = AList.update i row' rows"
    unfolding scoped_update_def Let_def by (cases "map_of rows i") auto
  note ok = registry_invD(1) [OF inv]
  have i: "so_id row' = i" using rows_ok_map_of [OF ok old] by (simp add: row')
  have kept: "so_slug row' = so_slug old" "so_scope row' = so_scope old" "so_tenantId row' = so_tenantId old"
    "so_environmentId row' = so_environmentId old" "str_truthy (so_archivedAt old) \<longrightarrow> str_truthy (so_archivedAt row')"
    using keeps by (auto simp: keeps_slug_def row')
  have old_mem: "old \<in> set (map snd rows)"
    using rows_ok_mem [OF ok, of old] rows_ok_map_of [OF ok old] old by simp
  have mem: "q \<in> set (map snd rows') \<longleftrightarrow> q = row' \<or> (q \<in> set (map snd rows) \<and> so_id q \<noteq> i)" for q
    unfolding rows' by (rule members_update [OF ok i])
  have other: False
    if "q \<in> set (map snd rows)" "so_id q \<noteq> i" "\<not> str_truthy (so_archivedAt row')" "takes_slug row' q" for q
  proof -
    from that kept have "\<not> str_truthy (so_archivedAt old)" "takes_slug old q" by (auto simp: takes_slug_def)
    from registry_invD(3) [OF inv old_mem that(1) this] that(2) rows_ok_map_of [OF ok old]
    show False by simp
  qed
  show ?thesis
  proof (rule registry_invI)
    show "rows_ok rows'" unfolding rows' by (rule rows_ok_update [OF ok i])
    have "well_shaped row'"
      using registry_invD(2) [OF inv old_mem] kept by (simp add: well_shaped_def split: data_scope.splits)
    then show "well_shaped r" if "r \<in> set (map snd rows')" for r
      using that unfolding mem using registry_invD(2) [OF inv] by blast
    show "r = q" if "r \<in> set (map snd rows')" "q \<in> set (map snd rows')" "\<not> str_truthy (so_archivedAt r)" "takes_slug r q" for r q
      using that unfolding mem using other takes_slug_sym [OF that(3,4)] registry_invD(3) [OF inv] by blast
  qed
qed

lemma delete_inv [invs]:
  assumes inv: "registry_inv rows"
  shows "registry_inv (crud_delete i rows)"
proof -
  note mem = members_delete [OF registry_invD(1) [OF inv]]
  show ?thesis
    unfolding crud_delete_def
    by (rule registry_invI) (use mem registry_invD [OF inv] rows_ok_delete in blast)+
qed

lemma registry_reach_inv: "registry_reach entity rows \<Longrightarrow> registry_inv rows"
proof (induction rule: registry_reach.induct)
  case rr_empty
  show ?case by (simp add: registry_inv_def rows_ok_def slugs_unique_def)
qed (auto intro: invs)

text \<open>So the rows that match a request have pairwise different ranks.\<close>

lemma match_unique:
  assumes inv: "registry_inv rows" and "r \<in> set (map snd rows)" "q \<in> set (map snd rows)"
    and m: "slug_match args r" "slug_match args q" and rank: "scope_rank (so_scope r) = scope_rank (so_scope q)"
  shows "r = q"
proof -
  have scope: "so_scope r = so_scope q"
    using rank by (cases "so_scope r"; cases "so_scope q") simp_all
  have "so_tenantId r = so_tenantId q \<and> so_environmentId r = so_environmentId q"
    using registry_invD(2) [OF inv assms(2)] registry_invD(2) [OF inv assms(3)] m scope
    by (cases "so_scope q") (simp_all add: well_shaped_def slug_match_def)
  with m scope have "\<not> str_truthy (so_archivedAt r)" "takes_slug r q"
    by (simp_all add: takes_slug_def slug_match_def live_slug_def)
  from registry_invD(3) [OF inv assms(2,3) this] show ?thesis .
qed

lemma connection_ranked: "registry_inv rows \<Longrightarrow> connection_slugs.ranked rows args"
  using match_unique by (fastforce simp: connection_slugs.ranked_def connection_slugs.candidates_def)

lemma dataset_ranked: "registry_inv rows \<Longrightarrow> dataset_slugs.ranked rows args"
  using match_unique by (fastforce simp: dataset_slugs.ranked_def dataset_slugs.candidates_def)

section \<open>Aliases\<close>

lemma alias_resolve_upsert:
  "da_id row \<noteq> [] \<Longrightarrow> alias_resolve (alias_upsert row repo) (da_datasetId row) (da_alias row) = Some row"
  by (simp add: alias_resolve_def alias_upsert_def Let_def)

lemma alias_resolve_delete: "alias_resolve (alias_delete datasetId alias repo) datasetId alias = None"
proof (cases "map_of (ar_byKey repo) (keyOf datasetId alias)")
  case None
  then show ?thesis by (simp add: alias_resolve_def alias_delete_def Let_def)
next
  case (Some i)
  then show ?thesis by (cases "i = []") (simp_all add: alias_resolve_def alias_delete_def Let_def del: map_of_eq_Some_iff Some_eq_map_of_iff)
qed

text \<open>
  Moving a row to another alias leaves the index of the old one behind: the old alias then
  answers with a row that does not carry it.
\<close>

lemma alias_moved_row_answers_old_alias:
  assumes "da_id row \<noteq> []" "keyOf (da_datasetId row) (da_alias row) \<noteq> keyOf (da_datasetId row) b"
    and "map_of (ar_byKey repo) (keyOf (da_datasetId row) b) = None"
  shows "alias_resolve (alias_upsert (row\<lparr>da_alias := b\<rparr>) (alias_upsert row repo)) (da_datasetId row) (da_alias row) =
    Some (row\<lparr>da_alias := b\<rparr>)"
  using assms by (simp add: alias_resolve_def alias_upsert_def Let_def)

section \<open>Examples\<close>

definition ex_conn :: "string \<Rightarrow> data_scope \<Rightarrow> string option \<Rightarrow> string option \<Rightarrow> ConnectionRow" where
  "ex_conn i k t e = \<lparr>so_id = i, so_displayName = [], so_description = None, so_createdAt = [], so_scope = k, so_tenantId = t, so_environmentId = e, so_slug = ''pg'',
     so_archivedAt = None, so_updatedAt = [], cn_kind = ''postgres'', cn_config = [], cn_secretRefKey = Some ''pw'',
     cn_allowedHosts = [], cn_denyPrivateNetworks = False,
     cn_lastProbedAt = None, cn_lastProbeOk = None, cn_lastProbeError = None\<rparr>"

definition ex_global_conn :: ConnectionRow where
  "ex_global_conn = ex_conn ''c0'' DS_global None None"

definition ex_tenant_conn :: ConnectionRow where
  "ex_tenant_conn = ex_conn ''c1'' DS_tenant (Some ''acme'') None"

definition ex_conns :: "ConnectionRow rows" where
  "ex_conns = [(''c0'', ex_global_conn), (''c1'', ex_tenant_conn)]"

lemma ex_conns_reach: "registry_reach ''connection'' ex_conns"
proof -
  have "registry_reach ''connection'' [(''c0'', ex_global_conn)]"
    by (rule rr_create [OF rr_empty, of ex_global_conn])
       (simp_all add: well_shaped_def scoped_create_def ex_global_conn_def ex_conn_def)
  then show ?thesis
    by (rule rr_create [of _ _ ex_tenant_conn])
       (simp_all add: well_shaped_def scoped_create_def ex_global_conn_def ex_tenant_conn_def ex_conn_def ex_conns_def
         takes_slug_def)
qed

section \<open>Properties\<close>

lemma resolveSlug_first:
  "resolveSlug rows args = find (\<lambda>r. slug_match args r \<and>
     (\<forall>q \<in> set (map snd rows). slug_match args q \<longrightarrow> scope_rank (so_scope q) \<le> scope_rank (so_scope r))) (map snd rows)"
  (is "_ = find ?best _")
proof -
  let ?all = "filter (live_slug (sa_slug args)) (map snd rows)"
  let ?t = "str_truthy (sa_tenantId args)" and ?e = "str_truthy (sa_environmentId args)"
  note hits = resolveSlug_hits [OF refl refl refl refl, where rows = rows and args = args]
  have le: "scope_rank k \<le> 2" "k \<noteq> DS_environment \<Longrightarrow> scope_rank k \<le> 1"
    "k \<noteq> DS_environment \<Longrightarrow> k \<noteq> DS_tenant \<Longrightarrow> scope_rank k \<le> 0" for k
    by (cases k; simp)+
  have top: "find ?best (map snd rows) = find (\<lambda>x. live_slug (sa_slug args) x \<and> hit x) (map snd rows)"
    if "r \<in> set (map snd rows)" "slug_match args r"
      and "\<And>q. q \<in> set (map snd rows) \<Longrightarrow> slug_match args q \<Longrightarrow> scope_rank (so_scope q) \<le> scope_rank (so_scope r)"
      and "\<And>q. live_slug (sa_slug args) q \<and> hit q \<longleftrightarrow> slug_match args q \<and> so_scope q = so_scope r" for r hit
  proof (rule find_cong [OF refl])
    fix q assume "q \<in> set (map snd rows)"
    moreover have "scope_rank k = scope_rank l \<longleftrightarrow> k = l" for k l by (cases k; cases l) simp_all
    ultimately show "?best q \<longleftrightarrow> live_slug (sa_slug args) q \<and> hit q" using that by (metis le_antisym)
  qed
  show ?thesis
  proof (cases "if ?t \<and> ?e then find (env_hit args) ?all else None")
    case env: (Some r)
    then have te: "?t" "?e" by (auto split: if_splits)
    have "find ?best (map snd rows) = find (env_hit args) ?all"
      unfolding find_filter by (rule top [of r]) (use hits(2) [OF env] le(1) te in \<open>auto simp: hit_defs split: data_scope.splits\<close>)
    with env te show ?thesis unfolding hits(1) by simp
  next
    case env: None
    show ?thesis
    proof (cases "if ?t then find (tenant_hit args) ?all else None")
      case ten: (Some r)
      then have t: "?t" by (auto split: if_splits)
      have "find ?best (map snd rows) = find (tenant_hit args) ?all"
        unfolding find_filter
        by (rule top [of r]) (use hits(3) [OF ten] hits(5) [OF env] le(2) t in \<open>auto simp: hit_defs split: data_scope.splits\<close>)
      with env ten t show ?thesis unfolding hits(1) env by simp
    next
      case ten: None
      show ?thesis
      proof (cases "find global_hit ?all")
        case glo: (Some r)
        have "find ?best (map snd rows) = find global_hit ?all"
          unfolding find_filter
          by (rule top [of r]) (use hits(4) [OF glo] hits(5) [OF env] hits(6) [OF ten] le(3) in \<open>auto simp: hit_defs split: data_scope.splits\<close>)
        with env ten glo show ?thesis unfolding hits(1) env ten by simp
      next
        case glo: None
        have "\<not> slug_match args q" if "q \<in> set (map snd rows)" for q
          using hits(5) [OF env that] hits(6) [OF ten that] hits(7) [OF glo that] by (cases "so_scope q") auto
        then have "find ?best (map snd rows) = None" unfolding find_None_all by blast
        then show ?thesis unfolding hits(1) env ten glo by simp
      qed
    qed
  qed
qed

text \<open>
  C34: Whatever rows a registry holds, a connection slug resolves to the first stored of the live rows that carry it, are
  visible to the request and are not surpassed by a more specific one (the environment's, then the tenant's, then
  the global ones), and to nothing when there is none.
\<close>

theorem connection_cascade:
  "connection_resolveSlug rows args = find (\<lambda>r. slug_match args r \<and>
     (\<forall>q \<in> set (map snd rows). slug_match args q \<longrightarrow> scope_rank (so_scope q) \<le> scope_rank (so_scope r))) (map snd rows)"
  unfolding connection_resolveSlug_def by (rule resolveSlug_first)

theorem connection_cascade_witness:
  "connection_resolveSlug ex_conns \<lparr>sa_slug = ''pg'', sa_tenantId = Some ''acme'', sa_environmentId = None\<rparr> =
     Some ex_tenant_conn"
  unfolding connection_cascade
  by (simp add: ex_conns_def ex_tenant_conn_def ex_global_conn_def ex_conn_def slug_match_def live_slug_def)

text \<open>
  What a dataset slug resolves to is decided by the rows the caller may see: two registries
  that agree on them answer the same, whatever other tenants and environments store.
\<close>

theorem dataset_slug_isolated:
  assumes "registry_reach ''dataset'' rows" "registry_reach ''dataset'' rows'"
    and "{r \<in> set (map snd rows). slug_match args r} = {r \<in> set (map snd rows'). slug_match args r}"
  shows "dataset_resolveSlug rows args = dataset_resolveSlug rows' args"
  using dataset_slugs.resolve_isolated [OF dataset_ranked [OF registry_reach_inv [OF assms(1)]]] assms(3)
  by (simp add: dataset_slugs.candidates_def)

definition ex_dataset :: "string \<Rightarrow> string \<Rightarrow> DatasetRow" where
  "ex_dataset i t = \<lparr>so_id = i, so_displayName = [], so_description = None, so_createdAt = [], so_scope = DS_tenant, so_tenantId = Some t, so_environmentId = None,
     so_slug = ''docs'', so_archivedAt = None, so_updatedAt = [], ds_embeddingProfile = JNull, ds_chunkSchema = JNull,
     ds_bindings = [(''text'', Some \<lparr>db_connection = Some ''pg'', db_collection = None, db_namespace = None\<rparr>)],
     ds_currentVersionId = Some ''v1'', ds_createdBy = None\<rparr>"

lemma ex_dataset_reach: "registry_reach ''dataset'' [(i, ex_dataset i (c # t))]"
  by (rule rr_create [OF rr_empty, of "ex_dataset i (c # t)"])
     (simp_all add: well_shaped_def scoped_create_def ex_dataset_def)

theorem dataset_slug_isolated_witness:
  "dataset_resolveSlug [(''d1'', ex_dataset ''d1'' ''other'')]
     \<lparr>sa_slug = ''docs'', sa_tenantId = Some ''acme'', sa_environmentId = None\<rparr> = None"
proof -
  have "dataset_resolveSlug [(''d1'', ex_dataset ''d1'' ''other'')]
      \<lparr>sa_slug = ''docs'', sa_tenantId = Some ''acme'', sa_environmentId = None\<rparr> =
      dataset_resolveSlug [] \<lparr>sa_slug = ''docs'', sa_tenantId = Some ''acme'', sa_environmentId = None\<rparr>"
    by (rule dataset_slug_isolated [OF ex_dataset_reach rr_empty])
       (simp add: ex_dataset_def slug_match_def)
  then show ?thesis by (simp add: dataset_resolveSlug_def resolveSlug_def)
qed

text \<open>
  Updating a row is not checked against the slugs in use: archiving a connection, creating
  its successor and taking back the archiving leaves two live connections with one slug.
\<close>

theorem update_duplicates_slug:
  "\<exists>rows1 rows2 rows3.
     connection_update ''now'' ''c1'' (\<lambda>r. r\<lparr>so_archivedAt := Some ''now''\<rparr>) None [(''c1'', ex_tenant_conn)] = Inr rows1 \<and>
     connection_create (ex_conn ''c2'' DS_tenant (Some ''acme'') None) (snd rows1) = Inr rows2 \<and>
     connection_update ''now'' ''c1'' (\<lambda>r. r\<lparr>so_archivedAt := None\<rparr>) None (snd rows2) = Inr rows3 \<and>
     \<not> slugs_unique (snd rows3)"
  by (simp add: connection_update_def connection_create_def scoped_update_def scoped_create_def ex_tenant_conn_def
      ex_conn_def takes_slug_def slugs_unique_def Let_def)

end
