(* ===== verification/Secrets.thy ===== *)
theory Secrets
  imports Execution_Store
begin

text \<open>
  The secret store (\<open>packages/secrets/src/index.ts\<close>): the key text of a secret reference,
  the in-memory repository, the encrypting provider with its tenant boundary, the layout of a
  ciphertext (nonce, tag and sealed text in base64), and the cascade by which a connection
  finds its secret.  AES-256-GCM, SHA-256 and random bytes come from the platform: sealing,
  opening and hashing are parameters, and every nonce is an argument.
\<close>

section \<open>Bytes and base64\<close>

type_synonym bytes = "8 word list"

definition b64_alphabet :: string where
  "b64_alphabet = ''ABCDEFGHIJKLMNOPQRSTUVWXYZabcdefghijklmnopqrstuvwxyz0123456789+/''"

definition b64_char :: "nat \<Rightarrow> char" where
  "b64_char n = b64_alphabet ! n"

definition b64_digit :: "nat \<Rightarrow> nat \<Rightarrow> char" where
  "b64_digit n k = b64_char (n div k mod 64)"

fun to_base64 :: "bytes \<Rightarrow> string" where
  "to_base64 [] = []"
| "to_base64 [a] = (let n = unat a * 65536 in [b64_digit n 262144, b64_digit n 4096] @ ''=='')"
| "to_base64 [a, b] = (let n = unat a * 65536 + unat b * 256 in
     [b64_digit n 262144, b64_digit n 4096, b64_digit n 64] @ ''='')"
| "to_base64 (a # b # c # bs) = (let n = unat a * 65536 + unat b * 256 + unat c in
     [b64_digit n 262144, b64_digit n 4096, b64_digit n 64, b64_digit n 1] @ to_base64 bs)"

text \<open>Decoding skips foreign characters, stops at the padding and also reads the URL alphabet.\<close>

fun index_of :: "'a \<Rightarrow> 'a list \<Rightarrow> nat option" where
  "index_of x [] = None"
| "index_of x (y # ys) = (if x = y then Some 0 else map_option Suc (index_of x ys))"

definition b64_val :: "char \<Rightarrow> nat option" where
  "b64_val c = (if c = CHR ''-'' then Some 62 else if c = CHR ''_'' then Some 63 else index_of c b64_alphabet)"

fun group_bytes :: "nat list \<Rightarrow> bytes" where
  "group_bytes (p # q # r # s # ns) =
     (let n = p * 262144 + q * 4096 + r * 64 + s
      in of_nat (n div 65536) # of_nat (n div 256 mod 256) # of_nat (n mod 256) # group_bytes ns)"
| "group_bytes [p, q, r] =
     (let n = p * 262144 + q * 4096 + r * 64 in [of_nat (n div 65536), of_nat (n div 256 mod 256)])"
| "group_bytes [p, q] = (let n = p * 262144 + q * 4096 in [of_nat (n div 65536)])"
| "group_bytes [p] = []"
| "group_bytes [] = []"

definition from_base64 :: "string \<Rightarrow> bytes" where
  "from_base64 s = group_bytes (List.map_filter b64_val (takeWhile (\<lambda>c. c \<noteq> CHR ''='') s))"

section \<open>Ciphertexts\<close>

text \<open>
  AES-256-GCM on the UTF-8 bytes of a text: sealing under a key and a nonce gives the
  ciphertext and the tag; opening fails unless the tag fits.
\<close>

record gcm =
  gcm_seal :: "bytes \<Rightarrow> bytes \<Rightarrow> string \<Rightarrow> bytes \<times> bytes"
  gcm_open :: "bytes \<Rightarrow> bytes \<Rightarrow> bytes \<Rightarrow> bytes \<Rightarrow> string option"

definition encrypt :: "gcm \<Rightarrow> bytes \<Rightarrow> string \<Rightarrow> bytes \<Rightarrow> string" where
  "encrypt g iv value key = (let (ciphertext, tag) = gcm_seal g key iv value in to_base64 (iv @ tag @ ciphertext))"

definition decrypt :: "gcm \<Rightarrow> string \<Rightarrow> bytes \<Rightarrow> string option" where
  "decrypt g payload key =
     (let buffer = from_base64 payload;
          iv = take 12 buffer; tag = drop 12 (take 28 buffer); ciphertext = drop 28 buffer
      in gcm_open g key iv tag ciphertext)"

text \<open>What the platform documents of the cipher: 16 bytes of tag, and opening undoes sealing.\<close>

definition gcm_ok :: "gcm \<Rightarrow> bool" where
  "gcm_ok g \<longleftrightarrow> (\<forall>key iv v. length (snd (gcm_seal g key iv v)) = 16 \<and>
     gcm_open g key iv (snd (gcm_seal g key iv v)) (fst (gcm_seal g key iv v)) = Some v)"

section \<open>References and records\<close>

definition secretRefKey :: "SecretRef \<Rightarrow> string" where
  "secretRefKey r = js_join '':'' [secret_scope_str (sr_scope r), nullish (sr_tenantId r) [],
     nullish (sr_environment r) [], sr_key r, nullish (sr_version r) []]"

record SecretRecord =
  sc_id :: string
  sc_provider :: SecretProviderKind
  sc_ref :: SecretRef
  sc_ciphertext :: string
  sc_version :: string
  sc_keyId :: string
  sc_createdAt :: string
  sc_updatedAt :: string
  sc_metadata :: "(string \<times> json) list option"

text \<open>A partial reference; an absent field constrains nothing.\<close>

record SecretRefFilter =
  sp_provider :: "SecretProviderKind option"
  sp_scope :: "secret_scope option"
  sp_tenantId :: "string option"
  sp_environment :: "string option"
  sp_key :: "string option"
  sp_version :: "string option"

definition matchesPartialRef :: "SecretRef \<Rightarrow> SecretRefFilter \<Rightarrow> bool" where
  "matchesPartialRef r f \<longleftrightarrow>
     (sp_provider f = None \<or> sr_provider r = sp_provider f) \<and>
     (sp_scope f = None \<or> Some (sr_scope r) = sp_scope f) \<and>
     (sp_tenantId f = None \<or> sr_tenantId r = sp_tenantId f) \<and>
     (sp_environment f = None \<or> sr_environment r = sp_environment f) \<and>
     (sp_key f = None \<or> Some (sr_key r) = sp_key f) \<and>
     (sp_version f = None \<or> sr_version r = sp_version f)"

section \<open>The repository\<close>

type_synonym SecretRepository = "(string, SecretRecord) jsmap"

definition secret_upsert :: "SecretRecord \<Rightarrow> SecretRepository \<Rightarrow> SecretRepository" where
  "secret_upsert rec repo = AList.update (secretRefKey (sc_ref rec)) rec repo"

definition secret_find :: "SecretRepository \<Rightarrow> SecretRef \<Rightarrow> SecretRecord option" where
  "secret_find repo r = map_of repo (secretRefKey r)"

definition secret_delete :: "SecretRef \<Rightarrow> SecretRepository \<Rightarrow> SecretRepository" where
  "secret_delete r repo = AList.delete (secretRefKey r) repo"

definition secret_list :: "SecretRepository \<Rightarrow> SecretRefFilter \<Rightarrow> SecretRecord list" where
  "secret_list repo f = filter (\<lambda>rec. matchesPartialRef (sc_ref rec) f) (map snd repo)"

section \<open>The encrypting provider\<close>

record KeyEncryptionKeyProvider =
  kp_currentKey :: "string \<times> bytes"
  kp_keyById :: "string \<Rightarrow> bytes option"

definition StaticKeyProvider :: "(string \<Rightarrow> bytes) \<Rightarrow> string \<Rightarrow> KeyEncryptionKeyProvider" where
  "StaticKeyProvider sha256 secret =
     (let key = sha256 secret in \<lparr>kp_currentKey = (''static-env-key'', key), kp_keyById = (\<lambda>_. Some key)\<rparr>)"

datatype secret_error = SecretNotFoundError string | SecretAccessDeniedError | Key_not_found string
  | Decryption_failed

record secret_service =
  sv_gcm :: gcm
  sv_keys :: KeyEncryptionKeyProvider
  sv_sha256_hex :: "string \<Rightarrow> string"

definition next_version :: "SecretRecord option \<Rightarrow> string" where
  "next_version existing = nat_str (str_nat (nullish (map_option sc_version existing) ''0'') + 1)"

definition secret_put ::
  "secret_service \<Rightarrow> bytes \<Rightarrow> string \<Rightarrow> SecretRef \<Rightarrow> string \<Rightarrow> (string \<times> json) list option \<Rightarrow>
   SecretRepository \<Rightarrow> SecretRecord \<times> SecretRepository"
where
  "secret_put sv iv now r value metadata repo =
     (let (keyId, key) = kp_currentKey (sv_keys sv);
          encrypted = encrypt (sv_gcm sv) iv value key;
          existing = secret_find repo r;
          rec = \<lparr>sc_id = nullish (map_option sc_id existing) (sv_sha256_hex sv (secretRefKey r)),
            sc_provider = SP_database_encrypted,
            sc_ref = r\<lparr>sr_provider := Some SP_database_encrypted\<rparr>,
            sc_ciphertext = encrypted,
            sc_version = next_version existing,
            sc_keyId = keyId,
            sc_createdAt = nullish (map_option sc_createdAt existing) now,
            sc_updatedAt = now,
            sc_metadata = metadata\<rparr>
      in (rec, secret_upsert rec repo))"

definition enforceTenantBoundary :: "SecretRef \<Rightarrow> string option \<Rightarrow> secret_error + unit" where
  "enforceTenantBoundary r boundary =
     (if str_truthy boundary \<and> str_truthy (sr_tenantId r) \<and> sr_tenantId r \<noteq> boundary
      then Inl SecretAccessDeniedError else Inr ())"

definition resolveTenantRef :: "SecretRef \<Rightarrow> string option \<Rightarrow> SecretRef" where
  "resolveTenantRef r boundary =
     (if sr_scope r \<noteq> SS_tenant then r
      else if str_truthy (sr_tenantId r) then r
      else if \<not> str_truthy boundary then r
      else r\<lparr>sr_tenantId := boundary\<rparr>)"

definition secret_get :: "secret_service \<Rightarrow> SecretRepository \<Rightarrow> SecretRef \<Rightarrow> string option \<Rightarrow> secret_error + string" where
  "secret_get sv repo r boundary =
     (case enforceTenantBoundary r boundary of
        Inl e \<Rightarrow> Inl e
      | Inr _ \<Rightarrow>
          let lookupRef = resolveTenantRef r boundary
          in case secret_find repo lookupRef of
               None \<Rightarrow> Inl (SecretNotFoundError (secretRefKey lookupRef))
             | Some rec \<Rightarrow>
                 (case kp_keyById (sv_keys sv) (sc_keyId rec) of
                    None \<Rightarrow> Inl (Key_not_found (sc_keyId rec))
                  | Some key \<Rightarrow>
                      (case decrypt (sv_gcm sv) (sc_ciphertext rec) key of
                         None \<Rightarrow> Inl Decryption_failed
                       | Some v \<Rightarrow> Inr v)))"

definition secret_remove :: "SecretRef \<Rightarrow> string option \<Rightarrow> SecretRepository \<Rightarrow> secret_error + SecretRepository" where
  "secret_remove r boundary repo =
     (case enforceTenantBoundary r boundary of
        Inl e \<Rightarrow> Inl e
      | Inr _ \<Rightarrow> Inr (secret_delete (resolveTenantRef r boundary) repo))"

text \<open>Listings leave the ciphertext out.\<close>

record listed_secret =
  ls_id :: string
  ls_provider :: SecretProviderKind
  ls_ref :: SecretRef
  ls_version :: string
  ls_createdAt :: string
  ls_updatedAt :: string
  ls_metadata :: "(string \<times> json) list option"

definition without_ciphertext :: "SecretRecord \<Rightarrow> listed_secret" where
  "without_ciphertext rec = \<lparr>ls_id = sc_id rec, ls_provider = sc_provider rec, ls_ref = sc_ref rec,
     ls_version = sc_version rec, ls_createdAt = sc_createdAt rec, ls_updatedAt = sc_updatedAt rec,
     ls_metadata = sc_metadata rec\<rparr>"

definition provider_list :: "SecretRepository \<Rightarrow> SecretRefFilter \<Rightarrow> listed_secret list" where
  "provider_list repo f = map without_ciphertext (secret_list repo f)"

section \<open>Secrets of connections\<close>

definition secret_attempts :: "string \<Rightarrow> string option \<Rightarrow> string option \<Rightarrow> SecretRef list" where
  "secret_attempts key tenantId environment =
     (if str_truthy tenantId \<and> str_truthy environment
      then [\<lparr>sr_provider = None, sr_scope = SS_environment, sr_tenantId = tenantId, sr_environment = environment,
              sr_key = key, sr_version = None\<rparr>] else []) @
     (if str_truthy tenantId
      then [\<lparr>sr_provider = None, sr_scope = SS_tenant, sr_tenantId = tenantId, sr_environment = None,
              sr_key = key, sr_version = None\<rparr>] else []) @
     [\<lparr>sr_provider = None, sr_scope = SS_global, sr_tenantId = None, sr_environment = None,
        sr_key = key, sr_version = None\<rparr>]"

text \<open>\<open>get\<close> is the provider's read; a failure of any kind falls through to the next attempt.\<close>

fun first_hit :: "(SecretRef \<Rightarrow> string \<Rightarrow> 'e + string) \<Rightarrow> string \<Rightarrow> SecretRef list \<Rightarrow> string option" where
  "first_hit get boundary [] = None"
| "first_hit get boundary (r # rs) = (case get r boundary of Inr v \<Rightarrow> Some v | Inl e \<Rightarrow> first_hit get boundary rs)"

definition resolveConnectionSecret ::
  "(SecretRef \<Rightarrow> string \<Rightarrow> 'e + string) \<Rightarrow> string \<Rightarrow> string option \<Rightarrow> string option \<Rightarrow> string option"
where
  "resolveConnectionSecret get key tenantId environment =
     first_hit get (nullish tenantId []) (secret_attempts key tenantId environment)"

section \<open>Base64 and ciphertexts round trip\<close>

lemma b64_table: "list_all (\<lambda>n. b64_val (b64_char n) = Some n \<and> b64_char n \<noteq> CHR ''='') [0..<64]"
  by code_simp

lemma b64_val_char: "n < 64 \<Longrightarrow> b64_val (b64_char n) = Some n" "n < 64 \<Longrightarrow> b64_char n \<noteq> CHR ''=''"
  using b64_table by (simp_all add: list_all_iff)

lemma b64_val_digit [simp]: "b64_val (b64_digit n k) = Some (n div k mod 64)" "b64_digit n k \<noteq> CHR ''=''"
  by (simp_all add: b64_digit_def b64_val_char)

lemma four_digits:
  assumes "n < (16777216 :: nat)"
  shows "n div 262144 mod 64 * 262144 + n div 4096 mod 64 * 4096 + n div 64 mod 64 * 64 + n mod 64 = n"
proof -
  define m k j where "m = n div 64" "k = m div 64" "j = k div 64"
  have "n div 4096 = k" "n div 262144 = j"
    by (simp_all add: m_k_j_def div_mult2_eq [symmetric])
  moreover have "j < 64" using assms by (simp add: m_k_j_def div_mult2_eq [symmetric] less_mult_imp_div_less)
  moreover have "n = 64 * m + n mod 64" "m = 64 * k + m mod 64" "k = 64 * j + k mod 64"
    by (simp_all add: m_k_j_def)
  ultimately show ?thesis unfolding m_k_j_def(1) [symmetric] by simp
qed

lemma bytes_of_number:
  fixes a b c :: nat assumes "a < 256" "b < 256" "c < 256"
  shows "(a * 65536 + b * 256 + c) div 65536 = a" "(a * 65536 + b * 256 + c) div 256 mod 256 = b"
    "(a * 65536 + b * 256 + c) mod 256 = c" "a * 65536 + b * 256 + c < 16777216"
proof -
  define x where "x = b + 256 * a"
  have n: "a * 65536 + b * 256 + c = c + 256 * x" by (simp add: x_def)
  have dm: "(d + 256 * y) div 256 = y" "(d + 256 * y) mod 256 = d" if "d < 256" for d y :: nat
    using that by simp_all
  have x: "(c + 256 * x) div 256 = x" "(c + 256 * x) mod 256 = c" "x div 256 = a" "x mod 256 = b"
    unfolding x_def using dm assms by blast+
  have "(c + 256 * x) div 65536 = (c + 256 * x) div 256 div 256"
    by (simp add: div_mult2_eq [symmetric])
  with x show "(a * 65536 + b * 256 + c) div 65536 = a" "(a * 65536 + b * 256 + c) div 256 mod 256 = b"
    "(a * 65536 + b * 256 + c) mod 256 = c"
    unfolding n by simp_all
  show "a * 65536 + b * 256 + c < 16777216" using assms by simp
qed

lemma byte_of_nat [simp]: "(of_nat (unat a) :: 8 word) = a"
  by simp

lemma byte_bound: "unat (a :: 8 word) < 256"
proof -
  have "unat a < 2 ^ LENGTH(8)" by (rule unsigned_less)
  then show ?thesis by simp
qed

lemma map_filter_digits:
  "List.map_filter b64_val (takeWhile (\<lambda>c. c \<noteq> CHR ''='') (map (b64_digit n) ks @ s)) =
     map (\<lambda>k. n div k mod 64) ks @ List.map_filter b64_val (takeWhile (\<lambda>c. c \<noteq> CHR ''='') s)"
  by (induction ks) (simp_all add: List.map_filter_simps)

lemma from_base64_to_base64: "from_base64 (to_base64 bs) = bs"
proof (induction bs rule: to_base64.induct)
  case 1
  show ?case by (simp add: from_base64_def List.map_filter_simps)
next
  case (2 a)
  define n where "n = unat a * 65536"
  have nb: "n div 65536 = unat a" "n < 16777216"
    using byte_bound [of a] by (simp_all add: n_def)
  have "n div 64 = 64 * (16 * unat a)" "n = 64 * (1024 * unat a)" by (simp_all add: n_def)
  then have "n div 64 mod 64 = 0" "n mod 64 = 0" by simp_all
  then have n: "n div 262144 mod 64 * 262144 + n div 4096 mod 64 * 4096 = n"
    using four_digits [OF nb(2)] by (simp only: mult_0 add_0_right)
  show ?case
    using map_filter_digits [of n "[262144, 4096]" "''==''"] n nb
    by (simp add: from_base64_def n_def [symmetric] List.map_filter_simps)
next
  case (3 a b)
  define n where "n = unat a * 65536 + unat b * 256"
  have nb: "n div 65536 = unat a" "n div 256 mod 256 = unat b" "n < 16777216"
    using bytes_of_number [OF byte_bound [of a] byte_bound [of b], of 0] by (simp_all add: n_def)
  have "n = 64 * (1024 * unat a + 4 * unat b)" by (simp add: n_def)
  then have "n mod 64 = 0" by simp
  then have n: "n div 262144 mod 64 * 262144 + n div 4096 mod 64 * 4096 + n div 64 mod 64 * 64 = n"
    using four_digits [OF nb(3)] by (simp only: mult_0 add_0_right)
  show ?case
    using map_filter_digits [of n "[262144, 4096, 64]" "''=''"] n nb
    by (simp add: from_base64_def n_def [symmetric] List.map_filter_simps)
next
  case (4 a b c bs)
  define n where "n = unat a * 65536 + unat b * 256 + unat c"
  note nb = bytes_of_number [OF byte_bound byte_bound byte_bound, of a b c, folded n_def]
  show ?case
    using map_filter_digits [of n "[262144, 4096, 64, 1]" "to_base64 bs"] four_digits [OF nb(4)] nb 4
    by (simp add: from_base64_def n_def [symmetric])
qed

lemma decrypt_encrypt:
  assumes "gcm_ok g" "length iv = 12"
  shows "decrypt g (encrypt g iv v key) key = Some v"
  using assms by (auto simp: decrypt_def encrypt_def Let_def split_beta from_base64_to_base64 gcm_ok_def)

section \<open>Key texts identify references\<close>

definition colon_free :: "string option \<Rightarrow> bool" where
  "colon_free x \<longleftrightarrow> CHR '':'' \<notin> set (nullish x [])"

definition ref_plain :: "SecretRef \<Rightarrow> bool" where
  "ref_plain r \<longleftrightarrow> colon_free (sr_tenantId r) \<and> colon_free (sr_environment r) \<and> colon_free (sr_version r)"

lemma last_sep_inject:
  assumes "(d :: char) \<notin> set v" "d \<notin> set v'"
  shows "k @ d # v = k' @ d # v' \<longleftrightarrow> k = k' \<and> v = v'"
proof
  assume "k @ d # v = k' @ d # v'"
  then have "rev (k @ d # v) = rev (k' @ d # v')" by simp
  then have "split_on d (rev v @ d # rev k) = split_on d (rev v' @ d # rev k')" by simp
  with assms have "rev v = rev v'" "split_on d (rev k) = split_on d (rev k')"
    by (simp_all add: split_on_append)
  then show "k = k' \<and> v = v'" by (metis js_join_split_on rev_is_rev_conv)
qed simp

lemma scope_str_plain: "CHR '':'' \<notin> set (secret_scope_str k)"
  by (cases k) simp_all

lemma scope_str_inject: "secret_scope_str k = secret_scope_str l \<longleftrightarrow> k = l"
  by (cases k; cases l) simp_all

lemma secretRefKey_parts:
  "secretRefKey r = secret_scope_str (sr_scope r) @ CHR '':'' # nullish (sr_tenantId r) [] @ CHR '':'' #
     nullish (sr_environment r) [] @ CHR '':'' # sr_key r @ CHR '':'' # nullish (sr_version r) []"
  by (simp add: secretRefKey_def)

lemma first_sep_inject:
  assumes "(d :: char) \<notin> set u" "d \<notin> set u'"
  shows "u @ d # x = u' @ d # x' \<longleftrightarrow> u = u' \<and> x = x'"
proof
  assume "u @ d # x = u' @ d # x'"
  then have "split_on d (u @ d # x) = split_on d (u' @ d # x')" by simp
  with assms show "u = u' \<and> x = x'" by (simp add: split_on_append) (metis js_join_split_on)
qed simp

lemma key_eq_parts:
  assumes "ref_plain r" "ref_plain q"
  shows "secretRefKey r = secretRefKey q \<longleftrightarrow>
    sr_scope r = sr_scope q \<and> nullish (sr_tenantId r) [] = nullish (sr_tenantId q) [] \<and>
    nullish (sr_environment r) [] = nullish (sr_environment q) [] \<and> sr_key r = sr_key q \<and>
    nullish (sr_version r) [] = nullish (sr_version q) []"
  unfolding secretRefKey_parts
  using assms by (simp add: ref_plain_def colon_free_def first_sep_inject last_sep_inject scope_str_plain scope_str_inject)

text \<open>Without the restriction two references can share one key text.\<close>

lemma key_texts_collide:
  "secretRefKey \<lparr>sr_provider = None, sr_scope = SS_environment, sr_tenantId = Some ''t'', sr_environment = Some ''dev:eu'',
       sr_key = ''k'', sr_version = None\<rparr> =
   secretRefKey \<lparr>sr_provider = None, sr_scope = SS_environment, sr_tenantId = Some ''t'', sr_environment = Some ''dev'',
       sr_key = ''eu:k'', sr_version = None\<rparr>"
  by (simp add: secretRefKey_def)

section \<open>The provider\<close>

interpretation secret_rows: keyed_store secret_upsert "map_of" "map snd" "\<lambda>rec. secretRefKey (sc_ref rec)"
    "\<lambda>repo. distinct (map fst repo) \<and> (\<forall>(k, rec) \<in> set repo. k = secretRefKey (sc_ref rec))"
proof
  fix repo :: SecretRepository and v :: SecretRecord and k
  let ?key = "\<lambda>rec. secretRefKey (sc_ref rec)"
  let ?ok = "\<lambda>repo. distinct (map fst repo) \<and> (\<forall>(k, rec) \<in> set repo. k = ?key rec)"
  assume ok: "?ok repo"
  show "map_of (secret_upsert v repo) k = (if k = ?key v then Some v else map_of repo k)"
    by (simp add: secret_upsert_def)
  have "set (AList.update (?key v) v repo) \<subseteq> insert (?key v, v) (set repo)"
    by (rule set_update_subset)
  with ok show "?ok (secret_upsert v repo)"
    by (auto simp: secret_upsert_def distinct_update)
  show "v \<in> set (map snd repo) \<longleftrightarrow> map_of repo (?key v) = Some v"
    using ok by force
qed

definition keys_ok :: "secret_service \<Rightarrow> bool" where
  "keys_ok sv \<longleftrightarrow> kp_keyById (sv_keys sv) (fst (kp_currentKey (sv_keys sv))) = Some (snd (kp_currentKey (sv_keys sv)))"

lemma keys_ok_static: "keys_ok \<lparr>sv_gcm = g, sv_keys = StaticKeyProvider h secret, sv_sha256_hex = hex\<rparr>"
  by (simp add: keys_ok_def StaticKeyProvider_def Let_def)

definition service_ok :: "secret_service \<Rightarrow> bool" where
  "service_ok sv \<longleftrightarrow> gcm_ok (sv_gcm sv) \<and> keys_ok sv"

lemma secretRefKey_provider [simp]: "secretRefKey (r\<lparr>sr_provider := p\<rparr>) = secretRefKey r"
  by (simp add: secretRefKey_def)

lemma find_put:
  "secret_find (snd (secret_put sv iv now w v md repo)) r =
     (if secretRefKey r = secretRefKey w then Some (fst (secret_put sv iv now w v md repo)) else secret_find repo r)"
  by (simp add: secret_put_def secret_find_def secret_upsert_def Let_def split_beta)

lemma record_of_put:
  "sc_keyId (fst (secret_put sv iv now w v md repo)) = fst (kp_currentKey (sv_keys sv))"
  "sc_ciphertext (fst (secret_put sv iv now w v md repo)) = encrypt (sv_gcm sv) iv v (snd (kp_currentKey (sv_keys sv)))"
  "sc_version (fst (secret_put sv iv now w v md repo)) = next_version (secret_find repo w)"
  by (simp_all add: secret_put_def Let_def split_beta)

lemma get_after_put:
  assumes ok: "service_ok sv" and iv: "length iv = 12"
  shows "secret_get sv (snd (secret_put sv iv now w v md repo)) r b =
    (case enforceTenantBoundary r b of
       Inl e \<Rightarrow> Inl e
     | Inr _ \<Rightarrow> if secretRefKey (resolveTenantRef r b) = secretRefKey w then Inr v else secret_get sv repo r b)"
proof (cases "enforceTenantBoundary r b")
  case (Inl e)
  then show ?thesis by (simp add: secret_get_def)
next
  case (Inr u)
  have g: "gcm_ok (sv_gcm sv)" and k: "keys_ok sv" using ok by (simp_all add: service_ok_def)
  show ?thesis
  proof (cases "secretRefKey (resolveTenantRef r b) = secretRefKey w")
    case True
    then show ?thesis
      using Inr k decrypt_encrypt [OF g iv]
      by (simp add: secret_get_def Let_def find_put record_of_put keys_ok_def)
  next
    case False
    then show ?thesis using Inr by (simp add: secret_get_def Let_def find_put)
  qed
qed

lemma lookup_tenant:
  assumes "str_truthy b" "enforceTenantBoundary r b = Inr u"
  shows "nullish (sr_tenantId (resolveTenantRef r b)) [] \<in> {[], the b}"
proof -
  obtain t where b: "b = Some t" "t \<noteq> []" using assms(1) by (auto simp: str_truthy_iff)
  show ?thesis
    using assms(2) unfolding b(1) enforceTenantBoundary_def resolveTenantRef_def
    by (cases "sr_tenantId r") (auto split: if_splits simp: b)
qed

lemma lookup_plain:
  "ref_plain r \<Longrightarrow> colon_free b \<Longrightarrow> ref_plain (resolveTenantRef r b)"
  by (simp add: ref_plain_def resolveTenantRef_def)

lemma get_ignores_other_tenant:
  assumes "str_truthy b" "colon_free b" "ref_plain r" "ref_plain w" "str_truthy (sr_tenantId w)" "sr_tenantId w \<noteq> b"
  shows "secret_get sv (snd (secret_put sv iv now w v md repo)) r b = secret_get sv repo r b"
proof (cases "enforceTenantBoundary r b")
  case (Inl e)
  then show ?thesis by (simp add: secret_get_def)
next
  case (Inr u)
  from lookup_tenant [OF assms(1) Inr] assms(1,5,6)
  have "nullish (sr_tenantId (resolveTenantRef r b)) [] \<noteq> nullish (sr_tenantId w) []"
    by (auto simp: str_truthy_iff)
  then have "secretRefKey (resolveTenantRef r b) \<noteq> secretRefKey w"
    using key_eq_parts [OF lookup_plain [OF assms(3,2)] assms(4)] by blast
  then show ?thesis using Inr by (simp add: secret_get_def Let_def find_put)
qed

lemma first_hit_cong:
  "(\<And>r. r \<in> set rs \<Longrightarrow> get r b = get' r b) \<Longrightarrow> first_hit get b rs = first_hit get' b rs"
  by (induction rs) (auto split: sum.split)

lemma first_hit_Some:
  "first_hit get b rs = Some v \<Longrightarrow> \<exists>r \<in> set rs. get r b = Inr v"
  by (induction rs) (auto split: sum.splits)

lemma attempts_plain:
  "colon_free tenantId \<Longrightarrow> colon_free environment \<Longrightarrow> r \<in> set (secret_attempts key tenantId environment) \<Longrightarrow> ref_plain r"
  by (auto simp: secret_attempts_def ref_plain_def colon_free_def split: if_splits)

text \<open>The read a connection performs.\<close>

abbreviation provider_read :: "secret_service \<Rightarrow> SecretRepository \<Rightarrow> SecretRef \<Rightarrow> string \<Rightarrow> secret_error + string" where
  "provider_read sv repo \<equiv> \<lambda>r b. secret_get sv repo r (Some b)"

section \<open>Examples\<close>

text \<open>A toy cipher that meets the documented laws; it shows that they can be met.\<close>

definition ex_gcm :: gcm where
  "ex_gcm = \<lparr>gcm_seal = (\<lambda>key iv v. (map (\<lambda>c. of_nat (of_char c)) v, replicate 16 0)),
     gcm_open = (\<lambda>key iv tag ct. Some (map (\<lambda>b. char_of (unat b)) ct))\<rparr>"

definition ex_service :: secret_service where
  "ex_service = \<lparr>sv_gcm = ex_gcm, sv_keys = StaticKeyProvider (\<lambda>_. []) ''secret'', sv_sha256_hex = (\<lambda>s. s)\<rparr>"

lemma ex_service_ok: "service_ok ex_service"
proof -
  have chars: "char_of (unat (of_nat (of_char c) :: 8 word)) = c" for c
    by (simp add: unat_of_nat)
  have "map (\<lambda>c. char_of (unat (of_nat (of_char c) :: 8 word))) v = v" for v
    by (induction v) (simp_all only: list.map chars)
  then have "gcm_ok ex_gcm" unfolding gcm_ok_def ex_gcm_def by (simp add: comp_def)
  then show ?thesis using keys_ok_static by (simp add: service_ok_def ex_service_def)
qed

definition ex_ref :: "secret_scope \<Rightarrow> string option \<Rightarrow> SecretRef" where
  "ex_ref k t = \<lparr>sr_provider = None, sr_scope = k, sr_tenantId = t, sr_environment = None, sr_key = ''pw'', sr_version = None\<rparr>"

definition ex_iv :: bytes where
  "ex_iv = replicate 12 7"

section \<open>Properties\<close>

text \<open>
  C8: A secret that was put is what a read within the tenant boundary returns for every
  reference with the same key text, a tenant reference without a tenant included, and a read
  of any other reference is not affected.
\<close>

theorem secret_roundtrip:
  assumes "service_ok sv" "length iv = 12" "enforceTenantBoundary r b = Inr ()"
  shows "secret_get sv (snd (secret_put sv iv now w v md repo)) r b =
    (if secretRefKey (resolveTenantRef r b) = secretRefKey w then Inr v else secret_get sv repo r b)"
  using get_after_put [OF assms(1,2)] assms(3) by simp

theorem secret_roundtrip_witness:
  "secret_get ex_service (snd (secret_put ex_service ex_iv ''now'' (ex_ref SS_tenant (Some ''acme'')) ''s3cret'' None []))
     (ex_ref SS_tenant None) (Some ''acme'') = Inr ''s3cret''"
  by (subst secret_roundtrip [OF ex_service_ok])
     (simp_all add: ex_iv_def ex_ref_def enforceTenantBoundary_def resolveTenantRef_def secretRefKey_def)

text \<open>
  C9: A run under a tenant never sees what another tenant stores: whatever is put under a
  different tenant, reads within the boundary and the secrets of connections stay the same, as
  long as tenants, environments and versions hold no colon.
\<close>

theorem secret_tenant_isolation:
  assumes "str_truthy b" "colon_free b" "ref_plain w" "str_truthy (sr_tenantId w)" "sr_tenantId w \<noteq> b"
    and "repo' = snd (secret_put sv iv now w v md repo)"
  shows "(ref_plain r \<longrightarrow> secret_get sv repo' r b = secret_get sv repo r b) \<and>
    (colon_free e \<longrightarrow> resolveConnectionSecret (provider_read sv repo') key b e =
      resolveConnectionSecret (provider_read sv repo) key b e)"
proof -
  have get: "secret_get sv repo' r b = secret_get sv repo r b" if "ref_plain r" for r
    unfolding assms(6) by (rule get_ignores_other_tenant [OF assms(1,2) that assms(3-5)])
  obtain t where b: "b = Some t" using assms(1) by (auto simp: str_truthy_iff)
  have "resolveConnectionSecret (provider_read sv repo') key b e = resolveConnectionSecret (provider_read sv repo) key b e"
    if "colon_free e"
    unfolding resolveConnectionSecret_def b nullish_simps
    by (rule first_hit_cong) (use get attempts_plain [OF assms(2) that] b in simp)
  with get show ?thesis by blast
qed

theorem secret_tenant_isolation_witness:
  "resolveConnectionSecret (provider_read ex_service
     (snd (secret_put ex_service ex_iv ''now'' (ex_ref SS_tenant (Some ''other'')) ''s3cret'' None []))) ''pw'' (Some ''acme'') None = None"
proof -
  have "colon_free (None :: string option)" by (simp add: colon_free_def)
  note same = secret_tenant_isolation [where b = "Some ''acme''" and w = "ex_ref SS_tenant (Some ''other'')"
      and sv = ex_service and iv = ex_iv and now = "''now''" and v = "''s3cret''" and md = None and repo = "[]"
      and key = "''pw''" and r = "ex_ref SS_global None" and e = None, OF _ _ _ _ _ refl, THEN conjunct2, THEN mp, OF _ _ _ _ _ this]
  have "resolveConnectionSecret (provider_read ex_service
     (snd (secret_put ex_service ex_iv ''now'' (ex_ref SS_tenant (Some ''other'')) ''s3cret'' None []))) ''pw'' (Some ''acme'') None =
     resolveConnectionSecret (provider_read ex_service []) ''pw'' (Some ''acme'') None"
    by (rule same) (simp_all add: colon_free_def ref_plain_def ex_ref_def)
  also have "\<dots> = None"
    by (simp add: resolveConnectionSecret_def secret_attempts_def secret_get_def enforceTenantBoundary_def
        secret_find_def Let_def)
  finally show ?thesis .
qed

end
