(* ===== verification/Dataset_Resolver.thy ===== *)
theory Dataset_Resolver
  imports Scoped_Repos Secrets Node_Execution
begin

text \<open>
  What a run is handed when it names a dataset or a connection
  (\<open>packages/runtime/src/dataset-resolver.ts\<close>, \<open>dataset-namespace.ts\<close> and
  \<open>packages/external-connections/src/index.ts\<close>): the slug cascade and its override by a
  pipeline binding, alias and version, the collection of every binding with its namespace
  policy, the connection behind it and the connection's secret.  The repositories and the
  secret store are the reads \<open>DatasetResolverDeps\<close> lists; \<open>memory_deps\<close> builds them from the
  in-memory ones.
\<close>

section \<open>Namespace policies\<close>

datatype namespace_issue = Namespace_not_a_string | Namespace_not_allowed string data_scope

fun policy_of :: "string \<Rightarrow> DatasetNamespacePolicy" where
  "policy_of s =
     (if s = ''shared'' then NS_shared
      else if s = ''by-tenant'' then NS_by_tenant
      else if s = ''by-tenant-env'' then NS_by_tenant_env
      else if s = ''by-env'' then NS_by_env
      else NS_other s)"

fun allowedForScope :: "data_scope \<Rightarrow> string list" where
  "allowedForScope DS_global = [''shared'', ''by-tenant'', ''by-tenant-env'']"
| "allowedForScope DS_tenant = [''shared'', ''by-env'']"
| "allowedForScope DS_environment = [''shared'']"

fun validateNamespacePolicyForScope :: "data_scope \<Rightarrow> json \<Rightarrow> namespace_issue option" where
  "validateNamespacePolicyForScope scope JUndef = None"
| "validateNamespacePolicyForScope scope JNull = None"
| "validateNamespacePolicyForScope scope (JStr s) =
     (if s = ''shared'' then None
      else if s \<notin> set (allowedForScope scope) then Some (Namespace_not_allowed s scope) else None)"
| "validateNamespacePolicyForScope scope v = Some Namespace_not_a_string"

text \<open>\<open>replace(/_{2,}/g, "_")\<close>\<close>

fun dedup_underscores :: "bool \<Rightarrow> string \<Rightarrow> string" where
  "dedup_underscores prev [] = []"
| "dedup_underscores prev (c # cs) =
     (if c = CHR ''_'' then (if prev then dedup_underscores True cs else c # dedup_underscores True cs)
      else c # dedup_underscores False cs)"

definition suffix_char :: "char \<Rightarrow> bool" where
  "suffix_char c = (is_lower c \<or> is_digit c \<or> c = CHR ''_'')"

definition sanitiseForCollectionSuffix :: "string \<Rightarrow> string" where
  "sanitiseForCollectionSuffix input =
     (let cleaned = strip_underscores (dedup_underscores False (collapse_runs suffix_char False (to_lower input)))
      in if cleaned = [] then ''unknown'' else cleaned)"

definition applyNamespacePolicy ::
  "string \<Rightarrow> DatasetNamespacePolicy option \<Rightarrow> string option \<Rightarrow> string option \<Rightarrow> string" where
  "applyNamespacePolicy baseName policy tenantSlug environmentName =
     (case policy of
        None \<Rightarrow> baseName
      | Some NS_shared \<Rightarrow> baseName
      | Some NS_by_tenant \<Rightarrow>
          (if str_truthy tenantSlug then baseName @ ''_'' @ sanitiseForCollectionSuffix (the tenantSlug) else baseName)
      | Some NS_by_tenant_env \<Rightarrow>
          (if \<not> str_truthy tenantSlug \<or> \<not> str_truthy environmentName then baseName
           else baseName @ ''_'' @ sanitiseForCollectionSuffix (the tenantSlug) @ ''_'' @
             sanitiseForCollectionSuffix (the environmentName))
      | Some NS_by_env \<Rightarrow>
          (if str_truthy environmentName then baseName @ ''_'' @ sanitiseForCollectionSuffix (the environmentName)
           else baseName)
      | Some (NS_other s) \<Rightarrow> baseName)"

section \<open>The dataset resolver\<close>

record DatasetResolverDeps =
  dd_getDataset :: "string \<Rightarrow> DatasetRow option"
  dd_resolveSlug :: "SlugArgs \<Rightarrow> DatasetRow option"
  dd_resolveAlias :: "string \<Rightarrow> string \<Rightarrow> DatasetAliasRow option"
  dd_getVersion :: "string \<Rightarrow> DatasetVersionRow option"
  dd_connections :: "(SlugArgs \<Rightarrow> ConnectionRow option) option"
  dd_secrets :: "(SecretRef \<Rightarrow> string \<Rightarrow> secret_error + string) option"
  dd_bindings :: "(string \<Rightarrow> string \<Rightarrow> string option \<Rightarrow> string \<Rightarrow> PipelineDatasetBindingRow option) option"
  dd_tenants :: "(string \<Rightarrow> TenantRow option) option"

record ResolveArgs =
  ra_ref :: dataset_ref
  ra_tenantId :: "string option"
  ra_environmentId :: "string option"
  ra_pipelineId :: "string option"

definition slug_args :: "ResolveArgs \<Rightarrow> string \<Rightarrow> SlugArgs" where
  "slug_args a slug = \<lparr>sa_slug = slug, sa_tenantId = ra_tenantId a, sa_environmentId = ra_environmentId a\<rparr>"

text \<open>The row a binding of the pipeline targets, if there is such a binding.\<close>

definition override_dataset :: "DatasetResolverDeps \<Rightarrow> ResolveArgs \<Rightarrow> DatasetRow option" where
  "override_dataset deps a =
     (case dd_bindings deps of
        None \<Rightarrow> None
      | Some resolveB \<Rightarrow>
          if str_truthy (ra_pipelineId a) \<and> str_truthy (ra_tenantId a)
          then (case resolveB (the (ra_pipelineId a)) (the (ra_tenantId a)) (ra_environmentId a) (dr_slug (ra_ref a)) of
                  None \<Rightarrow> None
                | Some binding \<Rightarrow> dd_getDataset deps (pb_targetDatasetId binding))
          else None)"

definition find_dataset :: "DatasetResolverDeps \<Rightarrow> ResolveArgs \<Rightarrow> DatasetRow option" where
  "find_dataset deps a = nullish_opt (override_dataset deps a) (dd_resolveSlug deps (slug_args a (dr_slug (ra_ref a))))"

text \<open>The slug of the tenant is looked up once, by the first policy that needs it.\<close>

record tenant_cache =
  tc_tried :: bool
  tc_slug :: "string option"

definition needs_tenant :: "DatasetNamespacePolicy \<Rightarrow> bool" where
  "needs_tenant policy \<longleftrightarrow> policy = NS_by_tenant \<or> policy = NS_by_tenant_env"

definition tenant_lookup :: "DatasetResolverDeps \<Rightarrow> ResolveArgs \<Rightarrow> DatasetNamespacePolicy \<Rightarrow> tenant_cache \<Rightarrow> tenant_cache" where
  "tenant_lookup deps a policy cache =
     (if \<not> tc_tried cache \<and> dd_tenants deps \<noteq> None \<and> str_truthy (ra_tenantId a) \<and> needs_tenant policy
      then \<lparr>tc_tried = True, tc_slug = map_option tn_slug (the (dd_tenants deps) (the (ra_tenantId a)))\<rparr>
      else cache)"

definition expandNamespace ::
  "DatasetResolverDeps \<Rightarrow> ResolveArgs \<Rightarrow> string \<Rightarrow> DatasetNamespacePolicy option \<Rightarrow> tenant_cache \<Rightarrow> string \<times> tenant_cache"
where
  "expandNamespace deps a base policy cache =
     (case policy of
        None \<Rightarrow> (base, cache)
      | Some p \<Rightarrow>
          if p = NS_shared then (base, cache)
          else let cache' = tenant_lookup deps a p cache
               in (applyNamespacePolicy base (Some p) (tc_slug cache') (ra_environmentId a), cache'))"

definition str_field :: "(string \<times> json) list \<Rightarrow> string \<Rightarrow> string option" where
  "str_field cfg k = (case obj_get cfg k of JStr s \<Rightarrow> Some s | _ \<Rightarrow> None)"

definition num_field :: "(string \<times> json) list \<Rightarrow> string \<Rightarrow> jsnum option" where
  "num_field cfg k = (case obj_get cfg k of JNum n \<Rightarrow> Some n | _ \<Rightarrow> None)"

fun scope_reason :: "data_scope \<Rightarrow> cascade_reason" where
  "scope_reason DS_environment = By_environment"
| "scope_reason DS_tenant = By_tenant"
| "scope_reason DS_global = By_global"

definition connection_secret ::
  "(SecretRef \<Rightarrow> string \<Rightarrow> secret_error + string) option \<Rightarrow> string option \<Rightarrow> string option \<Rightarrow> ConnectionRow \<Rightarrow> string option"
where
  "connection_secret secrets tenantId environment conn =
     (case secrets of
        None \<Rightarrow> None
      | Some get \<Rightarrow>
          if str_truthy (cn_secretRefKey conn)
          then resolveConnectionSecret get (the (cn_secretRefKey conn)) (nullish_opt (so_tenantId conn) tenantId) environment
          else None)"

definition resolved_connection :: "ConnectionRow \<Rightarrow> string option \<Rightarrow> ResolvedExternalConnection" where
  "resolved_connection conn secret =
     \<lparr>rx_id = so_id conn, rx_slug = so_slug conn, rx_kind = cn_kind conn, rx_secret = secret,
      rx_options = cn_config conn, rx_cascadeReason = scope_reason (so_scope conn)\<rparr>"

definition find_connection :: "DatasetResolverDeps \<Rightarrow> ResolveArgs \<Rightarrow> string option \<Rightarrow> ConnectionRow option" where
  "find_connection deps a slug =
     (case dd_connections deps of
        None \<Rightarrow> None
      | Some resolveC \<Rightarrow>
          if str_truthy slug \<and> str_truthy (ra_tenantId a) then resolveC (slug_args a (the slug)) else None)"

definition or_str :: "string option \<Rightarrow> string \<Rightarrow> string" where
  "or_str x d = (if str_truthy x then the x else d)"

definition resolve_binding ::
  "DatasetResolverDeps \<Rightarrow> ResolveArgs \<Rightarrow> DatasetRow \<Rightarrow> DatasetVersionRow \<Rightarrow> string \<Rightarrow> dataset_binding \<Rightarrow> tenant_cache \<Rightarrow>
   ResolvedDatasetBinding \<times> tenant_cache"
where
  "resolve_binding deps a ds ver name raw cache =
     (let policy = map_option policy_of (db_namespace raw);
          base = or_str (db_collection raw) (or_str (map_of (dv_backendCollections ver) name) (so_slug ds));
          (effectiveCollection, cache') = expandNamespace deps a base policy cache;
          conn = find_connection deps a (db_connection raw)
      in (\<lparr>rb_connectionSlug = db_connection raw,
           rb_connectionKind = map_option cn_kind conn,
           rb_connectionHost = (case conn of None \<Rightarrow> None | Some c \<Rightarrow> str_field (cn_config c) ''host''),
           rb_connectionPort = (case conn of None \<Rightarrow> None | Some c \<Rightarrow> num_field (cn_config c) ''port''),
           rb_connectionUrl = (case conn of None \<Rightarrow> None | Some c \<Rightarrow> str_field (cn_config c) ''url''),
           rb_connectionScheme = (case conn of None \<Rightarrow> None | Some c \<Rightarrow> str_field (cn_config c) ''scheme''),
           rb_collection = Some effectiveCollection,
           rb_namespace = policy,
           rb_cascadeReason = map_option (\<lambda>c. scope_reason (so_scope c)) conn,
           rb_connection = map_option (\<lambda>c. resolved_connection c
             (connection_secret (dd_secrets deps) (ra_tenantId a) (ra_environmentId a) c)) conn\<rparr>,
          cache'))"

fun resolve_bindings ::
  "DatasetResolverDeps \<Rightarrow> ResolveArgs \<Rightarrow> DatasetRow \<Rightarrow> DatasetVersionRow \<Rightarrow> (string \<times> dataset_binding option) list \<Rightarrow>
   (string \<times> ResolvedDatasetBinding) list \<Rightarrow> tenant_cache \<Rightarrow> (string \<times> ResolvedDatasetBinding) list"
where
  "resolve_bindings deps a ds ver [] acc cache = acc"
| "resolve_bindings deps a ds ver ((name, None) # bs) acc cache = resolve_bindings deps a ds ver bs acc cache"
| "resolve_bindings deps a ds ver ((name, Some raw) # bs) acc cache =
     (let (b, cache') = resolve_binding deps a ds ver name raw cache
      in resolve_bindings deps a ds ver bs (obj_set name b acc) cache')"

definition version_id :: "DatasetResolverDeps \<Rightarrow> ResolveArgs \<Rightarrow> DatasetRow \<Rightarrow> string option" where
  "version_id deps a ds =
     nullish_opt (map_option da_versionId (dd_resolveAlias deps (so_id ds) (nullish (dr_alias (ra_ref a)) ''stable'')))
       (ds_currentVersionId ds)"

definition buildDatasetResolver :: "DatasetResolverDeps \<Rightarrow> ResolveArgs \<Rightarrow> run_error + ResolvedDataset option" where
  "buildDatasetResolver deps a =
     (case find_dataset deps a of
        None \<Rightarrow> Inr None
      | Some ds \<Rightarrow>
          if \<not> str_truthy (version_id deps a ds) then Inl (DatasetNotBuiltError (so_slug ds))
          else (case dd_getVersion deps (the (version_id deps a ds)) of
                  None \<Rightarrow> Inr None
                | Some ver \<Rightarrow>
                    Inr (Some \<lparr>rd_id = so_id ds, rd_slug = so_slug ds, rd_scope = so_scope ds,
                      rd_tenantId = so_tenantId ds, rd_environmentId = so_environmentId ds,
                      rd_embeddingProfile = ds_embeddingProfile ds, rd_chunkSchema = ds_chunkSchema ds,
                      rd_versionId = dv_id ver, rd_versionLabel = dv_versionLabel ver,
                      rd_versionStatus = dv_status ver,
                      rd_bindings = resolve_bindings deps a ds ver (ds_bindings ds) [] \<lparr>tc_tried = False, tc_slug = None\<rparr>\<rparr>)))"

section \<open>The connection resolver\<close>

definition external_cascade :: "SlugArgs \<Rightarrow> ConnectionRow \<Rightarrow> string option \<times> string option" where
  "external_cascade args row = (nullish_opt (so_tenantId row) (sa_tenantId args), sa_environmentId args)"

definition ExternalConnectionResolver_resolve ::
  "(SlugArgs \<Rightarrow> ConnectionRow option) \<Rightarrow> (SecretRef \<Rightarrow> string \<Rightarrow> secret_error + string) \<Rightarrow> SlugArgs \<Rightarrow>
   ResolvedExternalConnection option"
where
  "ExternalConnectionResolver_resolve resolveC get args =
     (case resolveC args of
        None \<Rightarrow> None
      | Some row \<Rightarrow>
          let secret = (if str_truthy (cn_secretRefKey row)
                        then resolveConnectionSecret get (the (cn_secretRefKey row))
                          (fst (external_cascade args row)) (snd (external_cascade args row))
                        else None)
          in Some (resolved_connection row secret))"

section \<open>In-memory deployments\<close>

record data_plane =
  dp_datasets :: "DatasetRow rows"
  dp_versions :: "DatasetVersionRow rows"
  dp_aliases :: alias_repo
  dp_connections :: "ConnectionRow rows"
  dp_bindings :: "PipelineDatasetBindingRow rows"
  dp_tenants :: "TenantRow rows"
  dp_secrets :: SecretRepository

definition memory_deps :: "secret_service \<Rightarrow> data_plane \<Rightarrow> DatasetResolverDeps" where
  "memory_deps sv dp =
     \<lparr>dd_getDataset = map_of (dp_datasets dp),
      dd_resolveSlug = dataset_resolveSlug (dp_datasets dp),
      dd_resolveAlias = alias_resolve (dp_aliases dp),
      dd_getVersion = map_of (dp_versions dp),
      dd_connections = Some (connection_resolveSlug (dp_connections dp)),
      dd_secrets = Some (provider_read sv (dp_secrets dp)),
      dd_bindings = Some (resolveBinding (dp_bindings dp)),
      dd_tenants = Some (map_of (dp_tenants dp))\<rparr>"

section \<open>Suffixes\<close>

lemma set_collapse: "set (collapse_runs keep b s) \<subseteq> {c. keep c} \<union> {CHR ''_''}"
  by (induction keep b s rule: collapse_runs.induct) auto

lemma set_dedup: "set (dedup_underscores b s) \<subseteq> set s"
  by (induction b s rule: dedup_underscores.induct) auto

lemma set_strip: "set (strip_underscores s) \<subseteq> set s"
  unfolding strip_underscores_def
  by (metis order_trans set_dropWhileD set_rev subsetI)

lemma suffix_chars: "list_all suffix_char (sanitiseForCollectionSuffix s)"
proof -
  let ?c = "strip_underscores (dedup_underscores False (collapse_runs suffix_char False (to_lower s)))"
  have "set ?c \<subseteq> {c. suffix_char c} \<union> {CHR ''_''}"
    using set_strip set_dedup set_collapse by (metis order_trans)
  moreover have "suffix_char (CHR ''_'')" by (simp add: suffix_char_def)
  ultimately have "list_all suffix_char ?c" by (auto simp: list_all_iff)
  moreover have "list_all suffix_char ''unknown''" by code_simp
  ultimately show ?thesis by (simp add: sanitiseForCollectionSuffix_def Let_def)
qed

section \<open>The lookup of the tenant is done once and changes nothing\<close>

definition tenant_slug :: "DatasetResolverDeps \<Rightarrow> ResolveArgs \<Rightarrow> string option" where
  "tenant_slug deps a =
     (case dd_tenants deps of
        None \<Rightarrow> None
      | Some get \<Rightarrow> if str_truthy (ra_tenantId a) then map_option tn_slug (get (the (ra_tenantId a))) else None)"

definition cache_ok :: "DatasetResolverDeps \<Rightarrow> ResolveArgs \<Rightarrow> tenant_cache \<Rightarrow> bool" where
  "cache_ok deps a cache \<longleftrightarrow> tc_slug cache = (if tc_tried cache then tenant_slug deps a else None)"

lemma policy_ignores_tenant:
  "\<not> needs_tenant p \<Longrightarrow> applyNamespacePolicy base (Some p) x e = applyNamespacePolicy base (Some p) y e"
  by (cases p) (simp_all add: needs_tenant_def applyNamespacePolicy_def)

lemma tenant_lookup_ok:
  assumes "cache_ok deps a cache"
  shows "cache_ok deps a (tenant_lookup deps a p cache)"
    and "needs_tenant p \<Longrightarrow> tc_slug (tenant_lookup deps a p cache) = tenant_slug deps a"
  using assms
  by (auto simp: tenant_lookup_def cache_ok_def tenant_slug_def split: option.splits)

lemma expandNamespace_pure:
  assumes "cache_ok deps a cache"
  shows "fst (expandNamespace deps a base policy cache) =
      applyNamespacePolicy base policy (tenant_slug deps a) (ra_environmentId a)"
    and "cache_ok deps a (snd (expandNamespace deps a base policy cache))"
proof -
  show "cache_ok deps a (snd (expandNamespace deps a base policy cache))"
    using assms tenant_lookup_ok(1) by (auto simp: expandNamespace_def Let_def split: option.split)
  show "fst (expandNamespace deps a base policy cache) =
      applyNamespacePolicy base policy (tenant_slug deps a) (ra_environmentId a)"
  proof (cases policy)
    case None
    then show ?thesis by (simp add: expandNamespace_def applyNamespacePolicy_def)
  next
    case (Some p)
    have "fst (expandNamespace deps a base (Some p) cache) =
        applyNamespacePolicy base (Some p) (tc_slug (tenant_lookup deps a p cache)) (ra_environmentId a)"
      by (simp add: expandNamespace_def Let_def) (simp add: applyNamespacePolicy_def)
    also have "\<dots> = applyNamespacePolicy base (Some p) (tenant_slug deps a) (ra_environmentId a)"
      using tenant_lookup_ok(2) [OF assms] policy_ignores_tenant by (cases "needs_tenant p") metis+
    finally show ?thesis using Some by simp
  qed
qed

text \<open>The reference definition of a resolved binding.\<close>

definition binding_spec ::
  "DatasetResolverDeps \<Rightarrow> ResolveArgs \<Rightarrow> DatasetRow \<Rightarrow> DatasetVersionRow \<Rightarrow> string \<Rightarrow> dataset_binding \<Rightarrow> ResolvedDatasetBinding"
where
  "binding_spec deps a ds ver name raw =
     (let b = fst (resolve_binding deps a ds ver name raw \<lparr>tc_tried = False, tc_slug = None\<rparr>)
      in b\<lparr>rb_collection := Some (applyNamespacePolicy
             (or_str (db_collection raw) (or_str (map_of (dv_backendCollections ver) name) (so_slug ds)))
             (map_option policy_of (db_namespace raw)) (tenant_slug deps a) (ra_environmentId a))\<rparr>)"

lemma resolve_binding_spec:
  assumes "cache_ok deps a cache"
  shows "fst (resolve_binding deps a ds ver name raw cache) = binding_spec deps a ds ver name raw"
    and "cache_ok deps a (snd (resolve_binding deps a ds ver name raw cache))"
  using expandNamespace_pure [OF assms]
  by (simp_all add: resolve_binding_def binding_spec_def Let_def split_beta)

lemma resolve_bindings_spec:
  "cache_ok deps a cache \<Longrightarrow>
     resolve_bindings deps a ds ver bs acc cache =
     fold (\<lambda>(name, raw) acc. case raw of None \<Rightarrow> acc | Some r \<Rightarrow> obj_set name (binding_spec deps a ds ver name r) acc) bs acc"
proof (induction deps a ds ver bs acc cache rule: resolve_bindings.induct)
  case (3 deps a ds ver name raw bs acc cache)
  note spec = resolve_binding_spec [OF 3(2), of ds ver name raw]
  show ?case
    using 3(1) [OF refl prod.collapse spec(2)] spec(1)
    by (simp add: split_beta Let_def)
qed simp_all

definition no_lookup :: tenant_cache where
  "no_lookup = \<lparr>tc_tried = False, tc_slug = None\<rparr>"

lemma no_lookup_ok [simp]: "cache_ok deps a \<lparr>tc_tried = False, tc_slug = None\<rparr>"
  by (simp add: cache_ok_def)

lemma map_of_resolve_bindings:
  assumes "cache_ok deps a cache" "distinct (map fst bs)"
  shows "map_of (resolve_bindings deps a ds ver bs acc cache) name =
    (case map_of bs name of Some (Some raw) \<Rightarrow> Some (binding_spec deps a ds ver name raw) | _ \<Rightarrow> map_of acc name)"
  unfolding resolve_bindings_spec [OF assms(1)] using assms(2)
proof (induction bs arbitrary: acc)
  case (Cons nb bs)
  obtain n b where nb: "nb = (n, b)" by (cases nb)
  from Cons.prems have "map_of bs n = None" by (simp add: nb map_of_eq_None_iff)
  with Cons show ?case by (auto simp: nb split: option.splits)
qed (simp split: option.split)

section \<open>Writes of other tenants\<close>

text \<open>
  What another tenant can do to the stores a resolution reads: register datasets and
  connections at its own scopes and put secrets under its own name.
\<close>

definition plane_ok :: "data_plane \<Rightarrow> bool" where
  "plane_ok dp \<longleftrightarrow> registry_inv (dp_datasets dp) \<and> registry_inv (dp_connections dp)"

definition foreign_row :: "string \<Rightarrow> 'a scoped_row_scheme \<Rightarrow> bool" where
  "foreign_row t row \<longleftrightarrow> well_shaped row \<and> so_scope row \<noteq> DS_global \<and> so_tenantId row \<noteq> Some t"

definition foreign_ref :: "string \<Rightarrow> SecretRef \<Rightarrow> bool" where
  "foreign_ref t r \<longleftrightarrow> ref_plain r \<and> str_truthy (sr_tenantId r) \<and> sr_tenantId r \<noteq> Some t"

inductive foreign_write :: "secret_service \<Rightarrow> string \<Rightarrow> data_plane \<Rightarrow> data_plane \<Rightarrow> bool" for sv t where
  fw_dataset: "foreign_row t row \<Longrightarrow> dataset_create row (dp_datasets dp) = Inr (row', rs') \<Longrightarrow>
    foreign_write sv t dp (dp\<lparr>dp_datasets := rs'\<rparr>)"
| fw_connection: "foreign_row t row \<Longrightarrow> connection_create row (dp_connections dp) = Inr (row', rs') \<Longrightarrow>
    foreign_write sv t dp (dp\<lparr>dp_connections := rs'\<rparr>)"
| fw_secret: "foreign_ref t w \<Longrightarrow>
    foreign_write sv t dp (dp\<lparr>dp_secrets := snd (secret_put sv iv now w v md (dp_secrets dp))\<rparr>)"

inductive_cases foreign_writeE [consumes 1, case_names fw_dataset fw_connection fw_secret]: "foreign_write sv t dp dp'"

lemma create_rows:
  "scoped_create entity row rs = Inr (row', rs') \<Longrightarrow>
     map_of rs (so_id row) = None \<and> rs' = AList.update (so_id row) row rs"
  by (auto simp: scoped_create_def split: if_splits)

lemma foreign_no_match:
  "foreign_row t row \<Longrightarrow> sa_tenantId args = Some t \<Longrightarrow> \<not> slug_match args row"
  by (cases "so_scope row") (auto simp: foreign_row_def slug_match_def)

lemma create_foreign_candidates:
  assumes inv: "registry_inv rs" and row: "foreign_row t row" and args: "sa_tenantId args = Some t"
    and res: "scoped_create entity row rs = Inr (row', rs')"
  shows "{r \<in> set (map snd rs'). slug_match args r} = {r \<in> set (map snd rs). slug_match args r}"
proof -
  note ok = registry_invD(1) [OF inv]
  from create_rows [OF res] have new: "map_of rs (so_id row) = None"
    and rs': "rs' = AList.update (so_id row) row rs" by simp_all
  have "so_id r \<noteq> so_id row" if "r \<in> set (map snd rs)" for r
    using that rows_ok_mem [OF ok, of r] new by auto
  then have "r \<in> set (map snd rs') \<longleftrightarrow> r = row \<or> r \<in> set (map snd rs)" for r
    unfolding rs' using members_update [OF ok refl, of r row] by blast
  then have "r \<in> set (map snd rs') \<and> slug_match args r \<longleftrightarrow> r \<in> set (map snd rs) \<and> slug_match args r" for r
    using foreign_no_match [OF row args] by (cases "r = row") simp_all
  then show ?thesis by (intro Collect_cong)
qed

lemma foreign_write_ok: "foreign_write sv t dp dp' \<Longrightarrow> plane_ok dp \<Longrightarrow> plane_ok dp'"
  by (erule foreign_writeE)
     (auto simp: plane_ok_def dataset_create_def connection_create_def foreign_row_def intro: create_inv)

text \<open>The reads of a resolution under a tenant.\<close>

definition same_reads :: "ResolveArgs \<Rightarrow> DatasetResolverDeps \<Rightarrow> DatasetResolverDeps \<Rightarrow> bool" where
  "same_reads a d d' \<longleftrightarrow>
     dd_resolveAlias d = dd_resolveAlias d' \<and> dd_getVersion d = dd_getVersion d' \<and>
     dd_bindings d = dd_bindings d' \<and> dd_tenants d = dd_tenants d' \<and>
     (\<forall>slug. dd_resolveSlug d (slug_args a slug) = dd_resolveSlug d' (slug_args a slug)) \<and>
     (\<forall>slug. find_connection d a slug = find_connection d' a slug) \<and>
     (\<forall>slug c. find_connection d a slug = Some c \<longrightarrow>
        connection_secret (dd_secrets d) (ra_tenantId a) (ra_environmentId a) c =
        connection_secret (dd_secrets d') (ra_tenantId a) (ra_environmentId a) c)"

lemma resolve_binding_cong:
  assumes "same_reads a d d'"
  shows "resolve_binding d a ds ver name raw cache = resolve_binding d' a ds ver name raw cache"
proof -
  have conn: "find_connection d a slug = find_connection d' a slug" for slug
    using assms unfolding same_reads_def by blast
  have sec: "map_option (\<lambda>c. resolved_connection c (connection_secret (dd_secrets d) (ra_tenantId a) (ra_environmentId a) c))
        (find_connection d' a slug) =
      map_option (\<lambda>c. resolved_connection c (connection_secret (dd_secrets d') (ra_tenantId a) (ra_environmentId a) c))
        (find_connection d' a slug)" for slug
    using assms conn [of slug] unfolding same_reads_def by (cases "find_connection d' a slug") auto
  have "expandNamespace d a base policy cache = expandNamespace d' a base policy cache" for base policy
    using assms by (auto simp: same_reads_def expandNamespace_def tenant_lookup_def split: option.split)
  then show ?thesis
    by (simp add: resolve_binding_def conn sec)
qed

lemma resolve_bindings_cong:
  assumes "same_reads a d d'"
  shows "resolve_bindings d a ds ver bs acc cache = resolve_bindings d' a ds ver bs acc cache"
proof (induction bs arbitrary: acc cache)
  case (Cons nb bs)
  obtain name raw where nb: "nb = (name, raw)" by (cases nb)
  show ?case
    unfolding nb
    by (cases raw) (simp_all add: Cons resolve_binding_cong [OF assms] split_beta Let_def)
qed simp

lemma buildDatasetResolver_cong:
  assumes "same_reads a d d'" "override_dataset d a = override_dataset d' a"
  shows "buildDatasetResolver d a = buildDatasetResolver d' a"
proof -
  have "find_dataset d a = find_dataset d' a" "version_id d a = version_id d' a" "dd_getVersion d = dd_getVersion d'"
    using assms by (simp_all add: find_dataset_def version_id_def same_reads_def fun_eq_iff)
  then show ?thesis
    by (simp add: buildDatasetResolver_def resolve_bindings_cong [OF assms(1)] split: option.split)
qed

lemma memory_deps_simps [simp]:
  "dd_getDataset (memory_deps sv dp) = map_of (dp_datasets dp)"
  "dd_resolveSlug (memory_deps sv dp) = dataset_resolveSlug (dp_datasets dp)"
  "dd_resolveAlias (memory_deps sv dp) = alias_resolve (dp_aliases dp)"
  "dd_getVersion (memory_deps sv dp) = map_of (dp_versions dp)"
  "dd_connections (memory_deps sv dp) = Some (connection_resolveSlug (dp_connections dp))"
  "dd_secrets (memory_deps sv dp) = Some (provider_read sv (dp_secrets dp))"
  "dd_bindings (memory_deps sv dp) = Some (resolveBinding (dp_bindings dp))"
  "dd_tenants (memory_deps sv dp) = Some (map_of (dp_tenants dp))"
  by (simp_all add: memory_deps_def)

text \<open>The target of an override is a registered dataset.\<close>

definition override_registered :: "data_plane \<Rightarrow> ResolveArgs \<Rightarrow> bool" where
  "override_registered dp a \<longleftrightarrow>
     (\<forall>p t b. resolveBinding (dp_bindings dp) p t (ra_environmentId a) (dr_slug (ra_ref a)) = Some b \<longrightarrow>
        map_of (dp_datasets dp) (pb_targetDatasetId b) \<noteq> None)"

definition request_ok :: "string \<Rightarrow> ResolveArgs \<Rightarrow> bool" where
  "request_ok t a \<longleftrightarrow> ra_tenantId a = Some t \<and> t \<noteq> [] \<and> colon_free (Some t) \<and> colon_free (ra_environmentId a)"

lemma find_connection_memory:
  "find_connection (memory_deps sv dp) a slug =
     (if str_truthy slug \<and> str_truthy (ra_tenantId a)
      then connection_resolveSlug (dp_connections dp) (slug_args a (the slug)) else None)"
  by (simp add: find_connection_def)

text \<open>A connection found for a tenant is global or the tenant's own.\<close>

lemma found_connection_tenant:
  assumes inv: "registry_inv (dp_connections dp)" and req: "request_ok t a"
    and c: "find_connection (memory_deps sv dp) a slug = Some c"
  shows "c \<in> set (map snd (dp_connections dp)) \<and> slug_match (slug_args a (the slug)) c \<and>
    so_tenantId c = (if so_scope c = DS_global then None else Some t)"
proof -
  from c have res: "connection_resolveSlug (dp_connections dp) (slug_args a (the slug)) = Some c"
    unfolding find_connection_memory by (auto split: if_splits)
  note m = connection_slugs.resolve_match [OF res]
  have "well_shaped c" using registry_invD(2) [OF inv] m by blast
  with m req show ?thesis
    by (cases "so_scope c") (simp_all add: well_shaped_def slug_match_def slug_args_def request_ok_def)
qed

lemma foreign_write_reads:
  assumes w: "foreign_write sv t dp dp'" and ok: "plane_ok dp" and req: "request_ok t a"
    and over: "override_registered dp a"
  shows "same_reads a (memory_deps sv dp) (memory_deps sv dp') \<and>
    override_dataset (memory_deps sv dp) a = override_dataset (memory_deps sv dp') a \<and> override_registered dp' a"
  using w
proof (cases rule: foreign_writeE)
  case (fw_dataset row row' rs')
  have t: "sa_tenantId (slug_args a slug) = Some t" for slug using req by (simp add: request_ok_def slug_args_def)
  have inv: "registry_inv (dp_datasets dp)" using ok by (simp add: plane_ok_def)
  have res: "scoped_create ''dataset'' row (dp_datasets dp) = Inr (row', rs')"
    using fw_dataset(3) by (simp add: dataset_create_def)
  have "dataset_resolveSlug (dp_datasets dp) (slug_args a slug) = dataset_resolveSlug rs' (slug_args a slug)" for slug
    by (rule dataset_slugs.resolve_isolated [OF dataset_ranked [OF inv]])
       (use create_foreign_candidates [OF inv fw_dataset(2) t res, of slug] in \<open>simp add: dataset_slugs.candidates_def\<close>)
  then have "same_reads a (memory_deps sv dp) (memory_deps sv dp')"
    by (simp add: same_reads_def fw_dataset(1) find_connection_memory)
  moreover have kept: "map_of rs' i = map_of (dp_datasets dp) i" if "map_of (dp_datasets dp) i \<noteq> None" for i
    using create_rows [OF res] that by auto
  moreover have "override_dataset (memory_deps sv dp) a = override_dataset (memory_deps sv dp') a"
    using over kept by (auto simp: override_dataset_def fw_dataset(1) override_registered_def split: option.split)
  moreover have "override_registered dp' a"
    using over kept by (simp add: override_registered_def fw_dataset(1))
  ultimately show ?thesis by blast
next
  case (fw_connection row row' rs')
  have t: "sa_tenantId (slug_args a slug) = Some t" for slug using req by (simp add: request_ok_def slug_args_def)
  have inv: "registry_inv (dp_connections dp)" using ok by (simp add: plane_ok_def)
  have res: "scoped_create ''connection'' row (dp_connections dp) = Inr (row', rs')"
    using fw_connection(3) by (simp add: connection_create_def)
  have "connection_resolveSlug (dp_connections dp) (slug_args a slug) = connection_resolveSlug rs' (slug_args a slug)" for slug
    by (rule connection_slugs.resolve_isolated [OF connection_ranked [OF inv]])
       (use create_foreign_candidates [OF inv fw_connection(2) t res, of slug] in \<open>simp add: connection_slugs.candidates_def\<close>)
  then have "same_reads a (memory_deps sv dp) (memory_deps sv dp')"
    by (simp add: same_reads_def fw_connection(1) find_connection_memory)
  moreover have "override_dataset (memory_deps sv dp) a = override_dataset (memory_deps sv dp') a" "override_registered dp' a"
    using over by (simp_all add: override_dataset_def fw_connection(1) override_registered_def split: option.split)
  ultimately show ?thesis by blast
next
  case (fw_secret w iv now v md)
  have b: "str_truthy (Some t)" "colon_free (Some t)" "colon_free (ra_environmentId a)"
    using req by (simp_all add: request_ok_def)
  have foreign: "ref_plain w" "str_truthy (sr_tenantId w)" "sr_tenantId w \<noteq> Some t"
    using fw_secret(2) by (simp_all add: foreign_ref_def)
  have "resolveConnectionSecret (provider_read sv (dp_secrets dp)) key (Some t) (ra_environmentId a) =
      resolveConnectionSecret (provider_read sv (dp_secrets dp')) key (Some t) (ra_environmentId a)" for key
    unfolding fw_secret(1) resolveConnectionSecret_def nullish_simps
    by (rule first_hit_cong)
       (use get_ignores_other_tenant [OF b(1,2) _ foreign] attempts_plain [OF b(2,3)] in simp)
  then have "connection_secret (dd_secrets (memory_deps sv dp)) (ra_tenantId a) (ra_environmentId a) c =
      connection_secret (dd_secrets (memory_deps sv dp')) (ra_tenantId a) (ra_environmentId a) c"
    if "find_connection (memory_deps sv dp) a slug = Some c" for slug c
    using found_connection_tenant [OF _ req that] ok req
    by (auto simp: connection_secret_def plane_ok_def request_ok_def split: if_splits)
  then have "same_reads a (memory_deps sv dp) (memory_deps sv dp')"
    by (auto simp: same_reads_def find_connection_memory fw_secret(1))
  moreover have "override_dataset (memory_deps sv dp) a = override_dataset (memory_deps sv dp') a" "override_registered dp' a"
    using over by (simp_all add: override_dataset_def fw_secret(1) override_registered_def split: option.split)
  ultimately show ?thesis by blast
qed

lemma foreign_writes_resolution:
  assumes "(foreign_write sv t)\<^sup>*\<^sup>* dp dp'" "plane_ok dp" "request_ok t a" "override_registered dp a"
  shows "buildDatasetResolver (memory_deps sv dp') a = buildDatasetResolver (memory_deps sv dp) a \<and>
    plane_ok dp' \<and> override_registered dp' a"
  using assms(1)
proof (induction rule: rtranclp_induct)
  case (step y z)
  then have y: "plane_ok y" "override_registered y a" by simp_all
  from foreign_write_reads [OF step(2) y(1) assms(3) y(2)] step foreign_write_ok [OF step(2) y(1)]
  show ?case by (simp add: buildDatasetResolver_cong [of a "memory_deps sv y" "memory_deps sv z"])
qed (use assms in simp)

lemma resolved_binding_origin:
  assumes "distinct (map fst (ds_bindings ds))"
    and "map_of (resolve_bindings deps a ds ver (ds_bindings ds) [] \<lparr>tc_tried = False, tc_slug = None\<rparr>) name = Some b"
  shows "\<exists>raw. map_of (ds_bindings ds) name = Some (Some raw) \<and> b = binding_spec deps a ds ver name raw"
  using assms(2) unfolding map_of_resolve_bindings [OF no_lookup_ok assms(1)]
  by (auto split: option.splits)

lemma binding_spec_connection:
  "rb_connection (binding_spec deps a ds ver name raw) =
     map_option (\<lambda>c. resolved_connection c (connection_secret (dd_secrets deps) (ra_tenantId a) (ra_environmentId a) c))
       (find_connection deps a (db_connection raw))"
  by (simp add: binding_spec_def resolve_binding_def Let_def split_beta)

text \<open>The binding of a dataset and a node's own connection get the same connection and secret.\<close>

lemma external_connection_agrees:
  assumes "dd_connections deps = Some resolveC" "dd_secrets deps = Some get" "str_truthy (ra_tenantId a)"
    and "db_connection raw = Some slug" "slug \<noteq> []"
  shows "rb_connection (binding_spec deps a ds ver name raw) =
    ExternalConnectionResolver_resolve resolveC get (slug_args a slug)"
  using assms
  by (auto simp: binding_spec_connection find_connection_def ExternalConnectionResolver_resolve_def
      connection_secret_def external_cascade_def slug_args_def split: option.split)

section \<open>Examples\<close>

definition ex_version :: DatasetVersionRow where
  "ex_version = \<lparr>dv_id = ''v1'', dv_datasetId = ''d1'', dv_versionLabel = ''1'', dv_schemaSpec = JNull,
     dv_backendCollections = [], dv_status = V_ready, dv_docCount = Dec 0 0, dv_sizeBytes = Dec 0 0, dv_createdAt = [],
     dv_readyAt = None\<rparr>"

definition ex_plane :: "PipelineDatasetBindingRow rows \<Rightarrow> string \<Rightarrow> data_plane" where
  "ex_plane bindings tenant = \<lparr>dp_datasets = [(''d1'', ex_dataset ''d1'' tenant)], dp_versions = [(''v1'', ex_version)],
     dp_aliases = \<lparr>ar_rows = [], ar_byKey = []\<rparr>, dp_connections = ex_conns, dp_bindings = bindings,
     dp_tenants = [], dp_secrets = []\<rparr>"

definition ex_args :: ResolveArgs where
  "ex_args = \<lparr>ra_ref = \<lparr>dr_slug = ''docs'', dr_alias = None\<rparr>, ra_tenantId = Some ''acme'', ra_environmentId = Some ''dev'',
     ra_pipelineId = Some ''p1''\<rparr>"

definition ex_override :: PipelineDatasetBindingRow where
  "ex_override = \<lparr>pb_id = ''b1'', pb_pipelineId = ''p1'', pb_tenantId = ''acme'', pb_environmentId = None,
     pb_sourceSlug = ''docs'', pb_targetDatasetId = ''d1'', pb_createdAt = [], pb_createdBy = None, pb_updatedAt = []\<rparr>"

lemma ex_plane_ok: "plane_ok (ex_plane bs (c # t))"
  using registry_reach_inv [OF ex_dataset_reach [of "''d1''" c t]] registry_reach_inv [OF ex_conns_reach]
  by (simp add: plane_ok_def ex_plane_def)

lemma ex_request_ok: "request_ok ''acme'' ex_args"
  by (simp add: request_ok_def ex_args_def colon_free_def)

section \<open>Properties\<close>

text \<open>
  C5: What a run is handed for a dataset does not depend on other tenants: any sequence of
  datasets, connections and secrets they create leaves the resolved dataset, its collections,
  connections and secrets as they were.  The registries hold no two live rows with one slug in one place (\<open>plane_ok\<close>),
  the names of the tenant and its environment hold no colon, and the targets of overrides are registered.
\<close>

theorem dataset_resolution_isolated:
  assumes "(foreign_write sv t)\<^sup>*\<^sup>* dp dp'" "plane_ok dp" "request_ok t a" "override_registered dp a"
  shows "buildDatasetResolver (memory_deps sv dp') a = buildDatasetResolver (memory_deps sv dp) a"
  using foreign_writes_resolution [OF assms] by simp

theorem dataset_resolution_isolated_witness:
  "buildDatasetResolver (memory_deps ex_service ((ex_plane [] ''acme'')\<lparr>dp_secrets :=
       snd (secret_put ex_service ex_iv ''now'' (ex_ref SS_tenant (Some ''other'')) ''x'' None [])\<rparr>)) ex_args =
   buildDatasetResolver (memory_deps ex_service (ex_plane [] ''acme'')) ex_args"
proof (rule dataset_resolution_isolated [OF _ ex_plane_ok ex_request_ok])
  have "foreign_ref ''acme'' (ex_ref SS_tenant (Some ''other''))"
    by (simp add: foreign_ref_def ex_ref_def ref_plain_def colon_free_def)
  from foreign_write.fw_secret [OF this, of ex_service "ex_plane [] ''acme''" ex_iv "''now''" "''x''" None]
  have "foreign_write ex_service ''acme'' (ex_plane [] ''acme'') ((ex_plane [] ''acme'')\<lparr>dp_secrets :=
       snd (secret_put ex_service ex_iv ''now'' (ex_ref SS_tenant (Some ''other'')) ''x'' None [])\<rparr>)"
    by (simp add: ex_plane_def)
  then show "(foreign_write ex_service ''acme'')\<^sup>*\<^sup>* (ex_plane [] ''acme'') ((ex_plane [] ''acme'')\<lparr>dp_secrets :=
       snd (secret_put ex_service ex_iv ''now'' (ex_ref SS_tenant (Some ''other'')) ''x'' None [])\<rparr>)"
    by (rule r_into_rtranclp)
  show "override_registered (ex_plane [] ''acme'') ex_args"
    by (simp add: override_registered_def ex_plane_def resolveBinding_def crud_list_def)
qed

text \<open>
  C6: Without an override a resolved dataset is global or the tenant's own, and so is the
  connection behind each of its bindings.
\<close>

theorem resolved_dataset_confined:
  assumes "plane_ok dp" "request_ok t a" "override_dataset (memory_deps sv dp) a = None"
    and "buildDatasetResolver (memory_deps sv dp) a = Inr (Some d)"
    and "\<forall>ds \<in> set (map snd (dp_datasets dp)). distinct (map fst (ds_bindings ds))"
  shows "rd_tenantId d = (if rd_scope d = DS_global then None else Some t) \<and>
    (\<forall>name b x. map_of (rd_bindings d) name = Some b \<longrightarrow> rb_connection b = Some x \<longrightarrow>
      (\<exists>c \<in> set (map snd (dp_connections dp)). so_id c = rx_id x \<and> rx_cascadeReason x = scope_reason (so_scope c) \<and>
        so_tenantId c = (if so_scope c = DS_global then None else Some t)))"
proof -
  have inv: "registry_inv (dp_datasets dp)" "registry_inv (dp_connections dp)"
    using assms(1) by (simp_all add: plane_ok_def)
  from assms(4) obtain ds ver where ds: "find_dataset (memory_deps sv dp) a = Some ds"
    and d: "rd_scope d = so_scope ds" "rd_tenantId d = so_tenantId ds"
      "rd_bindings d = resolve_bindings (memory_deps sv dp) a ds ver (ds_bindings ds) [] \<lparr>tc_tried = False, tc_slug = None\<rparr>"
    unfolding buildDatasetResolver_def by (auto split: option.splits if_splits)
  from ds assms(3) have "dataset_resolveSlug (dp_datasets dp) (slug_args a (dr_slug (ra_ref a))) = Some ds"
    by (simp add: find_dataset_def)
  note m = dataset_slugs.resolve_match [OF this]
  then have "well_shaped ds" using registry_invD(2) [OF inv(1)] by blast
  with m assms(2) d have tenant: "rd_tenantId d = (if rd_scope d = DS_global then None else Some t)"
    by (cases "so_scope ds") (simp_all add: well_shaped_def slug_match_def slug_args_def request_ok_def)
  have origin: "\<exists>c \<in> set (map snd (dp_connections dp)). so_id c = rx_id x \<and> rx_cascadeReason x = scope_reason (so_scope c) \<and>
        so_tenantId c = (if so_scope c = DS_global then None else Some t)"
    if b: "map_of (rd_bindings d) name = Some b" and x: "rb_connection b = Some x" for name b x
  proof -
    obtain raw where raw: "b = binding_spec (memory_deps sv dp) a ds ver name raw"
      using resolved_binding_origin [of ds "memory_deps sv dp" a ver name b] b m assms(5) unfolding d(3) by blast
    from x obtain c where c: "find_connection (memory_deps sv dp) a (db_connection raw) = Some c"
      and x': "x = resolved_connection c (connection_secret (dd_secrets (memory_deps sv dp)) (ra_tenantId a) (ra_environmentId a) c)"
      unfolding raw binding_spec_connection by (auto simp: map_option_case split: option.splits)
    from found_connection_tenant [OF inv(2) assms(2) c]
    show ?thesis
      unfolding x' resolved_connection_def by (intro bexI [of _ c]) simp_all
  qed
  from tenant origin show ?thesis by blast
qed

theorem resolved_dataset_confined_witness:
  "\<exists>d. buildDatasetResolver (memory_deps ex_service (ex_plane [] ''acme'')) ex_args = Inr (Some d) \<and>
     rd_tenantId d = (if rd_scope d = DS_global then None else Some ''acme'') \<and> rd_scope d = DS_tenant"
proof -
  let ?deps = "memory_deps ex_service (ex_plane [] ''acme'')"
  have none: "override_dataset ?deps ex_args = None"
    by (simp add: override_dataset_def ex_plane_def resolveBinding_def crud_list_def)
  have find: "find_dataset ?deps ex_args = Some (ex_dataset ''d1'' ''acme'')"
    unfolding find_dataset_def none
    by (simp add: dataset_resolveSlug_def resolveSlug_def live_slug_def hit_defs ex_plane_def
        ex_dataset_def slug_args_def ex_args_def Let_def)
  have ver: "version_id ?deps ex_args (ex_dataset ''d1'' ''acme'') = Some ''v1''"
    by (simp add: version_id_def ex_plane_def alias_resolve_def ex_dataset_def)
  have "map_of (dp_versions (ex_plane [] ''acme'')) ''v1'' = Some ex_version"
    by (simp add: ex_plane_def)
  with find ver obtain d where d: "buildDatasetResolver ?deps ex_args = Inr (Some d)" "rd_scope d = DS_tenant"
    by (simp add: buildDatasetResolver_def ex_dataset_def)
  have "\<forall>ds \<in> set (map snd (dp_datasets (ex_plane [] ''acme''))). distinct (map fst (ds_bindings ds))"
    by (simp add: ex_plane_def ex_dataset_def)
  from resolved_dataset_confined [OF ex_plane_ok ex_request_ok none d(1) this] d show ?thesis by blast
qed

text \<open>
  C7: The dataset a pipeline binding targets is read by its id alone: whatever tenant, environment or archiving the
  dataset has, and whatever the tenant's own cascade finds, a run of the pipeline for the tenant of the binding is
  handed that dataset as soon as it has a version.
\<close>

theorem override_crosses_tenants:
  assumes "str_truthy (ra_tenantId a)" "str_truthy (ra_pipelineId a)"
    and "resolveBinding (dp_bindings dp) (the (ra_pipelineId a)) (the (ra_tenantId a)) (ra_environmentId a) (dr_slug (ra_ref a)) = Some b"
    and "map_of (dp_datasets dp) (pb_targetDatasetId b) = Some ds"
    and "version_id (memory_deps sv dp) a ds = Some v" "v \<noteq> []" "map_of (dp_versions dp) v = Some ver"
  shows "\<exists>d. buildDatasetResolver (memory_deps sv dp) a = Inr (Some d) \<and> rd_id d = so_id ds \<and> rd_versionId d = dv_id ver \<and>
    rd_scope d = so_scope ds \<and> rd_tenantId d = so_tenantId ds \<and> rd_environmentId d = so_environmentId ds"
proof -
  have "override_dataset (memory_deps sv dp) a = Some ds"
    using assms(1-4) by (auto simp: override_dataset_def str_truthy_iff)
  then have "find_dataset (memory_deps sv dp) a = Some ds" by (simp add: find_dataset_def)
  with assms(5-7) show ?thesis by (simp add: buildDatasetResolver_def)
qed

theorem override_crosses_tenants_witness:
  "(\<exists>d. buildDatasetResolver (memory_deps ex_service (ex_plane [(''b1'', ex_override)] ''other'')) ex_args = Inr (Some d) \<and>
     rd_scope d = DS_tenant \<and> rd_tenantId d = Some ''other'') \<and> ra_tenantId ex_args = Some ''acme'' \<and>
   dataset_resolveSlug (dp_datasets (ex_plane [(''b1'', ex_override)] ''other'')) (slug_args ex_args ''docs'') = None"
proof -
  let ?dp = "ex_plane [(''b1'', ex_override)] ''other''"
  have args: "str_truthy (ra_tenantId ex_args)" "str_truthy (ra_pipelineId ex_args)" by (simp_all add: ex_args_def)
  have b: "resolveBinding (dp_bindings ?dp) (the (ra_pipelineId ex_args)) (the (ra_tenantId ex_args)) (ra_environmentId ex_args)
      (dr_slug (ra_ref ex_args)) = Some ex_override"
    by (simp add: ex_plane_def resolveBinding_def crud_list_def ex_override_def ex_args_def)
  have ds: "map_of (dp_datasets ?dp) (pb_targetDatasetId ex_override) = Some (ex_dataset ''d1'' ''other'')"
    by (simp add: ex_plane_def ex_override_def)
  have ver: "version_id (memory_deps ex_service ?dp) ex_args (ex_dataset ''d1'' ''other'') = Some ''v1''"
    by (simp add: version_id_def ex_plane_def alias_resolve_def ex_dataset_def)
  have "map_of (dp_versions ?dp) ''v1'' = Some ex_version" by (simp add: ex_plane_def)
  from override_crosses_tenants [OF args b ds ver _ this]
  have "\<exists>d. buildDatasetResolver (memory_deps ex_service ?dp) ex_args = Inr (Some d) \<and> rd_scope d = DS_tenant \<and> rd_tenantId d = Some ''other''"
    by (auto simp: ex_dataset_def)
  moreover have "dataset_resolveSlug (dp_datasets ?dp) (slug_args ex_args ''docs'') = None"
    by (simp add: dataset_resolveSlug_def resolveSlug_def live_slug_def hit_defs ex_plane_def
        ex_dataset_def slug_args_def ex_args_def Let_def)
  moreover have "ra_tenantId ex_args = Some ''acme''" by (simp add: ex_args_def)
  ultimately show ?thesis by blast
qed

text \<open>
  The lookup of the tenant's slug that is done at most once per resolution is unobservable:
  each declared binding resolves as if the tenant had been looked up for it alone.
\<close>

theorem namespace_lookup_once:
  assumes "distinct (map fst (ds_bindings ds))"
  shows "map_of (resolve_bindings deps a ds ver (ds_bindings ds) [] \<lparr>tc_tried = False, tc_slug = None\<rparr>) name =
    (case map_of (ds_bindings ds) name of
       Some (Some raw) \<Rightarrow> Some (binding_spec deps a ds ver name raw)
     | _ \<Rightarrow> None)"
  using map_of_resolve_bindings [OF no_lookup_ok assms] by (auto split: option.split)

theorem namespace_lookup_once_witness:
  "map_of (resolve_bindings deps a (ex_dataset i t) ver (ds_bindings (ex_dataset i t)) []
     \<lparr>tc_tried = False, tc_slug = None\<rparr>) ''graph'' = None"
  by (subst namespace_lookup_once) (simp_all add: ex_dataset_def)

text \<open>
  The per-tenant-and-environment collection does not determine tenant and environment: the
  parts are joined by a character that every part may contain, so two tenants write into one
  collection.
\<close>

theorem namespace_collision:
  "applyNamespacePolicy base (Some NS_by_tenant_env) (Some ''acme'') (Some ''eu-prod'') =
     applyNamespacePolicy base (Some NS_by_tenant_env) (Some ''acme-eu'') (Some ''prod'') \<and>
   applyNamespacePolicy base (Some NS_by_tenant) (Some ''acme-eu'') e =
     applyNamespacePolicy base (Some NS_by_tenant) (Some ''acme.eu'') e"
proof -
  have "sanitiseForCollectionSuffix ''acme'' = ''acme''" "sanitiseForCollectionSuffix ''eu-prod'' = ''eu_prod''"
    "sanitiseForCollectionSuffix ''acme-eu'' = ''acme_eu''" "sanitiseForCollectionSuffix ''prod'' = ''prod''"
    "sanitiseForCollectionSuffix ''acme.eu'' = ''acme_eu''"
    by code_simp+
  then show ?thesis by (simp add: applyNamespacePolicy_def)
qed

end
