(* ===== verification/Authz.thy ===== *)
theory Authz
  imports Prelude
begin

text \<open>
  Role-based access control with hierarchical scopes (\<open>packages/authz/src/index.ts\<close>):
  the default catalog, the flat legacy check, scopes and their text form, the decision over
  explicit grants, the contract of a policy engine (locale \<open>policy_engine\<close>, satisfied by
  the built-in engine), and the authorizer with its two caches.  Roles and permissions are
  the strings the code compares.  The policy store is a parameter: what one call reads is a
  snapshot \<open>PolicyStore\<close>, where \<open>None\<close> is a rejected promise; the read of a user's grants and the
  filling of the cache with them are two steps, between which others may come.
\<close>

section \<open>Roles and permissions\<close>

record Principal =
  pn_id :: string
  pn_tenantId :: "string option"
  pn_roles :: "string list"

record Resource =
  rs_tenantId :: "string option"
  rs_pipelineId :: "string option"
  rs_environment :: "string option"

definition DEFAULT_ROLE_PERMISSIONS :: "(string, string list) jsmap" where
  "DEFAULT_ROLE_PERMISSIONS = [
    (''platform_admin'', [
      ''pipeline:create'', ''pipeline:update'', ''pipeline:delete'', ''pipeline:deploy'',
      ''config:edit_global'', ''config:edit_pipeline'', ''config:edit_tenant'',
      ''secret:manage_tenant'', ''execution:view_logs'', ''execution:view_sensitive'',
      ''audit:view'', ''pipeline:run'', ''plugin:manage'', ''provider:manage'',
      ''user:manage'', ''role:manage'', ''idp:manage'', ''auth:settings'',
      ''dataset:read'', ''dataset:write'', ''dataset:admin'',
      ''connection:use'', ''connection:read'', ''connection:admin'']),
    (''environment_admin'', [''pipeline:deploy'', ''config:edit_pipeline'', ''execution:view_logs'',
      ''audit:view'', ''pipeline:run'', ''dataset:read'', ''dataset:write'',
      ''connection:use'', ''connection:read'']),
    (''pipeline_admin'', [''pipeline:create'', ''pipeline:update'', ''pipeline:delete'',
      ''pipeline:deploy'', ''config:edit_pipeline'', ''execution:view_logs'', ''pipeline:run'',
      ''dataset:read'', ''dataset:write'', ''dataset:admin'', ''connection:use'', ''connection:read'']),
    (''pipeline_editor'', [''pipeline:create'', ''pipeline:update'', ''config:edit_pipeline'',
      ''pipeline:run'', ''dataset:read'', ''dataset:write'', ''connection:use'', ''connection:read'']),
    (''tenant_admin'', [''config:edit_tenant'', ''secret:manage_tenant'', ''execution:view_logs'',
      ''pipeline:run'', ''user:manage'', ''dataset:read'', ''dataset:write'', ''dataset:admin'',
      ''connection:use'', ''connection:read'', ''connection:admin'']),
    (''tenant_operator'', [''execution:view_logs'', ''pipeline:run'', ''dataset:read'',
      ''connection:use'', ''connection:read'']),
    (''viewer'', [''execution:view_logs'', ''dataset:read'', ''connection:read'']),
    (''auditor'', [''audit:view'', ''execution:view_logs'', ''dataset:read'', ''connection:read''])]"

definition ALL_PERMISSIONS :: "string list" where
  "ALL_PERMISSIONS = fold set_add (concat (map snd DEFAULT_ROLE_PERMISSIONS)) []"

definition role_permissions :: "string \<Rightarrow> string list" where
  "role_permissions role = nullish (map_of DEFAULT_ROLE_PERMISSIONS role) []"

datatype AuthorizationError = Missing_permission string

definition authorize :: "Principal \<Rightarrow> string \<Rightarrow> Resource \<Rightarrow> bool" where
  "authorize p permission r =
     (if permission \<notin> set (concat (map role_permissions (pn_roles p))) then False
      else if ''platform_admin'' \<in> set (pn_roles p) then True
      else if str_truthy (rs_tenantId r) \<and> str_truthy (pn_tenantId p) \<and> pn_tenantId p \<noteq> rs_tenantId r
        then False
      else True)"

definition requirePermission :: "Principal \<Rightarrow> string \<Rightarrow> Resource \<Rightarrow> AuthorizationError + unit" where
  "requirePermission p permission r =
     (if \<not> authorize p permission r then Inl (Missing_permission permission) else Inr ())"

section \<open>Scopes\<close>

record ScopeInput =
  si_tenantId :: "string option"
  si_environment :: "string option"
  si_pipelineId :: "string option"

abbreviation GLOBAL_SCOPE :: string where
  "GLOBAL_SCOPE \<equiv> ''*''"

abbreviation no_scope :: ScopeInput where
  "no_scope \<equiv> \<lparr>si_tenantId = None, si_environment = None, si_pipelineId = None\<rparr>"

definition scopeToString :: "ScopeInput \<Rightarrow> string" where
  "scopeToString input =
     (case map_option trim (si_tenantId input) of
        None \<Rightarrow> GLOBAL_SCOPE
      | Some t \<Rightarrow>
          if t = [] then GLOBAL_SCOPE
          else if str_truthy (map_option trim (si_pipelineId input))
            then ''t/'' @ t @ ''/p/'' @ trim (the (si_pipelineId input))
          else if str_truthy (map_option trim (si_environment input))
            then ''t/'' @ t @ ''/e/'' @ trim (the (si_environment input))
          else ''t/'' @ t)"

text \<open>The characters \<open>.\<close> does not match in a regular expression.\<close>

definition line_end :: "char \<Rightarrow> bool" where
  "line_end c = ((of_char c :: nat) \<in> {10, 13})"

text \<open>
  \<open>/^t\/([^/]+)(?:\/(e|p)\/(.+))?$/\<close>: the tenant is everything up to the next slash; what
  follows it is nothing, or \<open>/e/\<close> or \<open>/p/\<close> and a non-empty rest of one line.
\<close>

definition parseScope :: "string \<Rightarrow> ScopeInput" where
  "parseScope scope =
     (if scope = [] \<or> scope = GLOBAL_SCOPE \<or> \<not> starts_with ''t/'' scope then no_scope
      else
        let body = drop 2 scope;
            t = takeWhile (\<lambda>c. c \<noteq> CHR ''/'') body;
            tl = dropWhile (\<lambda>c. c \<noteq> CHR ''/'') body;
            x = drop 3 tl
        in if t = [] then no_scope
           else if tl = [] then no_scope\<lparr>si_tenantId := Some t\<rparr>
           else if x = [] \<or> list_ex line_end x then no_scope
           else if starts_with ''/e/'' tl then no_scope\<lparr>si_tenantId := Some t, si_environment := Some x\<rparr>
           else if starts_with ''/p/'' tl then no_scope\<lparr>si_tenantId := Some t, si_pipelineId := Some x\<rparr>
           else no_scope)"

definition scopeCovers :: "string \<Rightarrow> string \<Rightarrow> bool" where
  "scopeCovers grantScope requestScope =
     (if grantScope = GLOBAL_SCOPE then True
      else if grantScope = requestScope then True
      else
        let g = parseScope grantScope; r = parseScope requestScope
        in if \<not> str_truthy (si_tenantId g) then False
           else if si_tenantId g \<noteq> si_tenantId r then False
           else if \<not> str_truthy (si_environment g) \<and> \<not> str_truthy (si_pipelineId g) then True
           else False)"

section \<open>Policy engines\<close>

record Grant =
  gr_role :: string
  gr_scope :: string

record RolePermissionRow =
  rp_role :: string
  rp_permission :: string

type_synonym RoleCatalog = "(string, string list) jsmap"

definition add_permission :: "RolePermissionRow \<Rightarrow> RoleCatalog \<Rightarrow> RoleCatalog" where
  "add_permission row catalog =
     AList.update (rp_role row)
       (set_add (rp_permission row) (nullish (map_of catalog (rp_role row)) [])) catalog"

definition buildCatalog :: "RolePermissionRow list \<Rightarrow> RoleCatalog" where
  "buildCatalog rows = fold add_permission rows []"

definition defaultCatalogRows :: "RolePermissionRow list" where
  "defaultCatalogRows =
     concat (map (\<lambda>(role, perms). map (\<lambda>p. \<lparr>rp_role = role, rp_permission = p\<rparr>) perms)
       DEFAULT_ROLE_PERMISSIONS)"

fun evaluate :: "Grant list \<Rightarrow> RoleCatalog \<Rightarrow> string \<Rightarrow> string \<Rightarrow> bool" where
  "evaluate [] catalog permission requestScope = False"
| "evaluate (g # gs) catalog permission requestScope =
     (if \<not> scopeCovers (gr_scope g) requestScope then evaluate gs catalog permission requestScope
      else case map_of catalog (gr_role g) of
             None \<Rightarrow> evaluate gs catalog permission requestScope
           | Some perms \<Rightarrow>
               if ''*'' \<in> set perms \<or> permission \<in> set perms then True
               else evaluate gs catalog permission requestScope)"

type_synonym ScopedDecider = "string \<Rightarrow> string \<Rightarrow> bool"

type_synonym PolicyEngine = "Grant list \<Rightarrow> RoleCatalog \<Rightarrow> ScopedDecider"

definition BuiltinPolicyEngine :: PolicyEngine where
  "BuiltinPolicyEngine grants catalog = (\<lambda>permission requestScope. evaluate grants catalog permission requestScope)"

text \<open>
  What a provider module exports: an engine, a factory (\<open>None\<close> when it throws), or
  something else; either as the default export or as the module itself.
\<close>

datatype 'e AuthzProviderModuleExport =
    Exp_engine 'e
  | Exp_factory "'e AuthzProviderModuleExport option"
  | Exp_other

datatype 'e authz_module = Mod_default "'e AuthzProviderModuleExport" | Mod_plain "'e AuthzProviderModuleExport"

datatype load_error = Factory_threw | Not_a_PolicyEngine | Import_failed | Fallback_failed

fun resolveAuthzExport :: "'e AuthzProviderModuleExport \<Rightarrow> load_error + 'e" where
  "resolveAuthzExport (Exp_engine e) = Inr e"
| "resolveAuthzExport (Exp_factory None) = Inl Factory_threw"
| "resolveAuthzExport (Exp_factory (Some (Exp_engine e))) = Inr e"
| "resolveAuthzExport (Exp_factory (Some built)) = Inl Not_a_PolicyEngine"
| "resolveAuthzExport Exp_other = Inl Not_a_PolicyEngine"

fun default_export :: "'e authz_module \<Rightarrow> 'e AuthzProviderModuleExport" where
  "default_export (Mod_default x) = x"
| "default_export (Mod_plain x) = x"

definition loadAuthzEngine ::
  "string option \<Rightarrow> load_error + 'e \<times> string \<Rightarrow> (string \<Rightarrow> 'e authz_module option) \<Rightarrow> load_error + 'e \<times> string"
where
  "loadAuthzEngine moduleUrl fallback importer =
     (case moduleUrl of
        None \<Rightarrow> fallback
      | Some url \<Rightarrow>
          if url = [] then fallback
          else case importer url of
                 None \<Rightarrow> Inl Import_failed
               | Some m \<Rightarrow>
                   (case resolveAuthzExport (default_export m) of
                      Inl e \<Rightarrow> Inl e
                    | Inr engine \<Rightarrow> Inr (engine, url)))"

section \<open>The authorizer\<close>

record PolicyStore =
  listRolePermissions :: "RolePermissionRow list option"
  listGrantsForUser :: "string \<Rightarrow> Grant list option"

datatype PrincipalKind = PK_user | PK_service | PK_api_key

record AuthorizablePrincipal =
  ap_id :: string
  ap_type :: PrincipalKind
  ap_tenantId :: "string option"
  ap_environment :: "string option"
  ap_roles :: "string list"

record Authorizer =
  az_catalog :: "RoleCatalog option"
  az_grantCache :: "(string, Grant list) jsmap"

definition new_authorizer :: Authorizer where
  "new_authorizer = \<lparr>az_catalog = None, az_grantCache = []\<rparr>"

definition invalidate :: "string option \<Rightarrow> Authorizer \<Rightarrow> Authorizer" where
  "invalidate userId az =
     (let az1 = az\<lparr>az_catalog := None\<rparr>
      in if str_truthy userId then az1\<lparr>az_grantCache := AList.delete (the userId) (az_grantCache az1)\<rparr>
         else az1\<lparr>az_grantCache := []\<rparr>)"

definition catalog_rows :: "PolicyStore option \<Rightarrow> RolePermissionRow list" where
  "catalog_rows store =
     (case store of None \<Rightarrow> [] | Some s \<Rightarrow> nullish (listRolePermissions s) [])"

definition loadCatalog :: "PolicyStore option \<Rightarrow> Authorizer \<Rightarrow> RoleCatalog \<times> Authorizer" where
  "loadCatalog store az =
     (case az_catalog az of
        Some catalog \<Rightarrow> (catalog, az)
      | None \<Rightarrow>
          let rows = catalog_rows store;
              catalog = buildCatalog (if rows \<noteq> [] then rows else defaultCatalogRows)
          in (catalog, az\<lparr>az_catalog := Some catalog\<rparr>))"

definition synthesizeGrants :: "AuthorizablePrincipal \<Rightarrow> Grant list" where
  "synthesizeGrants p =
     (let scope = scopeToString \<lparr>si_tenantId = ap_tenantId p, si_environment = ap_environment p,
                                 si_pipelineId = None\<rparr>
      in map (\<lambda>role. \<lparr>gr_role = role, gr_scope = scope\<rparr>) (ap_roles p))"

text \<open>
  The two halves of \<open>grantsFor\<close> after a miss, which an \<open>await\<close> separates: the answer of the store and the write of
  the cache.
\<close>

definition grants_read :: "PolicyStore \<Rightarrow> string \<Rightarrow> Grant list" where
  "grants_read s u = nullish (listGrantsForUser s u) []"

definition grants_fill :: "string \<Rightarrow> Grant list \<Rightarrow> Authorizer \<Rightarrow> Authorizer" where
  "grants_fill u grants az = az\<lparr>az_grantCache := AList.update u grants (az_grantCache az)\<rparr>"

definition grantsFor :: "PolicyStore option \<Rightarrow> AuthorizablePrincipal \<Rightarrow> Authorizer \<Rightarrow> Grant list \<times> Authorizer" where
  "grantsFor store p az =
     (case store of
        None \<Rightarrow> (synthesizeGrants p, az)
      | Some s \<Rightarrow>
          if ap_roles p \<noteq> [] \<or> ap_type p \<noteq> PK_user then (synthesizeGrants p, az)
          else (case map_of (az_grantCache az) (ap_id p) of
                  Some cached \<Rightarrow> (cached, az)
                | None \<Rightarrow>
                    let grants = grants_read s (ap_id p) in (grants, grants_fill (ap_id p) grants az)))"

definition ownerLiveGrants :: "PolicyStore option \<Rightarrow> string \<Rightarrow> Authorizer \<Rightarrow> Grant list \<times> Authorizer" where
  "ownerLiveGrants store userId az =
     (case store of
        None \<Rightarrow> ([], az)
      | Some s \<Rightarrow>
          (case map_of (az_grantCache az) userId of
             Some cached \<Rightarrow> (cached, az)
           | None \<Rightarrow>
               (case listGrantsForUser s userId of
                  None \<Rightarrow> ([], az)
                | Some grants \<Rightarrow>
                    (grants, az\<lparr>az_grantCache := AList.update userId grants (az_grantCache az)\<rparr>))))"

definition request_scope :: "string option \<Rightarrow> Resource \<Rightarrow> string" where
  "request_scope fallbackTenant r =
     scopeToString \<lparr>si_tenantId = nullish_opt (rs_tenantId r) fallbackTenant,
       si_environment = rs_environment r, si_pipelineId = rs_pipelineId r\<rparr>"

definition authorizeClosure ::
  "PolicyEngine \<Rightarrow> PolicyStore option \<Rightarrow> string option \<Rightarrow> AuthorizablePrincipal \<Rightarrow> Authorizer \<Rightarrow>
   (string \<Rightarrow> Resource \<Rightarrow> bool) \<times> Authorizer"
where
  "authorizeClosure prepare store defaultTenantId p az =
     (let (catalog, az1) = loadCatalog store az;
          (grants, az2) = grantsFor store p az1;
          decider = prepare grants catalog;
          (ownerDecider, az3) =
            (if ap_type p = PK_api_key \<and> store \<noteq> None
             then (let (ownerGrants, az3) = ownerLiveGrants store (ap_id p) az2
                   in (Some (prepare ownerGrants catalog), az3))
             else (None, az2));
          fallbackTenant = nullish_opt defaultTenantId (ap_tenantId p)
      in (\<lambda>permission r.
            let scope = request_scope fallbackTenant r
            in if \<not> decider permission scope then False
               else (case ownerDecider of
                       None \<Rightarrow> True
                     | Some owner \<Rightarrow> if \<not> owner permission scope then False else True),
          az3))"

section \<open>Scopes as an order\<close>

text \<open>
  The specification of scopes: four kinds, ordered by what they contain.  \<open>render\<close> is the
  text form; it is faithful on the scopes whose tenant has no slash.
\<close>

datatype scope = S_global | S_tenant string | S_env string string | S_pipe string string

fun render :: "scope \<Rightarrow> string" where
  "render S_global = GLOBAL_SCOPE"
| "render (S_tenant t) = ''t/'' @ t"
| "render (S_env t e) = ''t/'' @ t @ ''/e/'' @ e"
| "render (S_pipe t p) = ''t/'' @ t @ ''/p/'' @ p"

definition tenant_ok :: "string \<Rightarrow> bool" where
  "tenant_ok t \<longleftrightarrow> t \<noteq> [] \<and> CHR ''/'' \<notin> set t"

definition part_ok :: "string \<Rightarrow> bool" where
  "part_ok x \<longleftrightarrow> x \<noteq> [] \<and> \<not> list_ex line_end x"

fun scope_ok :: "scope \<Rightarrow> bool" where
  "scope_ok S_global = True"
| "scope_ok (S_tenant t) = tenant_ok t"
| "scope_ok (S_env t e) = (tenant_ok t \<and> part_ok e)"
| "scope_ok (S_pipe t p) = (tenant_ok t \<and> part_ok p)"

fun tenant_of :: "scope \<Rightarrow> string option" where
  "tenant_of S_global = None"
| "tenant_of (S_tenant t) = Some t"
| "tenant_of (S_env t e) = Some t"
| "tenant_of (S_pipe t p) = Some t"

instantiation scope :: order
begin

definition less_eq_scope :: "scope \<Rightarrow> scope \<Rightarrow> bool" where
  "a \<le> b \<longleftrightarrow> b = S_global \<or> a = b \<or> (\<exists>t. b = S_tenant t \<and> tenant_of a = Some t)"

definition less_scope :: "scope \<Rightarrow> scope \<Rightarrow> bool" where
  "a < b \<longleftrightarrow> a \<le> b \<and> \<not> b \<le> (a :: scope)"

instance
proof
  fix a b c :: scope
  show "a < b \<longleftrightarrow> a \<le> b \<and> \<not> b \<le> a" by (rule less_scope_def)
  show "a \<le> a" by (simp add: less_eq_scope_def)
  show "a \<le> b \<Longrightarrow> b \<le> c \<Longrightarrow> a \<le> c"
    by (cases a; cases b; cases c) (auto simp: less_eq_scope_def)
  show "a \<le> b \<Longrightarrow> b \<le> a \<Longrightarrow> a = b"
    by (cases a; cases b) (auto simp: less_eq_scope_def)
qed

end

fun input_of :: "scope \<Rightarrow> ScopeInput" where
  "input_of S_global = no_scope"
| "input_of (S_tenant t) = no_scope\<lparr>si_tenantId := Some t\<rparr>"
| "input_of (S_env t e) = no_scope\<lparr>si_tenantId := Some t, si_environment := Some e\<rparr>"
| "input_of (S_pipe t p) = no_scope\<lparr>si_tenantId := Some t, si_pipelineId := Some p\<rparr>"

definition trimmed :: "string option \<Rightarrow> string" where
  "trimmed x = (case x of None \<Rightarrow> [] | Some s \<Rightarrow> trim s)"

definition scope_of :: "ScopeInput \<Rightarrow> scope" where
  "scope_of i =
     (if trimmed (si_tenantId i) = [] then S_global
      else if trimmed (si_pipelineId i) \<noteq> [] then S_pipe (trimmed (si_tenantId i)) (trimmed (si_pipelineId i))
      else if trimmed (si_environment i) \<noteq> [] then S_env (trimmed (si_tenantId i)) (trimmed (si_environment i))
      else S_tenant (trimmed (si_tenantId i)))"

lemma trimmed_simps [simp]: "trimmed None = []" "trimmed (Some s) = trim s"
  by (simp_all add: trimmed_def)

lemma scopeToString_render: "scopeToString i = render (scope_of i)"
  by (cases "si_tenantId i"; cases "si_pipelineId i"; cases "si_environment i")
     (simp_all add: scopeToString_def scope_of_def)

lemma takeWhile_no_slash:
  "tenant_ok t \<Longrightarrow> takeWhile (\<lambda>c. c \<noteq> CHR ''/'') (t @ CHR ''/'' # x) = t"
  "tenant_ok t \<Longrightarrow> dropWhile (\<lambda>c. c \<noteq> CHR ''/'') (t @ CHR ''/'' # x) = CHR ''/'' # x"
  by (auto simp: tenant_ok_def takeWhile_append dropWhile_append)

lemma takeWhile_all_no_slash:
  "tenant_ok t \<Longrightarrow> takeWhile (\<lambda>c. c \<noteq> CHR ''/'') t = t"
  "tenant_ok t \<Longrightarrow> dropWhile (\<lambda>c. c \<noteq> CHR ''/'') t = []"
  by (auto simp: tenant_ok_def)

lemma parseScope_render: "scope_ok s \<Longrightarrow> parseScope (render s) = input_of s"
proof (cases s)
  case (S_tenant t)
  assume "scope_ok s"
  with S_tenant have "tenant_ok t" by simp
  with S_tenant show ?thesis
    using takeWhile_all_no_slash [of t]
    by (simp add: parseScope_def starts_with_def Let_def tenant_ok_def del: takeWhile_eq_all_conv)
next
  case (S_env t e)
  assume "scope_ok s"
  with S_env have "tenant_ok t" "part_ok e" by simp_all
  with S_env show ?thesis
    using takeWhile_no_slash [of t "''e/'' @ e"]
    by (simp add: parseScope_def starts_with_def Let_def tenant_ok_def part_ok_def)
next
  case (S_pipe t p)
  assume "scope_ok s"
  with S_pipe have "tenant_ok t" "part_ok p" by simp_all
  with S_pipe show ?thesis
    using takeWhile_no_slash [of t "''p/'' @ p"]
    by (simp add: parseScope_def starts_with_def Let_def tenant_ok_def part_ok_def)
qed (simp add: parseScope_def)

lemma input_of_inject: "input_of a = input_of b \<longleftrightarrow> a = b"
  by (cases a; cases b) simp_all

lemma render_inject: "scope_ok a \<Longrightarrow> scope_ok b \<Longrightarrow> render a = render b \<longleftrightarrow> a = b"
  by (metis input_of_inject parseScope_render)

lemma render_not_global: "render s = GLOBAL_SCOPE \<longleftrightarrow> s = S_global"
  by (cases s) simp_all

lemma tenant_input [simp]: "si_tenantId (input_of s) = tenant_of s"
  by (cases s) simp_all

lemma covers_render:
  assumes "scope_ok g" "scope_ok r"
  shows "scopeCovers (render g) (render r) \<longleftrightarrow> r \<le> g"
proof -
  have "scopeCovers (render g) (render r) \<longleftrightarrow>
      g = S_global \<or> g = r \<or>
      (str_truthy (tenant_of g) \<and> tenant_of g = tenant_of r \<and>
       \<not> str_truthy (si_environment (input_of g)) \<and> \<not> str_truthy (si_pipelineId (input_of g)))"
    unfolding scopeCovers_def Let_def render_inject [OF assms] render_not_global
      parseScope_render [OF assms(1)] parseScope_render [OF assms(2)] tenant_input by auto
  also have "\<dots> \<longleftrightarrow> r \<le> g"
    using assms by (cases g) (auto simp: less_eq_scope_def tenant_ok_def part_ok_def)
  finally show ?thesis .
qed

lemma covers_tenant:
  "tenant_ok t \<Longrightarrow> scope_ok r \<Longrightarrow> scopeCovers (''t/'' @ t) (render r) \<longleftrightarrow> tenant_of r = Some t"
  using covers_render [of "S_tenant t" r] by (cases r) (auto simp: less_eq_scope_def)

lemma trim_trim [simp]: "trim (trim s) = trim s"
proof -
  have hd: "dropWhile is_ws (dropWhile is_ws xs) = dropWhile is_ws xs" for xs by (simp add: dropWhile_idem)
  define u where "u = dropWhile is_ws s"
  define v where "v = rev (dropWhile is_ws (rev u))"
  have "v = [] \<or> \<not> is_ws (last v)"
    by (metis v_def hd_dropWhile last_rev rev_is_Nil_conv)
  moreover have "v = [] \<or> \<not> is_ws (hd v)"
  proof (cases "v = []")
    case False
    have "\<exists>ws. u = v @ ws"
      by (metis v_def rev_append rev_rev_ident takeWhile_dropWhile_id)
    with False have "hd v = hd u" "u \<noteq> []" by auto
    then show ?thesis by (metis hd_dropWhile u_def)
  qed simp
  ultimately have "trim v = v" by (auto intro: trim_id)
  moreover have "trim s = v" by (simp add: trim_def u_def v_def)
  ultimately show ?thesis by simp
qed

lemma trim_trimmed [simp]: "trim (trimmed x) = trimmed x"
  by (cases x) (simp_all, simp add: trim_def)

lemma scope_of_input_of_scope_of: "scope_of (input_of (scope_of i)) = scope_of i"
  by (simp add: scope_of_def)

section \<open>Decisions\<close>

definition role_grants :: "RoleCatalog \<Rightarrow> string \<Rightarrow> string \<Rightarrow> bool" where
  "role_grants catalog role permission \<longleftrightarrow>
     (\<exists>perms. map_of catalog role = Some perms \<and> (''*'' \<in> set perms \<or> permission \<in> set perms))"

definition allowed :: "Grant list \<Rightarrow> RoleCatalog \<Rightarrow> string \<Rightarrow> string \<Rightarrow> bool" where
  "allowed grants catalog permission scope \<longleftrightarrow>
     (\<exists>g \<in> set grants. scopeCovers (gr_scope g) scope \<and> role_grants catalog (gr_role g) permission)"

lemma evaluate_allowed: "evaluate grants catalog permission scope \<longleftrightarrow> allowed grants catalog permission scope"
  by (induction grants) (auto simp: allowed_def role_grants_def split: option.split)

lemma map_of_add_permission:
  "map_of (add_permission row cat) role =
     (if role = rp_role row then Some (set_add (rp_permission row) (nullish (map_of cat role) [])) else map_of cat role)"
  by (simp add: add_permission_def)

lemma role_grants_fold:
  "role_grants (fold add_permission rows cat) role permission \<longleftrightarrow>
     role_grants cat role permission \<or>
     (\<exists>row \<in> set rows. rp_role row = role \<and> rp_permission row \<in> {''*'', permission})"
proof (induction rows arbitrary: cat)
  case (Cons row rows)
  have "role_grants (add_permission row cat) role permission \<longleftrightarrow>
      role_grants cat role permission \<or> (rp_role row = role \<and> rp_permission row \<in> {''*'', permission})"
    by (cases "map_of cat role") (auto simp: role_grants_def map_of_add_permission)
  with Cons show ?case by auto
qed simp

lemma role_grants_buildCatalog:
  "role_grants (buildCatalog rows) role permission \<longleftrightarrow>
     (\<exists>row \<in> set rows. rp_role row = role \<and> rp_permission row \<in> {''*'', permission})"
  by (simp add: buildCatalog_def role_grants_fold) (simp add: role_grants_def)

section \<open>Policy engines and their clients\<close>

locale policy_engine =
  fixes prepare :: PolicyEngine
  assumes prepare_allowed: "prepare grants catalog permission scope \<longleftrightarrow> allowed grants catalog permission scope"
begin

lemma default_deny: "\<not> prepare [] catalog permission scope"
  by (simp add: prepare_allowed allowed_def)

lemma prepare_mono:
  "set gs \<subseteq> set hs \<Longrightarrow> prepare gs catalog permission scope \<Longrightarrow> prepare hs catalog permission scope"
  by (auto simp: prepare_allowed allowed_def)

lemma closure_iff:
  "fst (authorizeClosure prepare store d p az) permission r \<longleftrightarrow>
     (let cat = fst (loadCatalog store az);
          az1 = snd (loadCatalog store az);
          gs = grantsFor store p az1;
          scope = request_scope (nullish_opt d (ap_tenantId p)) r
      in allowed (fst gs) cat permission scope \<and>
         (ap_type p = PK_api_key \<and> store \<noteq> None \<longrightarrow>
            allowed (fst (ownerLiveGrants store (ap_id p) (snd gs))) cat permission scope))"
  by (auto simp: authorizeClosure_def Let_def prepare_allowed split_beta)

lemma closure_state:
  "snd (authorizeClosure prepare store d p az) =
     (let az2 = snd (grantsFor store p (snd (loadCatalog store az)))
      in if ap_type p = PK_api_key \<and> store \<noteq> None
         then snd (ownerLiveGrants store (ap_id p) az2) else az2)"
  by (auto simp: authorizeClosure_def Let_def split_beta)

end

lemma builtin_allowed: "BuiltinPolicyEngine grants catalog permission scope \<longleftrightarrow> allowed grants catalog permission scope"
  by (simp add: BuiltinPolicyEngine_def evaluate_allowed)

interpretation builtin: policy_engine BuiltinPolicyEngine
  by unfold_locales (rule builtin_allowed)

section \<open>Carried roles\<close>

definition principal_scope :: "AuthorizablePrincipal \<Rightarrow> scope" where
  "principal_scope p =
     scope_of \<lparr>si_tenantId = ap_tenantId p, si_environment = ap_environment p, si_pipelineId = None\<rparr>"

lemma synthesized_grants:
  "g \<in> set (synthesizeGrants p) \<longleftrightarrow> gr_role g \<in> set (ap_roles p) \<and> gr_scope g = render (principal_scope p)"
  by (cases g) (auto simp: synthesizeGrants_def principal_scope_def scopeToString_render Let_def image_iff)

lemma grantsFor_carried:
  "ap_roles p \<noteq> [] \<or> ap_type p \<noteq> PK_user \<or> store = None \<Longrightarrow> grantsFor store p az = (synthesizeGrants p, az)"
  by (auto simp: grantsFor_def split: option.split)

definition request_of :: "string option \<Rightarrow> AuthorizablePrincipal \<Rightarrow> Resource \<Rightarrow> scope" where
  "request_of d p r =
     scope_of \<lparr>si_tenantId = nullish_opt (rs_tenantId r) (nullish_opt d (ap_tenantId p)),
       si_environment = rs_environment r, si_pipelineId = rs_pipelineId r\<rparr>"

lemma request_scope_render: "request_scope (nullish_opt d (ap_tenantId p)) r = render (request_of d p r)"
  by (simp add: request_scope_def request_of_def scopeToString_render)

lemma allowed_synthesized:
  assumes "scope_ok (principal_scope p)" "scope_ok s"
  shows "allowed (synthesizeGrants p) cat permission (render s) \<longleftrightarrow>
    s \<le> principal_scope p \<and> (\<exists>role \<in> set (ap_roles p). role_grants cat role permission)"
proof -
  have ex: "\<exists>g :: Grant. gr_role g = role \<and> gr_scope g = sc" for role sc
    by (rule exI [where x = "\<lparr>gr_role = role, gr_scope = sc\<rparr>"]) simp
  show ?thesis
    unfolding allowed_def Bex_def synthesized_grants
    using covers_render [OF assms] ex by metis
qed

section \<open>Live grants\<close>

definition live_grants :: "PolicyStore \<Rightarrow> string \<Rightarrow> Grant list" where
  "live_grants store u = nullish (listGrantsForUser store u) []"

definition live_catalog :: "PolicyStore \<Rightarrow> RoleCatalog" where
  "live_catalog store = fst (loadCatalog (Some store) new_authorizer)"

text \<open>The caches hold what the store answers now.\<close>

definition coherent :: "PolicyStore \<Rightarrow> Authorizer \<Rightarrow> bool" where
  "coherent store az \<longleftrightarrow>
     (\<forall>cat. az_catalog az = Some cat \<longrightarrow> cat = live_catalog store) \<and>
     (\<forall>u gs. map_of (az_grantCache az) u = Some gs \<longrightarrow> gs = live_grants store u)"

lemma loadCatalog_coherent:
  assumes "coherent store az"
  shows "fst (loadCatalog (Some store) az) = live_catalog store"
    and "coherent store (snd (loadCatalog (Some store) az))"
  using assms by (auto simp: loadCatalog_def coherent_def live_catalog_def new_authorizer_def Let_def
      split: option.splits)

lemma grantsFor_coherent:
  assumes "coherent store az"
  shows "coherent store (snd (grantsFor (Some store) p az))"
    and "ap_type p = PK_user \<Longrightarrow> ap_roles p = [] \<Longrightarrow>
      fst (grantsFor (Some store) p az) = live_grants store (ap_id p)"
  using assms by (auto simp: grantsFor_def grants_read_def grants_fill_def coherent_def live_grants_def Let_def split: option.splits)

lemma ownerLiveGrants_coherent:
  assumes "coherent store az"
  shows "coherent store (snd (ownerLiveGrants (Some store) u az))"
    and "fst (ownerLiveGrants (Some store) u az) = live_grants store u"
  using assms by (auto simp: ownerLiveGrants_def coherent_def live_grants_def split: option.splits)

lemma closure_coherent:
  "coherent store az \<Longrightarrow> coherent store (snd (authorizeClosure BuiltinPolicyEngine (Some store) d p az))"
  by (simp add: builtin.closure_state Let_def loadCatalog_coherent grantsFor_coherent ownerLiveGrants_coherent)

text \<open>A write to the policy store concerns one user, or any number of users.\<close>

definition writes_only :: "string option \<Rightarrow> PolicyStore \<Rightarrow> PolicyStore \<Rightarrow> bool" where
  "writes_only u store store' \<longleftrightarrow>
     (str_truthy u \<longrightarrow> (\<forall>v. Some v \<noteq> u \<longrightarrow> listGrantsForUser store' v = listGrantsForUser store v))"

lemma invalidate_coherent:
  "coherent store az \<Longrightarrow> writes_only u store store' \<Longrightarrow> coherent store' (invalidate u az)"
  by (cases "str_truthy u") (auto simp: str_truthy_iff invalidate_def coherent_def writes_only_def live_grants_def Let_def)

text \<open>The decision a session user and an API key get from coherent caches.\<close>

lemma user_decision:
  assumes "coherent store az" "ap_type p = PK_user" "ap_roles p = []"
  shows "fst (authorizeClosure BuiltinPolicyEngine (Some store) d p az) permission r \<longleftrightarrow>
    allowed (live_grants store (ap_id p)) (live_catalog store) permission (render (request_of d p r))"
  using assms
  by (simp add: builtin.closure_iff Let_def loadCatalog_coherent grantsFor_coherent request_scope_render)

lemma key_decision:
  assumes "coherent store az" "ap_type p = PK_api_key"
  shows "fst (authorizeClosure BuiltinPolicyEngine (Some store) d p az) permission r \<longleftrightarrow>
    allowed (synthesizeGrants p) (live_catalog store) permission (render (request_of d p r)) \<and>
    allowed (live_grants store (ap_id p)) (live_catalog store) permission (render (request_of d p r))"
  using assms
  by (simp add: builtin.closure_iff Let_def loadCatalog_coherent grantsFor_carried ownerLiveGrants_coherent
      request_scope_render)

section \<open>Histories of the authorizer\<close>

text \<open>
  Requests and writes in any order, each complete before the next starts: every write of the
  policy store is followed by the invalidation the admin routes perform.
\<close>

inductive authz_reach :: "PolicyStore \<Rightarrow> Authorizer \<Rightarrow> bool" where
  start: "authz_reach store new_authorizer"
| request: "authz_reach store az \<Longrightarrow>
    authz_reach store (snd (authorizeClosure BuiltinPolicyEngine (Some store) d p az))"
| admin_write: "authz_reach store az \<Longrightarrow> writes_only u store store' \<Longrightarrow> authz_reach store' (invalidate u az)"

lemma authz_reach_coherent [invs]: "authz_reach store az \<Longrightarrow> coherent store az"
proof (induction rule: authz_reach.induct)
  case (start store)
  show ?case by (simp add: coherent_def new_authorizer_def)
qed (auto intro: closure_coherent invalidate_coherent)

subsection \<open>What the authorizer sees\<close>

text \<open>
  Without any assumption on the caches: the grants of a user and the catalog that decide are the cached ones, and those
  stored where nothing is cached.  No request changes what is seen.
\<close>

definition seen_catalog :: "PolicyStore \<Rightarrow> Authorizer \<Rightarrow> RoleCatalog" where
  "seen_catalog store az = nullish (az_catalog az) (live_catalog store)"

definition seen_grants :: "PolicyStore \<Rightarrow> Authorizer \<Rightarrow> string \<Rightarrow> Grant list" where
  "seen_grants store az u = nullish (map_of (az_grantCache az) u) (live_grants store u)"

lemmas seen_defs = seen_catalog_def seen_grants_def live_grants_def grants_read_def grants_fill_def

lemma loadCatalog_seen:
  "fst (loadCatalog (Some store) az) = seen_catalog store az"
  "seen_catalog store (snd (loadCatalog (Some store) az)) = seen_catalog store az"
  "az_grantCache (snd (loadCatalog (Some store) az)) = az_grantCache az"
  by (simp_all add: loadCatalog_def seen_catalog_def live_catalog_def new_authorizer_def Let_def split: option.split)

lemma grantsFor_seen:
  "ap_type p = PK_user \<Longrightarrow> ap_roles p = [] \<Longrightarrow> fst (grantsFor (Some store) p az) = seen_grants store az (ap_id p)"
  "seen_grants store (snd (grantsFor (Some store) p az)) = seen_grants store az"
  "az_catalog (snd (grantsFor (Some store) p az)) = az_catalog az"
  by (auto simp: grantsFor_def seen_defs Let_def fun_eq_iff split: option.split)

lemma ownerLiveGrants_seen:
  "seen_grants store (snd (ownerLiveGrants (Some store) u az)) = seen_grants store az"
  "az_catalog (snd (ownerLiveGrants (Some store) u az)) = az_catalog az"
  by (auto simp: ownerLiveGrants_def seen_defs fun_eq_iff split: option.split)

lemma seen_grants_load: "seen_grants store (snd (loadCatalog (Some store) az)) = seen_grants store az"
  by (simp add: seen_grants_def loadCatalog_seen fun_eq_iff)

lemma closure_seen:
  "seen_grants store (snd (authorizeClosure BuiltinPolicyEngine (Some store) d p az)) = seen_grants store az"
  "seen_catalog store (snd (authorizeClosure BuiltinPolicyEngine (Some store) d p az)) = seen_catalog store az"
proof -
  have "seen_catalog store (snd (grantsFor (Some store) p a)) = seen_catalog store a" for a
    by (simp add: seen_catalog_def grantsFor_seen)
  moreover have "seen_catalog store (snd (ownerLiveGrants (Some store) u a)) = seen_catalog store a" for u a
    by (simp add: seen_catalog_def ownerLiveGrants_seen)
  ultimately show "seen_grants store (snd (authorizeClosure BuiltinPolicyEngine (Some store) d p az)) = seen_grants store az"
    "seen_catalog store (snd (authorizeClosure BuiltinPolicyEngine (Some store) d p az)) = seen_catalog store az"
    by (simp_all add: builtin.closure_state Let_def grantsFor_seen ownerLiveGrants_seen loadCatalog_seen seen_grants_load)
qed

lemma user_decision_seen:
  assumes "ap_type p = PK_user" "ap_roles p = []"
  shows "fst (authorizeClosure BuiltinPolicyEngine (Some store) d p az) permission r \<longleftrightarrow>
    allowed (seen_grants store az (ap_id p)) (seen_catalog store az) permission (render (request_of d p r))"
  using assms by (simp add: builtin.closure_iff Let_def loadCatalog_seen grantsFor_seen seen_grants_load request_scope_render)

text \<open>Requests in any order, and writes with their invalidations between them.\<close>

inductive requests :: "PolicyStore \<Rightarrow> Authorizer \<Rightarrow> Authorizer \<Rightarrow> bool" for store where
  rq_none: "requests store az az"
| rq_one: "requests store az az' \<Longrightarrow> requests store az (snd (authorizeClosure BuiltinPolicyEngine (Some store) d p az'))"

inductive authz_later :: "PolicyStore \<Rightarrow> Authorizer \<Rightarrow> PolicyStore \<Rightarrow> Authorizer \<Rightarrow> bool" for store az where
  al_now: "authz_later store az store az"
| al_request: "authz_later store az store' az' \<Longrightarrow>
    authz_later store az store' (snd (authorizeClosure BuiltinPolicyEngine (Some store') d p az'))"
| al_write: "authz_later store az store' az' \<Longrightarrow> writes_only u store' store'' \<Longrightarrow> authz_later store az store'' (invalidate u az')"

lemma requests_seen:
  "requests store az az' \<Longrightarrow> seen_grants store az' = seen_grants store az \<and> seen_catalog store az' = seen_catalog store az"
  by (induction rule: requests.induct) (simp_all add: closure_seen)

lemma authz_later_reach: "authz_later store az store' az' \<Longrightarrow> authz_reach store az \<Longrightarrow> authz_reach store' az'"
  by (induction rule: authz_later.induct) (auto intro: authz_reach.intros)

section \<open>Examples\<close>

definition ex_policy :: "Grant list \<Rightarrow> PolicyStore" where
  "ex_policy gs = \<lparr>listRolePermissions = Some [\<lparr>rp_role = ''viewer'', rp_permission = ''dataset:read''\<rparr>],
     listGrantsForUser = (\<lambda>u. if u = ''ann'' then Some gs else Some [])\<rparr>"

definition ex_grant :: Grant where
  "ex_grant = \<lparr>gr_role = ''viewer'', gr_scope = ''t/acme''\<rparr>"

definition ex_principal :: "PrincipalKind \<Rightarrow> string list \<Rightarrow> AuthorizablePrincipal" where
  "ex_principal k roles = \<lparr>ap_id = ''ann'', ap_type = k, ap_tenantId = Some ''acme'',
     ap_environment = Some ''prod'', ap_roles = roles\<rparr>"

definition ex_resource :: Resource where
  "ex_resource = \<lparr>rs_tenantId = None, rs_pipelineId = None, rs_environment = Some ''prod''\<rparr>"

lemma trim_ex [simp]:
  "trim ''acme'' = ''acme''" "trim ''prod'' = ''prod''" "trim ''p1'' = ''p1''"
  by (simp_all add: trim_def is_ws_def)

lemma ex_scopes [simp]:
  "principal_scope (ex_principal k roles) = S_env ''acme'' ''prod''"
  "request_of None (ex_principal k roles) ex_resource = S_env ''acme'' ''prod''"
  "scope_ok (S_env ''acme'' ''prod'')" "scope_ok (S_tenant ''acme'')"
  by (simp_all add: principal_scope_def request_of_def scope_of_def ex_principal_def ex_resource_def
      tenant_ok_def part_ok_def line_end_def)

lemma ex_catalog [simp]: "role_grants (live_catalog (ex_policy gs)) ''viewer'' ''dataset:read''"
  by (simp add: live_catalog_def loadCatalog_def new_authorizer_def catalog_rows_def ex_policy_def Let_def
      role_grants_buildCatalog)

lemma ex_covered [simp]:
  "gr_role ex_grant = ''viewer''" "scopeCovers (gr_scope ex_grant) ''t/acme/e/prod''"
  using covers_tenant [of "''acme''" "S_env ''acme'' ''prod''"]
  by (simp_all add: ex_grant_def tenant_ok_def part_ok_def line_end_def)

lemma ex_live: "store = ex_policy gs \<Longrightarrow> live_grants store (ap_id (ex_principal k roles)) = gs"
  by (simp add: live_grants_def ex_policy_def ex_principal_def)

section \<open>Properties\<close>

text \<open>
  Printing a scope and parsing it gives back the tenant, environment and pipeline of the
  input (trimmed, the pipeline preferred, nothing without a tenant), and printing again gives
  the same text, for tenants without a slash and names of one line.
\<close>

theorem scope_roundtrip:
  assumes "scope_ok (scope_of input)"
  shows "parseScope (scopeToString input) = input_of (scope_of input) \<and>
    scopeToString (parseScope (scopeToString input)) = scopeToString input"
  using assms by (simp_all add: scopeToString_render parseScope_render scope_of_input_of_scope_of)

theorem scope_roundtrip_witness:
  "parseScope (scopeToString \<lparr>si_tenantId = Some ''acme'', si_environment = Some ''prod'', si_pipelineId = None\<rparr>) =
     \<lparr>si_tenantId = Some ''acme'', si_environment = Some ''prod'', si_pipelineId = None\<rparr>"
  by (subst scope_roundtrip [THEN conjunct1]) (simp_all add: scope_of_def tenant_ok_def part_ok_def line_end_def)

text \<open>
  C33: On text scopes, covering is the order of the hierarchy: the global scope covers all, a
  tenant its own environments and pipelines, everything else only itself.
\<close>

theorem scopeCovers_refines_order:
  assumes "scope_ok (scope_of g)" "scope_ok (scope_of r)"
  shows "scopeCovers (scopeToString g) (scopeToString r) \<longleftrightarrow> scope_of r \<le> scope_of g"
  using assms by (simp add: scopeToString_render covers_render)

theorem scopeCovers_refines_order_witness:
  "scopeCovers (scopeToString \<lparr>si_tenantId = Some ''acme'', si_environment = None, si_pipelineId = None\<rparr>)
     (scopeToString \<lparr>si_tenantId = Some ''acme'', si_environment = None, si_pipelineId = Some ''p1''\<rparr>)"
  by (subst scopeCovers_refines_order)
     (simp_all add: scope_of_def less_eq_scope_def tenant_ok_def part_ok_def line_end_def)

text \<open>
  In every history of requests and policy writes, a session user is allowed exactly what
  the grants and roles stored now allow; no revoked grant is honoured.
\<close>

theorem session_decisions_live:
  assumes "authz_reach store az" "ap_type p = PK_user" "ap_roles p = []"
  shows "fst (authorizeClosure BuiltinPolicyEngine (Some store) d p az) permission r \<longleftrightarrow>
    (\<exists>g \<in> set (live_grants store (ap_id p)). scopeCovers (gr_scope g) (render (request_of d p r)) \<and>
       role_grants (live_catalog store) (gr_role g) permission)"
  using user_decision [OF authz_reach_coherent [OF assms(1)] assms(2,3)] by (simp add: allowed_def)

theorem session_decisions_live_witness:
  "fst (authorizeClosure BuiltinPolicyEngine (Some (ex_policy [ex_grant])) None (ex_principal PK_user []) new_authorizer)
     ''dataset:read'' ex_resource"
proof -
  have "ap_type (ex_principal PK_user []) = PK_user" "ap_roles (ex_principal PK_user []) = []"
    by (simp_all add: ex_principal_def)
  note live = session_decisions_live [OF authz_reach.start this]
  show ?thesis
    unfolding live by (simp add: ex_live [OF refl])
qed

text \<open>
  C25: An API key is allowed exactly what lies within its own scope, is permitted to one of the
  roles it carries, and is covered by a grant its owner holds now: it never exceeds what it
  was minted with nor what its owner can do today.
\<close>

theorem key_decisions_bounded:
  assumes "authz_reach store az" "ap_type p = PK_api_key"
    and "scope_ok (principal_scope p)" "scope_ok (request_of d p r)"
  shows "fst (authorizeClosure BuiltinPolicyEngine (Some store) d p az) permission r \<longleftrightarrow>
    request_of d p r \<le> principal_scope p \<and>
    (\<exists>role \<in> set (ap_roles p). role_grants (live_catalog store) role permission) \<and>
    (\<exists>g \<in> set (live_grants store (ap_id p)). scopeCovers (gr_scope g) (render (request_of d p r)) \<and>
       role_grants (live_catalog store) (gr_role g) permission)"
  using key_decision [OF authz_reach_coherent [OF assms(1)] assms(2)] allowed_synthesized [OF assms(3,4)]
  by (simp add: allowed_def)

theorem key_decisions_bounded_witness:
  "fst (authorizeClosure BuiltinPolicyEngine (Some (ex_policy [ex_grant])) None (ex_principal PK_api_key [''viewer'']) new_authorizer)
     ''dataset:read'' ex_resource \<and>
   \<not> fst (authorizeClosure BuiltinPolicyEngine (Some (ex_policy [])) None (ex_principal PK_api_key [''viewer'']) new_authorizer)
     ''dataset:read'' ex_resource"
proof -
  have key: "ap_type (ex_principal PK_api_key [''viewer'']) = PK_api_key"
    "ap_roles (ex_principal PK_api_key [''viewer'']) = [''viewer'']"
    by (simp_all add: ex_principal_def)
  have ok: "scope_ok (principal_scope (ex_principal PK_api_key [''viewer'']))"
    "scope_ok (request_of None (ex_principal PK_api_key [''viewer'']) ex_resource)"
    by (simp_all only: ex_scopes)
  note bounded = key_decisions_bounded [OF authz_reach.start key(1) ok]
  show ?thesis
    unfolding bounded key
    by (simp add: ex_live [OF refl])
qed

text \<open>
  C26: The race of a revocation with a request that has missed the cache.  Whatever writes, invalidations and requests
  come between the answer of the store and the write of the cache, the user is decided from then on by the grants of
  that answer, whether or not they were revoked in between, through any further requests, until the next
  invalidation.
\<close>

theorem revocation_race:
  assumes "authz_reach store az" "map_of (az_grantCache az) (ap_id p) = None"
    and "authz_later store az store' az'"
    and "requests store' (grants_fill (ap_id p) (grants_read store (ap_id p)) az') az''"
    and "ap_type p = PK_user" "ap_roles p = []"
  shows "fst (authorizeClosure BuiltinPolicyEngine (Some store') d p az'') permission r \<longleftrightarrow>
    allowed (live_grants store (ap_id p)) (live_catalog store') permission (render (request_of d p r))"
proof -
  have "coherent store' az'" by (rule authz_reach_coherent [OF authz_later_reach [OF assms(3,1)]])
  then have "seen_catalog store' (grants_fill u gs az') = live_catalog store'" for u gs
    by (cases "az_catalog az'") (simp_all add: seen_catalog_def grants_fill_def coherent_def)
  moreover have "seen_grants store' (grants_fill u (grants_read store u) az') u = live_grants store u" for u
    by (simp add: seen_defs)
  ultimately show ?thesis
    using requests_seen [OF assms(4)] by (simp add: user_decision_seen [OF assms(5,6)])
qed

theorem revocation_race_witness:
  "live_grants (ex_policy []) ''ann'' = [] \<and>
   fst (authorizeClosure BuiltinPolicyEngine (Some (ex_policy [])) None (ex_principal PK_user [])
     (grants_fill ''ann'' [ex_grant] (invalidate (Some ''ann'') new_authorizer))) ''dataset:read'' ex_resource"
proof -
  have ann: "ap_id (ex_principal PK_user []) = ''ann''" "ap_type (ex_principal PK_user []) = PK_user" "ap_roles (ex_principal PK_user []) = []"
    by (simp_all add: ex_principal_def)
  have later: "authz_later (ex_policy [ex_grant]) new_authorizer (ex_policy []) (invalidate (Some ''ann'') new_authorizer)"
    by (rule al_write [OF al_now]) (simp add: writes_only_def ex_policy_def)
  have miss: "map_of (az_grantCache new_authorizer) (ap_id (ex_principal PK_user [])) = None" by (simp add: new_authorizer_def)
  have read: "grants_read (ex_policy [ex_grant]) ''ann'' = [ex_grant]" by (simp add: grants_read_def ex_policy_def)
  have live: "live_grants (ex_policy gs) ''ann'' = gs" for gs by (simp add: live_grants_def ex_policy_def)
  from revocation_race [OF authz_reach.start miss later rq_none ann(2,3), of None "''dataset:read''" ex_resource, unfolded ann read live]
  show ?thesis by (simp add: allowed_def live)
qed

text \<open>
  If the role table cannot be read once, the built-in catalog decides from then on, also
  after the table is readable again, until an administrator changes something.
\<close>

theorem catalog_failure_sticks:
  assumes "listRolePermissions broken = None"
  shows "fst (loadCatalog (Some store)
           (snd (authorizeClosure prepare (Some broken) d p new_authorizer))) = buildCatalog defaultCatalogRows"
proof -
  have "az_catalog (snd (authorizeClosure prepare (Some broken) d p new_authorizer)) = Some (buildCatalog defaultCatalogRows)"
    using assms
    by (auto simp: authorizeClosure_def loadCatalog_def grantsFor_def grants_fill_def ownerLiveGrants_def catalog_rows_def
        new_authorizer_def Let_def split_beta split: option.split)
  then show ?thesis by (simp add: loadCatalog_def)
qed

theorem catalog_failure_sticks_witness:
  "fst (loadCatalog (Some (ex_policy []))
     (snd (authorizeClosure BuiltinPolicyEngine (Some ((ex_policy [])\<lparr>listRolePermissions := None\<rparr>)) None
        (ex_principal PK_user []) new_authorizer))) = buildCatalog defaultCatalogRows"
  by (rule catalog_failure_sticks) simp

section \<open>Engines from modules\<close>

text \<open>A configured module decides alone: the fallback engine is never used instead of it.\<close>

lemma loadAuthzEngine_fail_closed:
  "url \<noteq> [] \<Longrightarrow> loadAuthzEngine (Some url) fallback importer = Inr (e, source) \<longleftrightarrow>
     source = url \<and> (\<exists>m. importer url = Some m \<and>
       (default_export m = Exp_engine e \<or> default_export m = Exp_factory (Some (Exp_engine e))))"
proof (cases "importer url")
  case (Some m)
  assume "url \<noteq> []"
  have "resolveAuthzExport x = Inr e \<longleftrightarrow> x = Exp_engine e \<or> x = Exp_factory (Some (Exp_engine e))" for x :: "'a AuthzProviderModuleExport" and e
    by (cases x rule: resolveAuthzExport.cases) auto
  note res = this [of "default_export m" e]
  show ?thesis
    using res \<open>url \<noteq> []\<close> Some
    by (cases "resolveAuthzExport (default_export m)") (auto simp: loadAuthzEngine_def)
qed (simp add: loadAuthzEngine_def)

lemma default_row_iff:
  "(\<exists>row \<in> set defaultCatalogRows. P (rp_role row) (rp_permission row)) \<longleftrightarrow>
     (\<exists>role perms permission. (role, perms) \<in> set DEFAULT_ROLE_PERMISSIONS \<and> permission \<in> set perms \<and> P role permission)"
  by (fastforce simp: defaultCatalogRows_def)

text \<open>The catalog of a fresh install grants each role exactly its default permissions.\<close>

lemma default_catalog_roles:
  assumes "permission \<noteq> ''*''"
  shows "role_grants (buildCatalog defaultCatalogRows) role permission \<longleftrightarrow> permission \<in> set (role_permissions role)"
proof -
  have "distinct (map fst DEFAULT_ROLE_PERMISSIONS)" by (simp add: DEFAULT_ROLE_PERMISSIONS_def)
  then have map_of: "map_of DEFAULT_ROLE_PERMISSIONS role = Some perms \<longleftrightarrow> (role, perms) \<in> set DEFAULT_ROLE_PERMISSIONS" for perms
    by (rule map_of_eq_Some_iff)
  have "list_all (\<lambda>(r, perms). list_all (\<lambda>p. p \<noteq> ''*'') perms) DEFAULT_ROLE_PERMISSIONS"
    unfolding DEFAULT_ROLE_PERMISSIONS_def by simp
  then have star: "''*'' \<notin> set perms" if "(r, perms) \<in> set DEFAULT_ROLE_PERMISSIONS" for r perms
    using that unfolding list_all_iff by blast
  have "role_grants (buildCatalog defaultCatalogRows) role permission \<longleftrightarrow>
      (\<exists>row \<in> set defaultCatalogRows. rp_role row = role \<and> rp_permission row \<in> {''*'', permission})"
    by (rule role_grants_buildCatalog)
  also have "\<dots> \<longleftrightarrow>
      (\<exists>perms. (role, perms) \<in> set DEFAULT_ROLE_PERMISSIONS \<and> permission \<in> set perms)"
    unfolding default_row_iff [where P = "\<lambda>a b. a = role \<and> b \<in> {''*'', permission}"]
    using star by blast
  also have "\<dots> \<longleftrightarrow> permission \<in> set (role_permissions role)"
    unfolding role_permissions_def map_of [symmetric] by (cases "map_of DEFAULT_ROLE_PERMISSIONS role") auto
  finally show ?thesis .
qed

end
