(* ===== verification/Auth.thy ===== *)
theory Auth
  imports Authz Secrets
begin

text \<open>
  Authentication (\<open>packages/auth/src/index.ts\<close>): API keys with their verification hooks,
  signed session tokens with the revocation list, the resolver that picks a credential from the
  request headers, the insecure provider for development, and the bridge to authorization.
  SHA-256, HMAC-SHA-256 and random bytes come from the platform and are parameters; times are
  milliseconds since the epoch and are arguments.  \<open>JSON.parse\<close> is applied to a payload only
  after its signature matched; it is the parameter \<open>ss_parse\<close>.
\<close>

section \<open>Text encodings\<close>

text \<open>
  UTF-8 of the code units of the model, which are below 256.  \<open>from_utf8\<close> is \<open>None\<close> on bytes
  that decode to no such text (the code then goes on with replacement characters, which the
  model's characters do not have).
\<close>

definition utf8_char :: "char \<Rightarrow> bytes" where
  "utf8_char c = (let n = (of_char c :: nat) in
     if n < 128 then [of_nat n] else [of_nat (192 + n div 64), of_nat (128 + n mod 64)])"

definition utf8 :: "string \<Rightarrow> bytes" where
  "utf8 s = concat (map utf8_char s)"

fun from_utf8 :: "bytes \<Rightarrow> string option" where
  "from_utf8 [] = Some []"
| "from_utf8 [b] = (if unat b < 128 then Some [char_of (unat b)] else None)"
| "from_utf8 (b # c # bs) =
     (if unat b < 128 then map_option (\<lambda>s. char_of (unat b) # s) (from_utf8 (c # bs))
      else if 194 \<le> unat b \<and> unat b < 196 \<and> 128 \<le> unat c \<and> unat c < 192
      then map_option (\<lambda>s. char_of ((unat b - 192) * 64 + (unat c - 128)) # s) (from_utf8 bs)
      else None)"

definition url_char :: "char \<Rightarrow> char" where
  "url_char c = (if c = CHR ''+'' then CHR ''-'' else if c = CHR ''/'' then CHR ''_'' else c)"

definition to_base64url :: "bytes \<Rightarrow> string" where
  "to_base64url bs = map url_char (filter (\<lambda>c. c \<noteq> CHR ''='') (to_base64 bs))"

definition byte_hex :: "8 word \<Rightarrow> string" where
  "byte_hex b = [hex_char (unat b div 16), hex_char (unat b mod 16)]"

definition to_hex :: "bytes \<Rightarrow> string" where
  "to_hex bs = concat (map byte_hex bs)"

definition hex_val :: "char \<Rightarrow> nat option" where
  "hex_val c = (let n = (of_char c :: nat) in
     if 48 \<le> n \<and> n \<le> 57 then Some (n - 48)
     else if 97 \<le> n \<and> n \<le> 102 then Some (n - 87)
     else if 65 \<le> n \<and> n \<le> 70 then Some (n - 55) else None)"

text \<open>\<open>Buffer.from(s, "hex")\<close> stops at the first pair that is not hexadecimal.\<close>

fun from_hex :: "string \<Rightarrow> bytes" where
  "from_hex (c # d # s) = (case (hex_val c, hex_val d) of
     (Some h, Some l) \<Rightarrow> of_nat (h * 16 + l) # from_hex s | _ \<Rightarrow> [])"
| "from_hex s = []"

section \<open>Principals and errors\<close>

record auth_principal =
  au_id :: string
  au_type :: PrincipalKind
  au_tenantId :: "string option"
  au_environment :: "string option"
  au_roles :: "string list"

datatype auth_error = UnauthorizedError | InvalidCredentialsError | TokenInvalidError | TokenExpiredError

text \<open>A header is absent, a string or a list of strings.\<close>

type_synonym headers = "(string, string list) jsmap"

definition headerValue :: "headers \<Rightarrow> string \<Rightarrow> string option" where
  "headerValue hs name =
     (case nullish_opt (map_of hs name) (map_of hs (to_lower name)) of
        None \<Rightarrow> None
      | Some [] \<Rightarrow> None
      | Some (v # vs) \<Rightarrow> Some v)"

definition parseRoles :: "string option \<Rightarrow> string list" where
  "parseRoles raw =
     (if \<not> str_truthy raw then []
      else filter (\<lambda>r. r \<noteq> []) (map trim (split_on (CHR '','') (the raw))))"

section \<open>The development provider\<close>

record dev_fallback =
  df_id :: "string option"
  df_type :: "PrincipalKind option"
  df_tenantId :: "string option"
  df_roles :: "string list option"

definition dev_principal :: "dev_fallback \<Rightarrow> auth_principal" where
  "dev_principal f = \<lparr>au_id = nullish (df_id f) ''dev-user'', au_type = nullish (df_type f) PK_user,
     au_tenantId = df_tenantId f, au_environment = None, au_roles = nullish (df_roles f) [''platform_admin'']\<rparr>"

definition dev_resolve :: "dev_fallback \<Rightarrow> headers \<Rightarrow> auth_principal" where
  "dev_resolve f hs =
     (let i = headerValue hs ''x-actor-id'';
          tenantId = headerValue hs ''x-tenant-id'';
          roles = parseRoles (headerValue hs ''x-roles'')
      in if \<not> str_truthy i then dev_principal f
         else \<lparr>au_id = the i, au_type = PK_user,
               au_tenantId = nullish_opt tenantId (au_tenantId (dev_principal f)), au_environment = None,
               au_roles = (if roles \<noteq> [] then roles else au_roles (dev_principal f))\<rparr>)"

section \<open>API keys\<close>

record ApiKeyRecord =
  ak_id :: string
  ak_prefix :: string
  ak_hash :: string
  ak_principalId :: string
  ak_tenantId :: "string option"
  ak_environmentId :: "string option"
  ak_name :: string
  ak_roles :: "string list"
  ak_createdAt :: string
  ak_lastUsedAt :: "string option"
  ak_revokedAt :: "string option"
  ak_expiresAt :: "string option"

type_synonym api_keys = "(string, ApiKeyRecord) jsmap"

definition key_create :: "ApiKeyRecord \<Rightarrow> api_keys \<Rightarrow> api_keys" where
  "key_create rec keys = AList.update (ak_id rec) rec keys"

definition findByPrefix :: "api_keys \<Rightarrow> string \<Rightarrow> ApiKeyRecord option" where
  "findByPrefix keys prefix = find (\<lambda>r. ak_prefix r = prefix) (map snd keys)"

definition key_touch :: "string \<Rightarrow> string \<Rightarrow> api_keys \<Rightarrow> api_keys" where
  "key_touch now i keys =
     (case map_of keys i of None \<Rightarrow> keys | Some r \<Rightarrow> AList.update i (r\<lparr>ak_lastUsedAt := Some now\<rparr>) keys)"

definition key_revoke :: "string \<Rightarrow> string \<Rightarrow> api_keys \<Rightarrow> api_keys" where
  "key_revoke now i keys =
     (case map_of keys i of None \<Rightarrow> keys | Some r \<Rightarrow> AList.update i (r\<lparr>ak_revokedAt := Some now\<rparr>) keys)"

definition listByPrincipal :: "api_keys \<Rightarrow> string \<Rightarrow> ApiKeyRecord list" where
  "listByPrincipal keys principalId = filter (\<lambda>r. ak_principalId r = principalId) (map snd keys)"

record IssueApiKeyInput =
  ik_principalId :: string
  ik_tenantId :: "string option"
  ik_environmentId :: "string option"
  ik_name :: string
  ik_roles :: "string list"
  ik_expiresAt :: "string option"

record ApiKeyVerifyHooks =
  hk_accountStatus :: "(string \<Rightarrow> string option) option"
  hk_currentRoles :: "(string \<Rightarrow> string list) option"

definition key_plaintext :: "bytes \<Rightarrow> bytes \<Rightarrow> string" where
  "key_plaintext prefix secret = ''rgd_'' @ to_hex prefix @ ''_'' @ to_hex secret"

text \<open>The three random values of \<open>issue\<close> are arguments.\<close>

definition issued_record ::
  "(string \<Rightarrow> bytes) \<Rightarrow> bytes \<Rightarrow> bytes \<Rightarrow> bytes \<Rightarrow> string \<Rightarrow> IssueApiKeyInput \<Rightarrow> ApiKeyRecord"
where
  "issued_record sha256 rid rprefix rsecret now input =
     \<lparr>ak_id = to_hex rid, ak_prefix = to_hex rprefix, ak_hash = to_hex (sha256 (key_plaintext rprefix rsecret)),
      ak_principalId = ik_principalId input, ak_tenantId = ik_tenantId input,
      ak_environmentId = ik_environmentId input, ak_name = ik_name input, ak_roles = ik_roles input,
      ak_createdAt = now, ak_lastUsedAt = None, ak_revokedAt = None, ak_expiresAt = ik_expiresAt input\<rparr>"

definition key_issue ::
  "(string \<Rightarrow> bytes) \<Rightarrow> bytes \<Rightarrow> bytes \<Rightarrow> bytes \<Rightarrow> string \<Rightarrow> IssueApiKeyInput \<Rightarrow> api_keys \<Rightarrow>
   (string \<times> string \<times> ApiKeyRecord) \<times> api_keys"
where
  "key_issue sha256 rid rprefix rsecret now input keys =
     (let rec = issued_record sha256 rid rprefix rsecret now input
      in ((to_hex rid, key_plaintext rprefix rsecret, rec), key_create rec keys))"

text \<open>\<open>date_ms\<close> reads an ISO date; an unreadable one is not a number, which is after no time.\<close>

definition key_expired :: "(string \<Rightarrow> int option) \<Rightarrow> int \<Rightarrow> ApiKeyRecord \<Rightarrow> bool" where
  "key_expired date_ms now rec \<longleftrightarrow> str_truthy (ak_expiresAt rec) \<and>
     (case date_ms (the (ak_expiresAt rec)) of None \<Rightarrow> False | Some t \<Rightarrow> t \<le> now)"

definition account_inactive :: "ApiKeyVerifyHooks \<Rightarrow> string \<Rightarrow> bool" where
  "account_inactive hooks principalId =
     (case hk_accountStatus hooks of
        None \<Rightarrow> False
      | Some status \<Rightarrow> str_truthy (status principalId) \<and> status principalId \<noteq> Some ''active'')"

definition effective_roles :: "ApiKeyVerifyHooks \<Rightarrow> ApiKeyRecord \<Rightarrow> string list" where
  "effective_roles hooks rec =
     (case hk_currentRoles hooks of
        None \<Rightarrow> ak_roles rec
      | Some current \<Rightarrow> filter (\<lambda>r. r \<in> set (current (ak_principalId rec))) (ak_roles rec))"

definition key_verify ::
  "(string \<Rightarrow> bytes) \<Rightarrow> (string \<Rightarrow> int option) \<Rightarrow> ApiKeyVerifyHooks \<Rightarrow> int \<Rightarrow> string \<Rightarrow> string \<Rightarrow> api_keys \<Rightarrow>
   (auth_error + auth_principal) \<times> api_keys"
where
  "key_verify sha256 date_ms hooks now nowIso rawKey keys =
     (let parts = split_on (CHR ''_'') rawKey
      in if length parts \<noteq> 3 \<or> parts ! 0 \<noteq> ''rgd'' \<or> parts ! 1 = [] \<or> parts ! 2 = []
         then (Inl InvalidCredentialsError, keys)
         else (case findByPrefix keys (parts ! 1) of
                 None \<Rightarrow> (Inl InvalidCredentialsError, keys)
               | Some rec \<Rightarrow>
                   if str_truthy (ak_revokedAt rec) then (Inl InvalidCredentialsError, keys)
                   else if key_expired date_ms now rec then (Inl InvalidCredentialsError, keys)
                   else if from_hex (to_hex (sha256 rawKey)) \<noteq> from_hex (ak_hash rec)
                   then (Inl InvalidCredentialsError, keys)
                   else if account_inactive hooks (ak_principalId rec)
                   then (Inl InvalidCredentialsError, keys)
                   else (Inr \<lparr>au_id = ak_principalId rec, au_type = PK_api_key, au_tenantId = ak_tenantId rec,
                           au_environment = ak_environmentId rec, au_roles = effective_roles hooks rec\<rparr>,
                         key_touch nowIso (ak_id rec) keys)))"

section \<open>Session tokens\<close>

type_synonym revocations = "(string, int) jsmap"

definition revocation_gc :: "int \<Rightarrow> revocations \<Rightarrow> revocations" where
  "revocation_gc now entries = filter (\<lambda>(h, e). \<not> e \<le> now) entries"

definition revocation_revoke :: "int \<Rightarrow> string \<Rightarrow> int \<Rightarrow> revocations \<Rightarrow> revocations" where
  "revocation_revoke now tokenHash expiresAtMs entries =
     revocation_gc now (AList.update tokenHash expiresAtMs entries)"

definition revocation_isRevoked :: "int \<Rightarrow> string \<Rightarrow> revocations \<Rightarrow> bool \<times> revocations" where
  "revocation_isRevoked now tokenHash entries =
     (let entries' = revocation_gc now entries in (map_of entries' tokenHash \<noteq> None, entries'))"

record session_service =
  ss_hmac :: "string \<Rightarrow> bytes"
  ss_sha256 :: "string \<Rightarrow> bytes"
  ss_parse :: "string \<Rightarrow> json option"

definition hashToken :: "session_service \<Rightarrow> string \<Rightarrow> string" where
  "hashToken ss token = to_hex (ss_sha256 ss token)"

definition token_sign :: "session_service \<Rightarrow> string \<Rightarrow> string" where
  "token_sign ss signingInput = to_base64url (ss_hmac ss signingInput)"

fun kind_str :: "PrincipalKind \<Rightarrow> string" where
  "kind_str PK_user = ''user''"
| "kind_str PK_service = ''service''"
| "kind_str PK_api_key = ''api_key''"

definition session_header :: json where
  "session_header = JObj [(''alg'', JStr ''HS256''), (''typ'', JStr ''RGD'')]"

definition session_payload :: "auth_principal \<Rightarrow> int \<Rightarrow> int \<Rightarrow> json" where
  "session_payload p now ttl = JObj [(''sub'', JStr (au_id p)), (''type'', JStr (kind_str (au_type p))),
     (''tid'', opt_json (au_tenantId p)), (''roles'', JArr (map JStr (au_roles p))),
     (''iat'', jint now), (''exp'', jint (now + ttl))]"

definition json_text :: "json \<Rightarrow> string" where
  "json_text v = nullish (stringify None v) []"

text \<open>\<open>nowMs\<close> is \<open>Date.now()\<close>; the token counts in seconds.\<close>

definition session_sign :: "session_service \<Rightarrow> int \<Rightarrow> auth_principal \<Rightarrow> int \<Rightarrow> string" where
  "session_sign ss nowMs p ttlSeconds =
     (let encodedHeader = to_base64url (utf8 (json_text session_header));
          encodedPayload = to_base64url (utf8 (json_text (session_payload p (nowMs div 1000) ttlSeconds)));
          signingInput = encodedHeader @ ''.'' @ encodedPayload
      in signingInput @ ''.'' @ token_sign ss signingInput)"

text \<open>An integral number; other numbers are compared as their integer part by \<open>verify\<close>.\<close>

fun num_int :: "jsnum \<Rightarrow> int option" where
  "num_int (Dec m e) = (if 0 \<le> e then Some (m * 10 ^ nat e) else Some (- ((- m) div 10 ^ nat (- e))))"
| "num_int NegZero = Some 0"
| "num_int _ = None"

text \<open>\<open>now >= exp\<close> for an integer \<open>now\<close> and any number \<open>exp\<close>.\<close>

fun at_or_after :: "int \<Rightarrow> jsnum \<Rightarrow> bool" where
  "at_or_after now NaN = False"
| "at_or_after now PosInf = False"
| "at_or_after now NegInf = True"
| "at_or_after now n = (case num_int n of None \<Rightarrow> False | Some t \<Rightarrow> t \<le> now)"

fun parse_kind :: "json \<Rightarrow> PrincipalKind" where
  "parse_kind (JStr s) = (if s = ''service'' then PK_service else if s = ''api_key'' then PK_api_key else PK_user)"
| "parse_kind _ = PK_user"

fun opt_str :: "json \<Rightarrow> string option" where
  "opt_str (JStr s) = Some s"
| "opt_str _ = None"

definition payload_roles :: "json \<Rightarrow> string list" where
  "payload_roles v = (case v of JArr vs \<Rightarrow> List.map_filter opt_str vs | _ \<Rightarrow> [])"

definition member :: "json \<Rightarrow> string \<Rightarrow> json" where
  "member v k = (case v of JObj kvs \<Rightarrow> obj_get kvs k | _ \<Rightarrow> JUndef)"

text \<open>The part of \<open>verify\<close> that is before the revocation list.\<close>

definition check_token :: "session_service \<Rightarrow> int \<Rightarrow> string \<Rightarrow> auth_error + auth_principal" where
  "check_token ss nowMs token =
     (let segments = split_on (CHR ''.'') token
      in if length segments \<noteq> 3 then Inl TokenInvalidError
         else let expected = token_sign ss (segments ! 0 @ ''.'' @ segments ! 1)
              in if utf8 (segments ! 2) \<noteq> utf8 expected then Inl TokenInvalidError
         else (case Option.bind (from_utf8 (from_base64 (segments ! 1))) (ss_parse ss) of
                 None \<Rightarrow> Inl TokenInvalidError
               | Some payload \<Rightarrow>
                   (case (member payload ''exp'', member payload ''sub'') of
                      (JNum e, JStr sub) \<Rightarrow>
                        if at_or_after (nowMs div 1000) e then Inl TokenExpiredError
                        else Inr \<lparr>au_id = sub, au_type = parse_kind (member payload ''type''),
                               au_tenantId = opt_str (member payload ''tid''), au_environment = None,
                               au_roles = payload_roles (member payload ''roles'')\<rparr>
                    | _ \<Rightarrow> Inl TokenInvalidError)))"

text \<open>
  A revocation store answers at once (in memory) or with a promise; \<open>verify\<close> ignores a
  promise, \<open>verifyAsync\<close> awaits it.
\<close>

datatype revocation_store = No_store | Sync_store revocations | Async_store revocations

definition session_verify :: "session_service \<Rightarrow> int \<Rightarrow> string \<Rightarrow> revocation_store \<Rightarrow> (auth_error + auth_principal) \<times> revocation_store" where
  "session_verify ss nowMs token store =
     (case check_token ss nowMs token of
        Inl e \<Rightarrow> (Inl e, store)
      | Inr p \<Rightarrow>
          (case store of
             No_store \<Rightarrow> (Inr p, store)
           | Sync_store entries \<Rightarrow>
               (let (revoked, entries') = revocation_isRevoked nowMs (hashToken ss token) entries
                in (if revoked then Inl TokenInvalidError else Inr p, Sync_store entries'))
           | Async_store entries \<Rightarrow> (Inr p, store)))"

definition session_verifyAsync :: "session_service \<Rightarrow> int \<Rightarrow> string \<Rightarrow> revocation_store \<Rightarrow> (auth_error + auth_principal) \<times> revocation_store" where
  "session_verifyAsync ss nowMs token store =
     (case session_verify ss nowMs token store of
        (Inl e, store1) \<Rightarrow> (Inl e, store1)
      | (Inr p, store1) \<Rightarrow>
          (case store1 of
             No_store \<Rightarrow> (Inr p, store1)
           | Sync_store entries \<Rightarrow>
               (let (revoked, entries') = revocation_isRevoked nowMs (hashToken ss token) entries
                in (if revoked then Inl TokenInvalidError else Inr p, Sync_store entries'))
           | Async_store entries \<Rightarrow>
               (let (revoked, entries') = revocation_isRevoked nowMs (hashToken ss token) entries
                in (if revoked then Inl TokenInvalidError else Inr p, Async_store entries'))))"

definition revoke_expiry :: "session_service \<Rightarrow> int \<Rightarrow> string \<Rightarrow> int" where
  "revoke_expiry ss nowMs encodedPayload =
     (case Option.bind (from_utf8 (from_base64 encodedPayload)) (ss_parse ss) of
        None \<Rightarrow> nowMs div 1000 + 24 * 3600
      | Some payload \<Rightarrow>
          (case member payload ''exp'' of
             JNum n \<Rightarrow> nullish (num_int n) (nowMs div 1000 + 24 * 3600)
           | _ \<Rightarrow> nowMs div 1000 + 24 * 3600))"

definition session_revoke :: "session_service \<Rightarrow> int \<Rightarrow> string \<Rightarrow> revocation_store \<Rightarrow> revocation_store" where
  "session_revoke ss nowMs token store =
     (let segments = split_on (CHR ''.'') token;
          add = revocation_revoke nowMs (hashToken ss token) (revoke_expiry ss nowMs (segments ! 1) * 1000)
      in if length segments \<noteq> 3 then store
         else (case store of
                 No_store \<Rightarrow> No_store
               | Sync_store entries \<Rightarrow> Sync_store (add entries)
               | Async_store entries \<Rightarrow> Async_store (add entries)))"

section \<open>The resolver and the bridge to authorization\<close>

text \<open>
  Which service answers for the headers of a request, and for which credential; \<open>None\<close> is a service
  that is not configured.  \<open>'r\<close> is what a service answers: a result, or a result with a new state.
\<close>

definition resolve_with ::
  "'r \<Rightarrow> (string \<Rightarrow> 'r) option \<Rightarrow> (string \<Rightarrow> 'r) option \<Rightarrow> (headers \<Rightarrow> 'r) option \<Rightarrow> headers \<Rightarrow> 'r"
where
  "resolve_with unauthorized sessions apiKeys dev hs =
     (let authorization = headerValue hs ''authorization'';
          words = split_on (CHR '' '') (nullish authorization []);
          credential = trim (js_join '' '' (tl words));
          scheme = to_lower (hd words);
          apiKeyHeader = headerValue hs ''x-api-key''
      in if str_truthy authorization \<and> scheme = ''bearer'' \<and> credential \<noteq> []
         then (case sessions of None \<Rightarrow> unauthorized | Some verify \<Rightarrow> verify credential)
         else if str_truthy authorization \<and> scheme = ''apikey'' \<and> credential \<noteq> []
         then (case apiKeys of None \<Rightarrow> unauthorized | Some verify \<Rightarrow> verify credential)
         else if str_truthy apiKeyHeader
         then (case apiKeys of None \<Rightarrow> unauthorized | Some verify \<Rightarrow> verify (the apiKeyHeader))
         else (case dev of None \<Rightarrow> unauthorized | Some f \<Rightarrow> f hs))"

definition auth_resolve ::
  "(string \<Rightarrow> auth_error + auth_principal) option \<Rightarrow> (string \<Rightarrow> auth_error + auth_principal) option \<Rightarrow>
   dev_fallback option \<Rightarrow> headers \<Rightarrow> auth_error + auth_principal"
where
  "auth_resolve sessions apiKeys dev =
     resolve_with (Inl UnauthorizedError) sessions apiKeys (map_option (\<lambda>f hs. Inr (dev_resolve f hs)) dev)"

text \<open>\<open>closure\<close> is the decision attached to the principal, if any.\<close>

definition legacy_decision :: "auth_principal \<Rightarrow> string \<Rightarrow> Resource \<Rightarrow> bool" where
  "legacy_decision p permission r =
     authorize \<lparr>pn_id = au_id p, pn_tenantId = au_tenantId p, pn_roles = au_roles p\<rparr> permission
       (r\<lparr>rs_tenantId := nullish_opt (rs_tenantId r) (au_tenantId p)\<rparr>)"

definition enforce ::
  "(string \<Rightarrow> Resource \<Rightarrow> bool) option \<Rightarrow> auth_principal \<Rightarrow> string \<Rightarrow> Resource \<Rightarrow> AuthorizationError + unit"
where
  "enforce closure p permission r =
     (case closure of
        Some decide \<Rightarrow> if \<not> decide permission r then Inl (Missing_permission permission) else Inr ()
      | None \<Rightarrow> requirePermission \<lparr>pn_id = au_id p, pn_tenantId = au_tenantId p, pn_roles = au_roles p\<rparr> permission
          (r\<lparr>rs_tenantId := nullish_opt (rs_tenantId r) (au_tenantId p)\<rparr>))"

record PermissionDeniedError =
  pd_subject :: string
  pd_subjectType :: PrincipalKind
  pd_action :: string
  pd_resource :: Resource
  pd_requestId :: "string option"

definition require_permission ::
  "(string \<Rightarrow> Resource \<Rightarrow> bool) option \<Rightarrow> auth_principal \<Rightarrow> string \<Rightarrow> Resource \<Rightarrow> string option \<Rightarrow> PermissionDeniedError + unit"
where
  "require_permission closure p permission r requestId =
     (let allowed = (case closure of Some decide \<Rightarrow> decide permission r | None \<Rightarrow> legacy_decision p permission r)
      in if allowed then Inr ()
         else Inl \<lparr>pd_subject = au_id p, pd_subjectType = au_type p, pd_action = permission, pd_resource = r,
                pd_requestId = requestId\<rparr>)"

text \<open>The two checks agree on every principal.\<close>

lemma enforce_require_agree:
  "(enforce closure p permission r = Inr ()) \<longleftrightarrow> (require_permission closure p permission r q = Inr ())"
  by (simp add: enforce_def require_permission_def legacy_decision_def requirePermission_def split: option.split)

section \<open>Encodings round trip\<close>

lemma unat_of_nat_byte [simp]: "n < 256 \<Longrightarrow> unat (of_nat n :: 8 word) = n"
  by (simp add: unat_of_nat)

lemma from_utf8_ascii:
  "unat b < 128 \<Longrightarrow> from_utf8 (b # bs) = map_option (\<lambda>s. char_of (unat b) # s) (from_utf8 bs)"
  by (cases bs) simp_all

lemma code_unit_bound: "(of_char c :: nat) < 256"
  by (rule nat_of_char_less_256)

lemma from_utf8_utf8 [simp]: "from_utf8 (utf8 s) = Some s"
proof (induction s)
  case (Cons c s)
  define n where "n = (of_char c :: nat)"
  have n: "n < 256" "char_of n = c" using code_unit_bound [of c] by (simp_all add: n_def)
  show ?case
  proof (cases "n < 128")
    case True
    then have "utf8 (c # s) = of_nat n # utf8 s"
      by (simp add: utf8_def utf8_char_def n_def [symmetric])
    with True n Cons show ?thesis by (simp add: from_utf8_ascii)
  next
    case False
    then have u: "utf8 (c # s) = of_nat (192 + n div 64) # of_nat (128 + n mod 64) # utf8 s"
      by (simp add: utf8_def utf8_char_def n_def [symmetric] Let_def)
    have bounds: "192 + n div 64 < 256" "194 \<le> 192 + n div 64" "192 + n div 64 < 196" "128 + n mod 64 < 192"
      using False n(1) by auto
    have "(192 + n div 64 - 192) * 64 + (128 + n mod 64 - 128) = n" by simp
    with bounds n Cons show ?thesis unfolding u by (simp del: of_nat_add)
  qed
qed (simp add: utf8_def)

lemma utf8_inject: "utf8 s = utf8 t \<longleftrightarrow> s = t"
  by (metis from_utf8_utf8 option.inject)

lemma url_char_props [simp]: "b64_val (url_char c) = b64_val c" "url_char c = CHR ''='' \<longleftrightarrow> c = CHR ''=''"
  "url_char c = CHR ''.'' \<longleftrightarrow> c = CHR ''.''"
proof -
  have "b64_val (CHR ''+'') = Some 62" "b64_val (CHR ''/'') = Some 63"
    "b64_val (CHR ''-'') = Some 62" "b64_val (CHR ''_'') = Some 63" by code_simp+
  then show "b64_val (url_char c) = b64_val c" by (simp add: url_char_def)
qed (auto simp: url_char_def)

lemma to_base64_padding:
  "takeWhile (\<lambda>c. c \<noteq> CHR ''='') (to_base64 bs) = filter (\<lambda>c. c \<noteq> CHR ''='') (to_base64 bs)"
  by (induction bs rule: to_base64.induct) (simp_all add: Let_def)

lemma from_base64_to_base64url [simp]: "from_base64 (to_base64url bs) = bs"
proof -
  have tw: "takeWhile (\<lambda>c. c \<noteq> CHR ''='') (to_base64url bs) = to_base64url bs"
    by (auto simp: to_base64url_def takeWhile_eq_all_conv)
  have mf: "List.map_filter b64_val (map url_char xs) = List.map_filter b64_val xs" for xs
    by (induction xs) (simp_all add: List.map_filter_simps split: option.split)
  have "from_base64 (to_base64url bs) = group_bytes (List.map_filter b64_val (filter (\<lambda>c. c \<noteq> CHR ''='') (to_base64 bs)))"
    unfolding from_base64_def tw unfolding to_base64url_def mf by (rule refl)
  also have "\<dots> = from_base64 (to_base64 bs)"
    by (simp add: from_base64_def to_base64_padding)
  finally show ?thesis by (simp add: from_base64_to_base64)
qed

lemma b64_digit_no_dot [simp]: "b64_digit n k \<noteq> CHR ''.''" "CHR ''.'' \<noteq> b64_digit n k"
proof -
  have "list_all (\<lambda>n. b64_char n \<noteq> CHR ''.'') [0..<64]" by code_simp
  then have "b64_char (n div k mod 64) \<noteq> CHR ''.''" by (simp add: list_all_iff)
  then show "b64_digit n k \<noteq> CHR ''.''" "CHR ''.'' \<noteq> b64_digit n k" by (simp_all add: b64_digit_def)
qed

lemma no_dot_base64: "CHR ''.'' \<notin> set (to_base64 bs)"
  by (induction bs rule: to_base64.induct) (simp_all add: Let_def)

lemma no_dot_base64url [simp]: "CHR ''.'' \<notin> set (to_base64url bs)"
  using no_dot_base64 [of bs] by (auto simp: to_base64url_def dest: sym)

section \<open>Session tokens\<close>

definition defined_members :: "json \<Rightarrow> json" where
  "defined_members v = (case v of JObj kvs \<Rightarrow> JObj (filter (\<lambda>(k, w). w \<noteq> JUndef) kvs) | _ \<Rightarrow> v)"

text \<open>What \<open>JSON.parse\<close> does to the text of the payload that is signed.\<close>

definition parses_payload :: "session_service \<Rightarrow> auth_principal \<Rightarrow> int \<Rightarrow> int \<Rightarrow> bool" where
  "parses_payload ss p now ttl \<longleftrightarrow>
     ss_parse ss (json_text (session_payload p now ttl)) = Some (defined_members (session_payload p now ttl))"

lemma num_int_strip10: "0 \<le> e \<Longrightarrow> num_int (strip10 m e) = Some (m * 10 ^ nat e)"
proof (induction m e rule: strip10.induct)
  case (1 m e)
  show ?case
  proof (cases "m \<noteq> 0 \<and> m mod 10 = 0")
    case True
    then have "num_int (strip10 m e) = Some (m div 10 * 10 ^ nat (e + 1))"
      using 1 by (subst strip10.simps) simp
    also have "m div 10 * 10 ^ nat (e + 1) = m div 10 * 10 * 10 ^ nat e"
      using 1(2) by (simp add: nat_add_distrib)
    also have "m div 10 * 10 = m" using True by (metis add.right_neutral div_mult_mod_eq)
    finally show ?thesis .
  next
    case False
    with 1(2) show ?thesis by (subst strip10.simps) auto
  qed
qed

lemma strip10_Dec: "\<exists>m' e'. strip10 m e = Dec m' e'"
proof (induction m e rule: strip10.induct)
  case (1 m e)
  then show ?case by (subst strip10.simps) auto
qed

lemma at_or_after_jint: "at_or_after now (strip10 i 0) \<longleftrightarrow> i \<le> now"
proof -
  obtain m e where d: "strip10 i 0 = Dec m e" using strip10_Dec by blast
  have "num_int (strip10 i 0) = Some i" using num_int_strip10 [of 0 i] by simp
  then show ?thesis unfolding d by simp
qed

lemma payload_members:
  "member (defined_members (session_payload p now ttl)) ''sub'' = JStr (au_id p)"
  "member (defined_members (session_payload p now ttl)) ''exp'' = jint (now + ttl)"
  "member (defined_members (session_payload p now ttl)) ''type'' = JStr (kind_str (au_type p))"
  "opt_str (member (defined_members (session_payload p now ttl)) ''tid'') = au_tenantId p"
  "member (defined_members (session_payload p now ttl)) ''roles'' = JArr (map JStr (au_roles p))"
  by (cases "au_tenantId p"; simp add: session_payload_def defined_members_def member_def obj_get_def)+

lemma payload_roles_map [simp]: "payload_roles (JArr (map JStr rs)) = rs"
  by (induction rs) (simp_all add: payload_roles_def List.map_filter_simps)

lemma parse_kind_str [simp]: "parse_kind (JStr (kind_str k)) = k"
  by (cases k) simp_all

definition token_parts :: "session_service \<Rightarrow> int \<Rightarrow> auth_principal \<Rightarrow> int \<Rightarrow> string \<times> string" where
  "token_parts ss nowMs p ttl =
     (to_base64url (utf8 (json_text session_header)), to_base64url (utf8 (json_text (session_payload p (nowMs div 1000) ttl))))"

lemma split_token:
  "split_on (CHR ''.'') (session_sign ss nowMs p ttl) =
     [fst (token_parts ss nowMs p ttl), snd (token_parts ss nowMs p ttl),
      token_sign ss (fst (token_parts ss nowMs p ttl) @ ''.'' @ snd (token_parts ss nowMs p ttl))]"
  by (simp add: session_sign_def token_parts_def Let_def token_sign_def split_on_append split_on_no_sep)

lemma decoded_payload:
  "from_utf8 (from_base64 (snd (token_parts ss nowMs p ttl))) = Some (json_text (session_payload p (nowMs div 1000) ttl))"
  by (simp add: token_parts_def)

lemma without_environment:
  "\<lparr>au_id = au_id p, au_type = au_type p, au_tenantId = au_tenantId p, au_environment = None, au_roles = au_roles p\<rparr> =
     p\<lparr>au_environment := None\<rparr>"
  by (cases p) simp

lemma check_signed_token:
  assumes "parses_payload ss p (nowMs div 1000) ttl"
  shows "check_token ss t (session_sign ss nowMs p ttl) =
    (if nowMs div 1000 + ttl \<le> t div 1000 then Inl TokenExpiredError else Inr (p\<lparr>au_environment := None\<rparr>))"
  using assms
  by (simp add: check_token_def split_token decoded_payload parses_payload_def payload_members at_or_after_jint Let_def
      without_environment del: parse_kind.simps)

section \<open>Revocation\<close>

text \<open>
  What happens to the revocation list after a token with hash \<open>h\<close> and expiry \<open>x\<close> (in
  milliseconds) was revoked: time passes, other tokens are revoked and checked, and the token
  is perhaps revoked again.
\<close>

inductive revocation_later :: "string \<Rightarrow> int \<Rightarrow> int \<Rightarrow> revocations \<Rightarrow> bool" for h x where
  rl_revoke: "revocation_later h x t (revocation_revoke t h x entries)"
| rl_time: "revocation_later h x t entries \<Longrightarrow> t \<le> t' \<Longrightarrow> revocation_later h x t' entries"
| rl_check: "revocation_later h x t entries \<Longrightarrow> revocation_later h x t (snd (revocation_isRevoked t k entries))"
| rl_other: "revocation_later h x t entries \<Longrightarrow> k \<noteq> h \<Longrightarrow> revocation_later h x t (revocation_revoke t k y entries)"

lemma map_of_filter_val:
  "distinct (map fst xs) \<Longrightarrow> map_of (filter (\<lambda>(k, v). P v) xs) k =
     (case map_of xs k of None \<Rightarrow> None | Some v \<Rightarrow> if P v then Some v else None)"
proof (induction xs)
  case (Cons kv xs)
  obtain l v where kv: "kv = (l, v)" by (cases kv)
  from Cons.prems have "map_of xs l = None" by (simp add: kv map_of_eq_None_iff)
  with Cons show ?case by (auto simp: kv split: option.split)
qed simp

lemma gc_keeps: "(h, x) \<in> set entries \<Longrightarrow> now < x \<Longrightarrow> (h, x) \<in> set (revocation_gc now entries)"
  by (simp add: revocation_gc_def)

lemma update_member: "(h, x) \<in> set (AList.update h x entries)"
  by (induction entries) auto

lemma update_other_member: "(h, x) \<in> set entries \<Longrightarrow> k \<noteq> h \<Longrightarrow> (h, x) \<in> set (AList.update k y entries)"
  by (induction entries) auto

text \<open>Until the token expires its entry stays in the list.\<close>

lemma revocation_kept:
  "revocation_later h x t entries \<Longrightarrow> t < x \<Longrightarrow> (h, x) \<in> set entries"
proof (induction rule: revocation_later.induct)
  case (rl_revoke t entries)
  then show ?case by (simp add: revocation_revoke_def gc_keeps update_member)
next
  case (rl_check t entries k)
  then show ?case by (simp add: revocation_isRevoked_def Let_def gc_keeps)
next
  case (rl_other t entries k y)
  then show ?case by (simp add: revocation_revoke_def gc_keeps update_other_member)
qed simp

lemma revoked_found:
  "revocation_later h x t entries \<Longrightarrow> t < x \<Longrightarrow> fst (revocation_isRevoked t h entries)"
  using gc_keeps [OF revocation_kept, of h x t entries]
  by (force simp: revocation_isRevoked_def Let_def map_of_eq_None_iff)

lemma revoke_expiry_signed:
  assumes "parses_payload ss p (nowMs div 1000) ttl"
  shows "revoke_expiry ss t (snd (token_parts ss nowMs p ttl)) = nowMs div 1000 + ttl"
proof -
  obtain m e where d: "strip10 (nowMs div 1000 + ttl) 0 = Dec m e" using strip10_Dec by blast
  have "num_int (strip10 (nowMs div 1000 + ttl) 0) = Some (nowMs div 1000 + ttl)"
    using num_int_strip10 [of 0 "nowMs div 1000 + ttl"] by simp
  with assms show ?thesis
    by (simp add: revoke_expiry_def decoded_payload parses_payload_def payload_members)
qed

lemma session_revoke_signed:
  assumes "parses_payload ss p (nowMs div 1000) ttl"
  shows "session_revoke ss t (session_sign ss nowMs p ttl) (Sync_store entries) =
    Sync_store (revocation_revoke t (hashToken ss (session_sign ss nowMs p ttl)) ((nowMs div 1000 + ttl) * 1000) entries)"
  by (simp add: session_revoke_def split_token revoke_expiry_signed [OF assms] Let_def)

section \<open>API keys\<close>

lemma hex_val_char: "n < 16 \<Longrightarrow> hex_val (hex_char n) = Some n"
  by (cases "n < 10") (simp_all add: hex_val_def hex_char_def Let_def)

lemma nibbles: "unat (b :: 8 word) div 16 < 16" "unat b mod 16 < 16"
  using byte_bound [of b] by (simp_all add: less_mult_imp_div_less)

lemma from_hex_to_hex [simp]: "from_hex (to_hex bs) = bs"
proof (induction bs)
  case (Cons b bs)
  have "from_hex (to_hex (b # bs)) = of_nat (unat b div 16 * 16 + unat b mod 16) # from_hex (to_hex bs)"
    by (simp only: to_hex_def byte_hex_def list.map concat.simps append_Cons append_Nil from_hex.simps
        hex_val_char [OF nibbles(1)] hex_val_char [OF nibbles(2)] option.case prod.case)
  also have "unat b div 16 * 16 + unat b mod 16 = unat b" by (rule div_mult_mod_eq)
  finally show ?case using Cons by (simp only: byte_of_nat)
qed (simp add: to_hex_def)

lemma to_hex_inject [simp]: "to_hex a = to_hex b \<longleftrightarrow> a = b"
  by (metis from_hex_to_hex)

lemma hex_char_no_underscore: "n < 16 \<Longrightarrow> hex_char n \<noteq> CHR ''_''"
  using hex_val_char [of n] by (auto simp: hex_val_def)

lemma to_hex_no_underscore: "CHR ''_'' \<notin> set (to_hex bs)"
proof (induction bs)
  case (Cons b bs)
  have "hex_char (unat b div 16) \<noteq> CHR ''_''" "hex_char (unat b mod 16) \<noteq> CHR ''_''"
    by (rule hex_char_no_underscore [OF nibbles(1)], rule hex_char_no_underscore [OF nibbles(2)])
  with Cons show ?case by (auto simp: to_hex_def byte_hex_def dest: sym)
qed (simp add: to_hex_def)

lemma split_plaintext:
  "split_on (CHR ''_'') (key_plaintext prefix secret) = [''rgd'', to_hex prefix, to_hex secret]"
proof -
  have "split_on (CHR ''_'') (key_plaintext prefix secret) =
      split_on (CHR ''_'') (''rgd'' @ CHR ''_'' # to_hex prefix @ CHR ''_'' # to_hex secret)"
    by (simp add: key_plaintext_def)
  also have "\<dots> = [''rgd'', to_hex prefix, to_hex secret]"
    by (subst split_on_append, simp, simp add: split_on_append split_on_no_sep to_hex_no_underscore)
  finally show ?thesis .
qed

lemma to_hex_Nil [simp]: "to_hex bs = [] \<longleftrightarrow> bs = []"
  by (cases bs) (simp_all add: to_hex_def byte_hex_def)

lemma find_append: "find P (xs @ ys) = (case find P xs of None \<Rightarrow> find P ys | Some x \<Rightarrow> Some x)"
  by (induction xs) simp_all

lemma update_new: "map_of kvs k = None \<Longrightarrow> AList.update k v kvs = kvs @ [(k, v)]"
  by (induction kvs) auto

lemma update_last: "map_of kvs k = None \<Longrightarrow> AList.update k w (kvs @ [(k, v)]) = kvs @ [(k, w)]"
  by (induction kvs) auto

lemma findByPrefix_new:
  "findByPrefix keys (ak_prefix r) = None \<Longrightarrow> findByPrefix (keys @ [(i, r)]) (ak_prefix r) = Some r"
  by (simp add: findByPrefix_def find_append)

text \<open>
  The steps a key store takes: keys are issued under new identifiers, used and revoked.
\<close>

inductive key_step :: "api_keys \<Rightarrow> api_keys \<Rightarrow> bool" where
  ks_create: "map_of keys (ak_id r) = None \<Longrightarrow> key_step keys (key_create r keys)"
| ks_touch: "key_step keys (key_touch now i keys)"
| ks_revoke: "now \<noteq> [] \<Longrightarrow> key_step keys (key_revoke now i keys)"

text \<open>A record that is found stays found, and stays revoked.\<close>

definition found_revoked :: "string \<Rightarrow> string \<Rightarrow> api_keys \<Rightarrow> bool" where
  "found_revoked prefix i keys \<longleftrightarrow>
     (\<exists>pre r post. keys = pre @ (i, r) # post \<and> ak_prefix r = prefix \<and> str_truthy (ak_revokedAt r) \<and>
        (\<forall>(j, q) \<in> set pre. ak_prefix q \<noteq> prefix \<and> j \<noteq> i))"

lemma update_split:
  "(\<forall>(j, q) \<in> set pre. j \<noteq> i) \<Longrightarrow> AList.update i v (pre @ (i, r) # post) = pre @ (i, v) # post"
  by (induction pre) auto

lemma update_elsewhere:
  "k \<noteq> i \<Longrightarrow> map_of pre k \<noteq> None \<Longrightarrow> AList.update k v (pre @ (i, r) # post) = AList.update k v pre @ (i, r) # post"
  by (induction pre) auto

lemma update_behind:
  "k \<noteq> i \<Longrightarrow> map_of pre k = None \<Longrightarrow> AList.update k v (pre @ (i, r) # post) = pre @ (i, r) # AList.update k v post"
  by (induction pre) auto

lemma update_set: "(j, q) \<in> set (AList.update k v kvs) \<Longrightarrow> (j, q) \<in> set kvs \<or> (j, q) = (k, v)"
  by (induction kvs) (auto split: if_splits)

lemma found_revoked_update:
  assumes "found_revoked prefix i keys"
    and "\<And>r0. map_of keys k = Some r0 \<Longrightarrow> ak_prefix r = ak_prefix r0 \<and> (str_truthy (ak_revokedAt r0) \<longrightarrow> str_truthy (ak_revokedAt r))"
  shows "found_revoked prefix i (AList.update k r keys)"
proof -
  obtain pre q post where keys: "keys = pre @ (i, q) # post" "ak_prefix q = prefix" "str_truthy (ak_revokedAt q)"
    and pre: "\<forall>(j, q) \<in> set pre. ak_prefix q \<noteq> prefix \<and> j \<noteq> i"
    using assms(1) by (auto simp: found_revoked_def)
  from pre have ni: "\<forall>(j, q) \<in> set pre. j \<noteq> i" by auto
  then have none: "map_of pre i = None" by (auto simp: map_of_eq_None_iff)
  consider "k = i" | "k \<noteq> i" "map_of pre k = None" | "k \<noteq> i" "map_of pre k \<noteq> None" by blast
  then show ?thesis
  proof cases
    case 1
    then have "map_of keys k = Some q" using none by (simp add: keys map_add_def)
    with assms(2) [of q] keys have "ak_prefix r = prefix" "str_truthy (ak_revokedAt r)" by simp_all
    moreover have "AList.update k r keys = pre @ (i, r) # post" using 1 ni by (simp add: keys update_split)
    ultimately show ?thesis using pre by (auto simp: found_revoked_def)
  next
    case 2
    then have "AList.update k r keys = pre @ (i, q) # AList.update k r post" by (simp add: keys update_behind)
    with keys pre show ?thesis by (auto simp: found_revoked_def)
  next
    case 3
    then obtain q' where q': "map_of pre k = Some q'" by blast
    then have "map_of keys k = Some q'" by (simp add: keys)
    with assms(2) [of q'] have "ak_prefix r = ak_prefix q'" by simp
    moreover have "ak_prefix q' \<noteq> prefix" using pre map_of_SomeD [OF q'] by auto
    ultimately have "\<forall>(j, q) \<in> set (AList.update k r pre). ak_prefix q \<noteq> prefix \<and> j \<noteq> i"
      using pre 3(1) update_set [of _ _ k r pre] by fastforce
    moreover have "AList.update k r keys = AList.update k r pre @ (i, q) # post" using 3 by (simp add: keys update_elsewhere)
    ultimately show ?thesis using keys by (auto simp: found_revoked_def)
  qed
qed

lemma found_revoked_step: "key_step keys keys' \<Longrightarrow> found_revoked prefix i keys \<Longrightarrow> found_revoked prefix i keys'"
proof (induction rule: key_step.induct)
  case (ks_create keys r)
  then show ?case using found_revoked_update [of prefix i keys "ak_id r" r] by (simp add: key_create_def)
next
  case (ks_touch keys now k)
  then show ?case using found_revoked_update [of prefix i keys k]
    by (auto simp: key_touch_def split: option.split)
next
  case (ks_revoke now keys k)
  then show ?case using found_revoked_update [of prefix i keys k]
    by (auto simp: key_revoke_def split: option.split)
qed

lemma found_revoked_steps: "key_step\<^sup>*\<^sup>* keys keys' \<Longrightarrow> found_revoked prefix i keys \<Longrightarrow> found_revoked prefix i keys'"
  by (induction rule: rtranclp_induct) (auto intro: found_revoked_step)

lemma found_revoked_find:
  assumes "found_revoked prefix i keys"
  shows "\<exists>r. findByPrefix keys prefix = Some r \<and> str_truthy (ak_revokedAt r)"
proof -
  obtain pre q post where keys: "keys = pre @ (i, q) # post" "ak_prefix q = prefix" "str_truthy (ak_revokedAt q)"
    and pre: "\<forall>(j, q) \<in> set pre. ak_prefix q \<noteq> prefix \<and> j \<noteq> i"
    using assms by (auto simp: found_revoked_def)
  have "find (\<lambda>r. ak_prefix r = prefix) (map snd pre) = None" using pre by (auto simp: find_None_iff)
  with keys show ?thesis by (simp add: findByPrefix_def find_append)
qed

section \<open>Properties\<close>

text \<open>A concrete service: the checksum and the parser are those of one token.\<close>

definition some_principal :: auth_principal where
  "some_principal = \<lparr>au_id = ''u1'', au_type = PK_user, au_tenantId = Some ''t1'', au_environment = None, au_roles = [''viewer'']\<rparr>"

definition some_service :: session_service where
  "some_service = \<lparr>ss_hmac = (\<lambda>s. [of_nat (length s)]), ss_sha256 = (\<lambda>s. utf8 (take 2 (rev s))),
     ss_parse = (\<lambda>s. Some (defined_members (session_payload some_principal 1000 60)))\<rparr>"

lemma some_principal_no_environment [simp]: "some_principal\<lparr>au_environment := None\<rparr> = some_principal"
  by (simp add: some_principal_def)

lemma some_service_parses [simp]: "parses_payload some_service some_principal 1000 60"
  by (simp add: parses_payload_def some_service_def)

text \<open>A signed token is accepted until it expires, as the principal it was signed for less its environment,
  unless its hash is on the revocation list; it is refused as expired from the second of its expiry on.
  The one hypothesis is that parsing the printed payload gives its defined members.\<close>

theorem session_roundtrip:
  assumes "parses_payload ss p (nowMs div 1000) ttl"
  shows "fst (session_verify ss t (session_sign ss nowMs p ttl) store) =
    (if nowMs div 1000 + ttl \<le> t div 1000 then Inl TokenExpiredError
     else (case store of
             Sync_store entries \<Rightarrow>
               if map_of (revocation_gc t entries) (hashToken ss (session_sign ss nowMs p ttl)) \<noteq> None
               then Inl TokenInvalidError else Inr (p\<lparr>au_environment := None\<rparr>)
           | _ \<Rightarrow> Inr (p\<lparr>au_environment := None\<rparr>)))"
  by (simp add: session_verify_def check_signed_token [OF assms] revocation_isRevoked_def Let_def
      split: revocation_store.split)

theorem session_roundtrip_witness:
  "fst (session_verify some_service 1059999 (session_sign some_service 1000999 some_principal 60) No_store) = Inr some_principal \<and>
   fst (session_verify some_service 1060000 (session_sign some_service 1000999 some_principal 60) No_store) = Inl TokenExpiredError"
  using session_roundtrip [of some_service some_principal 1000999 60 1059999 No_store]
    session_roundtrip [of some_service some_principal 1000999 60 1060000 No_store]
  by simp

text \<open>An accepted token was signed with the secret of the service: its last part is the signature of the
  other two, its payload names the accepted principal and an expiry that has not come, and its
  hash is not on a list that answers at once.\<close>

theorem session_verify_sound:
  assumes "fst (session_verify ss t token store) = Inr p"
  shows "\<exists>h b payload e.
    token = h @ ''.'' @ b @ ''.'' @ token_sign ss (h @ ''.'' @ b) \<and>
    Option.bind (from_utf8 (from_base64 b)) (ss_parse ss) = Some payload \<and>
    member payload ''sub'' = JStr (au_id p) \<and> au_roles p = payload_roles (member payload ''roles'') \<and>
    member payload ''exp'' = JNum e \<and> \<not> at_or_after (t div 1000) e \<and>
    (\<forall>entries x. store = Sync_store entries \<and> (hashToken ss token, x) \<in> set entries \<longrightarrow> x \<le> t)"
proof -
  from assms have c: "check_token ss t token = Inr p"
    and nr: "\<forall>entries. store = Sync_store entries \<longrightarrow> \<not> fst (revocation_isRevoked t (hashToken ss token) entries)"
    by (auto simp: session_verify_def split: sum.splits revocation_store.splits prod.splits if_splits)
  define segs where "segs = split_on (CHR ''.'') token"
  from c have l: "length segs = 3" and sig: "segs ! 2 = token_sign ss (segs ! 0 @ ''.'' @ segs ! 1)"
    by (auto simp: check_token_def segs_def [symmetric] Let_def utf8_inject split: if_splits)
  from l sig obtain h b where hb: "segs = [h, b, token_sign ss (h @ ''.'' @ b)]"
    by (auto simp: numeral_3_eq_3 length_Suc_conv)
  have tok: "token = h @ ''.'' @ b @ ''.'' @ token_sign ss (h @ ''.'' @ b)"
    using js_join_split_on [of "CHR ''.''" token] by (simp add: segs_def [symmetric] hb)
  have sp: "split_on (CHR ''.'') token = [h, b, token_sign ss (h @ ''.'' @ b)]"
    using hb by (simp add: segs_def)
  obtain payload where pl: "Option.bind (from_utf8 (from_base64 b)) (ss_parse ss) = Some payload"
    and c2: "(case (member payload ''exp'', member payload ''sub'') of
        (JNum e, JStr sub) \<Rightarrow>
          if at_or_after (t div 1000) e then Inl TokenExpiredError
          else Inr \<lparr>au_id = sub, au_type = parse_kind (member payload ''type''),
                 au_tenantId = opt_str (member payload ''tid''), au_environment = None,
                 au_roles = payload_roles (member payload ''roles'')\<rparr>
      | _ \<Rightarrow> Inl TokenInvalidError) = (Inr p :: auth_error + auth_principal)"
    using c by (cases "Option.bind (from_utf8 (from_base64 b)) (ss_parse ss)") (simp_all add: check_token_def sp)
  obtain e where cl: "member payload ''exp'' = JNum e" "member payload ''sub'' = JStr (au_id p)"
      "\<not> at_or_after (t div 1000) e" "au_roles p = payload_roles (member payload ''roles'')"
    using c2 by (cases "member payload ''exp''"; cases "member payload ''sub''") (auto split: if_splits)
  have "\<forall>entries x. store = Sync_store entries \<and> (hashToken ss token, x) \<in> set entries \<longrightarrow> x \<le> t"
  proof (intro allI impI, elim conjE)
    fix entries x
    assume st: "store = Sync_store entries" and mem: "(hashToken ss token, x) \<in> set entries"
    have "map_of (revocation_gc t entries) (hashToken ss token) = None"
      using nr st by (simp add: revocation_isRevoked_def Let_def)
    then show "x \<le> t" using gc_keeps [OF mem, of t] by (force simp: map_of_eq_None_iff)
  qed
  with tok pl cl show ?thesis by blast
qed

theorem session_verify_sound_witness:
  "\<exists>h b. session_sign some_service 1000999 some_principal 60 = h @ ''.'' @ b @ ''.'' @ token_sign some_service (h @ ''.'' @ b)"
proof -
  have "fst (session_verify some_service 1059999 (session_sign some_service 1000999 some_principal 60) No_store) = Inr some_principal"
    by (simp add: session_verify_def check_signed_token)
  from session_verify_sound [OF this] show ?thesis by blast
qed

lemma second_bound: "t div 1000 < s \<Longrightarrow> t < s * (1000 :: int)"
  using pos_mod_bound [of 1000 t] div_mult_mod_eq [of t 1000] by linarith

text \<open>C27: Once a token is revoked in a list that answers at once it is never accepted again: whatever is
  revoked and checked afterwards, and however much time passes, its verification fails.\<close>

theorem revoked_never_verifies:
  assumes "parses_payload ss p (nowMs div 1000) ttl"
  shows "(\<forall>t entries. \<exists>entries'.
      session_revoke ss t (session_sign ss nowMs p ttl) (Sync_store entries) = Sync_store entries' \<and>
      revocation_later (hashToken ss (session_sign ss nowMs p ttl)) ((nowMs div 1000 + ttl) * 1000) t entries') \<and>
    (\<forall>t entries. revocation_later (hashToken ss (session_sign ss nowMs p ttl)) ((nowMs div 1000 + ttl) * 1000) t entries \<longrightarrow>
      (\<exists>e. fst (session_verify ss t (session_sign ss nowMs p ttl) (Sync_store entries)) = Inl e))"
proof (intro conjI allI impI)
  fix t entries
  show "\<exists>entries'. session_revoke ss t (session_sign ss nowMs p ttl) (Sync_store entries) = Sync_store entries' \<and>
      revocation_later (hashToken ss (session_sign ss nowMs p ttl)) ((nowMs div 1000 + ttl) * 1000) t entries'"
    using session_revoke_signed [OF assms] rl_revoke by blast
next
  fix t entries
  let ?h = "hashToken ss (session_sign ss nowMs p ttl)"
  assume later: "revocation_later ?h ((nowMs div 1000 + ttl) * 1000) t entries"
  show "\<exists>e. fst (session_verify ss t (session_sign ss nowMs p ttl) (Sync_store entries)) = Inl e"
  proof (cases "nowMs div 1000 + ttl \<le> t div 1000")
    case False
    then have "t < (nowMs div 1000 + ttl) * 1000" by (intro second_bound) simp
    with revoked_found [OF later] False show ?thesis
      by (auto simp: session_verify_def check_signed_token [OF assms] split: prod.split)
  qed (simp add: session_verify_def check_signed_token [OF assms])
qed

theorem revoked_never_verifies_witness:
  "\<exists>entries e. session_revoke some_service 1002000 (session_sign some_service 1000999 some_principal 60) (Sync_store []) = Sync_store entries \<and>
     fst (session_verify some_service 1002000 (session_sign some_service 1000999 some_principal 60) (Sync_store entries)) = Inl e"
proof -
  have sp: "parses_payload some_service some_principal (1000999 div 1000) 60" by simp
  obtain entries where e:
    "session_revoke some_service 1002000 (session_sign some_service 1000999 some_principal 60) (Sync_store []) = Sync_store entries"
    "revocation_later (hashToken some_service (session_sign some_service 1000999 some_principal 60))
       ((1000999 div 1000 + 60) * 1000) 1002000 entries"
    using conjunct1 [OF revoked_never_verifies [OF sp]] by metis
  from conjunct2 [OF revoked_never_verifies [OF sp]] e(2)
  obtain err where "fst (session_verify some_service 1002000 (session_sign some_service 1000999 some_principal 60) (Sync_store entries)) = Inl err"
    by metis
  with e(1) show ?thesis by blast
qed

text \<open>No character of an encoded part is white space.\<close>

lemma is_ws_chars: "is_ws c \<Longrightarrow> c \<in> set (map char_of [9, 10, 11, 12, 13, 32, 160 :: nat])"
proof -
  assume "is_ws c"
  then have "char_of (of_char c :: nat) \<in> char_of ` {9, 10, 11, 12, 13, 32, 160 :: nat}"
    unfolding is_ws_def by (rule imageI)
  then show ?thesis unfolding char_of_char by simp
qed

lemma no_ws_digit: "b64_val c \<noteq> None \<Longrightarrow> \<not> is_ws c"
proof -
  have "list_all (\<lambda>c. b64_val c = None) (map char_of [9, 10, 11, 12, 13, 32, 160 :: nat])" by code_simp
  then show "b64_val c \<noteq> None \<Longrightarrow> \<not> is_ws c" using is_ws_chars [of c] by (auto simp: list_all_iff)
qed

lemma no_ws_base64url: "c \<in> set (to_base64url bs) \<Longrightarrow> \<not> is_ws c"
proof -
  have pad: "\<not> is_ws (CHR ''='')" by (simp add: is_ws_def)
  have "\<forall>c \<in> set (to_base64 bs). \<not> is_ws c"
    by (induction bs rule: to_base64.induct) (simp_all add: Let_def no_ws_digit pad)
  moreover have "\<not> is_ws (CHR ''-'')" "\<not> is_ws (CHR ''_'')" by (simp_all add: is_ws_def)
  ultimately show "c \<in> set (to_base64url bs) \<Longrightarrow> \<not> is_ws c"
    by (auto simp: to_base64url_def url_char_def split: if_splits)
qed

lemma token_no_ws: "c \<in> set (session_sign ss nowMs p ttl) \<Longrightarrow> \<not> is_ws c"
proof -
  have dot: "\<not> is_ws (CHR ''.'')" by (simp add: is_ws_def)
  then show "c \<in> set (session_sign ss nowMs p ttl) \<Longrightarrow> \<not> is_ws c"
    using no_ws_base64url by (auto simp: session_sign_def token_sign_def Let_def)
qed

lemma dropWhile_none: "\<forall>c \<in> set s. \<not> P c \<Longrightarrow> dropWhile P s = s"
  by (cases s) simp_all

lemma trim_no_ws: "\<forall>c \<in> set s. \<not> is_ws c \<Longrightarrow> trim s = s"
  by (simp add: trim_def dropWhile_none)

lemma trim_token [simp]: "trim (session_sign ss nowMs p ttl) = session_sign ss nowMs p ttl"
  using token_no_ws by (intro trim_no_ws) blast

lemma token_nonempty [simp]: "session_sign ss nowMs p ttl \<noteq> []"
  by (simp add: session_sign_def Let_def)

text \<open>What the resolver does with a bearer token.\<close>

lemma auth_resolve_bearer:
  "auth_resolve (Some verify) apiKeys dev [(''authorization'', [''Bearer '' @ session_sign ss nowMs p ttl])] =
     verify (session_sign ss nowMs p ttl)"
proof -
  have "to_lower ''Bearer'' = ''bearer''" by code_simp
  moreover have "split_on (CHR '' '') (''Bearer '' @ s) = ''Bearer'' # split_on (CHR '' '') s" for s
    using split_on_append [of "CHR '' ''" "''Bearer''" s] by simp
  ultimately show ?thesis
    by (simp add: auth_resolve_def resolve_with_def headerValue_def Let_def del: split_on.simps)
qed

text \<open>The resolver does not see revocations in a store that answers with a promise: a token revoked there
  still authenticates its bearer until it expires, although the asynchronous verification, which the resolver does not call, refuses it.\<close>

theorem async_revocation_ignored:
  assumes "parses_payload ss p (nowMs div 1000) ttl" and "t div 1000 < nowMs div 1000 + ttl"
  shows "let token = session_sign ss nowMs p ttl; store = session_revoke ss t token (Async_store entries)
    in auth_resolve (Some (\<lambda>c. fst (session_verify ss t c store))) apiKeys dev [(''authorization'', [''Bearer '' @ token])] =
         Inr (p\<lparr>au_environment := None\<rparr>) \<and>
       fst (session_verifyAsync ss t token store) = Inl TokenInvalidError"
proof -
  let ?token = "session_sign ss nowMs p ttl"
  let ?entries = "revocation_revoke t (hashToken ss ?token) ((nowMs div 1000 + ttl) * 1000) entries"
  have rev: "session_revoke ss t ?token (Async_store entries) = Async_store ?entries"
    by (simp add: session_revoke_def split_token revoke_expiry_signed [OF assms(1)] Let_def)
  have ver: "session_verify ss t ?token (Async_store e) = (Inr (p\<lparr>au_environment := None\<rparr>), Async_store e)" for e
    using assms(2) by (simp add: session_verify_def check_signed_token [OF assms(1)])
  have "t < (nowMs div 1000 + ttl) * 1000" using assms(2) by (rule second_bound)
  with revoked_found [OF rl_revoke] have "fst (revocation_isRevoked t (hashToken ss ?token) ?entries)" by blast
  then show ?thesis
    unfolding Let_def rev auth_resolve_bearer by (auto simp: session_verifyAsync_def ver split: prod.split)
qed

theorem async_revocation_ignored_witness:
  "\<exists>entries. auth_resolve (Some (\<lambda>c. fst (session_verify some_service 1002000 c (Async_store entries)))) None None
      [(''authorization'', [''Bearer '' @ session_sign some_service 1000999 some_principal 60])] = Inr some_principal \<and>
    fst (session_verifyAsync some_service 1002000 (session_sign some_service 1000999 some_principal 60) (Async_store entries)) =
      Inl TokenInvalidError"
proof -
  have sp: "parses_payload some_service some_principal (1000999 div 1000) 60" "(1002000 :: int) div 1000 < 1000999 div 1000 + 60" by simp_all
  have rev: "\<exists>entries. session_revoke some_service 1002000 token (Async_store []) = Async_store entries" for token
    by (simp add: session_revoke_def Let_def)
  from async_revocation_ignored [OF sp, of "[]" None None]
  show ?thesis using rev [of "session_sign some_service 1000999 some_principal 60"]
    by (auto simp only: Let_def some_principal_no_environment)
qed

lemma issued_record_simps [simp]:
  "ak_id (issued_record sha256 rid rprefix rsecret now input) = to_hex rid"
  "ak_prefix (issued_record sha256 rid rprefix rsecret now input) = to_hex rprefix"
  "ak_hash (issued_record sha256 rid rprefix rsecret now input) = to_hex (sha256 (key_plaintext rprefix rsecret))"
  "ak_principalId (issued_record sha256 rid rprefix rsecret now input) = ik_principalId input"
  "ak_tenantId (issued_record sha256 rid rprefix rsecret now input) = ik_tenantId input"
  "ak_environmentId (issued_record sha256 rid rprefix rsecret now input) = ik_environmentId input"
  "ak_roles (issued_record sha256 rid rprefix rsecret now input) = ik_roles input"
  "ak_revokedAt (issued_record sha256 rid rprefix rsecret now input) = None"
  "ak_expiresAt (issued_record sha256 rid rprefix rsecret now input) = ik_expiresAt input"
  by (simp_all add: issued_record_def)

text \<open>C28: An API key that was issued is accepted from then on, as the principal and tenant it was issued for and with
  those of its roles that the principal still holds, unless it has expired or the account is not active;
  once it is revoked it is refused after every sequence of issues, uses and revocations.\<close>

theorem api_key_lifecycle:
  assumes fresh: "findByPrefix keys (to_hex rprefix) = None" "map_of keys (to_hex rid) = None"
    and random: "rprefix \<noteq> []" "rsecret \<noteq> []" and "revokedAt \<noteq> []"
  shows "let ((i, plaintext, rec), keys') = key_issue sha256 rid rprefix rsecret issuedAt input keys
    in fst (key_verify sha256 date_ms hooks now usedAt plaintext keys') =
         (if key_expired date_ms now rec \<or> account_inactive hooks (ik_principalId input) then Inl InvalidCredentialsError
          else Inr \<lparr>au_id = ik_principalId input, au_type = PK_api_key, au_tenantId = ik_tenantId input,
            au_environment = ik_environmentId input,
            au_roles = (case hk_currentRoles hooks of None \<Rightarrow> ik_roles input
                        | Some current \<Rightarrow> filter (\<lambda>r. r \<in> set (current (ik_principalId input))) (ik_roles input))\<rparr>) \<and>
       (\<forall>keys''. key_step\<^sup>*\<^sup>* (key_revoke revokedAt i keys') keys'' \<longrightarrow>
          fst (key_verify sha256 date_ms hooks now usedAt plaintext keys'') = Inl InvalidCredentialsError)"
proof -
  let ?plain = "key_plaintext rprefix rsecret"
  let ?rec = "issued_record sha256 rid rprefix rsecret issuedAt input"
  let ?keys = "keys @ [(to_hex rid, ?rec)]"
  have created: "key_create ?rec keys = ?keys" using fresh(2) by (simp add: key_create_def update_new)
  have found: "findByPrefix ?keys (to_hex rprefix) = Some ?rec"
    using findByPrefix_new [of keys ?rec] fresh(1) by simp
  have accepted: "fst (key_verify sha256 date_ms hooks now usedAt ?plain ?keys) =
      (if key_expired date_ms now ?rec \<or> account_inactive hooks (ik_principalId input) then Inl InvalidCredentialsError
       else Inr \<lparr>au_id = ik_principalId input, au_type = PK_api_key, au_tenantId = ik_tenantId input,
            au_environment = ik_environmentId input, au_roles = effective_roles hooks ?rec\<rparr>)"
    using random by (simp add: key_verify_def split_plaintext found)
  have revoked: "found_revoked (to_hex rprefix) (to_hex rid) (key_revoke revokedAt (to_hex rid) ?keys)"
  proof -
    have "key_revoke revokedAt (to_hex rid) ?keys = keys @ (to_hex rid, ?rec\<lparr>ak_revokedAt := Some revokedAt\<rparr>) # []"
      using fresh(2) update_last [of keys "to_hex rid" "?rec\<lparr>ak_revokedAt := Some revokedAt\<rparr>" ?rec]
      by (simp add: key_revoke_def map_add_def)
    moreover have "\<forall>(j, q) \<in> set keys. ak_prefix q \<noteq> to_hex rprefix \<and> j \<noteq> to_hex rid"
      using fresh by (auto simp: findByPrefix_def find_None_iff map_of_eq_None_iff rev_image_eqI)
    ultimately show ?thesis using assms(5) unfolding found_revoked_def by fastforce
  qed
  have "fst (key_verify sha256 date_ms hooks now usedAt ?plain keys'') = Inl InvalidCredentialsError"
    if later: "key_step\<^sup>*\<^sup>* (key_revoke revokedAt (to_hex rid) ?keys) keys''" for keys''
  proof -
    obtain r where "findByPrefix keys'' (to_hex rprefix) = Some r" "str_truthy (ak_revokedAt r)"
      using found_revoked_find [OF found_revoked_steps [OF later revoked]] by blast
    with random show ?thesis by (simp add: key_verify_def split_plaintext)
  qed
  with accepted show ?thesis
    by (simp add: key_issue_def created Let_def effective_roles_def split: option.split)
qed

theorem api_key_lifecycle_witness:
  "let ((i, plaintext, rec), keys') =
      key_issue utf8 [1] [2] [3] ''now'' \<lparr>ik_principalId = ''u1'', ik_tenantId = Some ''t1'', ik_environmentId = None,
        ik_name = ''k'', ik_roles = [''viewer'', ''admin''], ik_expiresAt = None\<rparr> []
    in fst (key_verify utf8 (\<lambda>_. None) \<lparr>hk_accountStatus = None, hk_currentRoles = Some (\<lambda>_. [''viewer''])\<rparr> 0 ''t'' plaintext keys') =
         Inr \<lparr>au_id = ''u1'', au_type = PK_api_key, au_tenantId = Some ''t1'', au_environment = None, au_roles = [''viewer'']\<rparr>"
proof -
  have fresh: "findByPrefix [] (to_hex [2]) = None" "map_of ([] :: api_keys) (to_hex [1]) = None"
    "[2 :: 8 word] \<noteq> []" "[3 :: 8 word] \<noteq> []" "''then'' \<noteq> []"
    by (simp_all add: findByPrefix_def)
  from api_key_lifecycle [OF fresh, of utf8 "''now''" "\<lparr>ik_principalId = ''u1'', ik_tenantId = Some ''t1'', ik_environmentId = None,
        ik_name = ''k'', ik_roles = [''viewer'', ''admin''], ik_expiresAt = None\<rparr>" "\<lambda>_. None"
        "\<lparr>hk_accountStatus = None, hk_currentRoles = Some (\<lambda>_. [''viewer''])\<rparr>" 0 "''t''"]
  show ?thesis by (simp add: key_issue_def key_expired_def account_inactive_def Let_def)
qed

end
