(* ===== verification/Accounts.thy ===== *)
theory Accounts
  imports Auth Scoped_Repos
begin

text \<open>
  Accounts: password hashing (\<open>packages/auth/src/password.ts\<close>), the in-memory repositories of users,
  identities, roles, grants and settings (\<open>packages/db/src/memory/auth.ts\<close>), the account service
  with local login, single sign-on and signup (\<open>packages/auth/src/accounts.ts\<close>), the pending
  states of single sign-on (\<open>packages/auth/src/sso-state.ts\<close>) and webhook tokens
  (\<open>packages/auth/src/webhookTokens.ts\<close>).  scrypt (of the normal form NFKC of a password), SHA-256,
  HMAC and random values come from the platform and are parameters.
\<close>

section \<open>Numbers from text\<close>

text \<open>
  \<open>Number(s)\<close> where it is an integer: white space, signs, fractions, exponents and the three radix
  prefixes; the rounding of numbers with more than fifteen digits is not modelled.
\<close>

definition all_digits :: "string \<Rightarrow> bool" where
  "all_digits s \<longleftrightarrow> s \<noteq> [] \<and> list_all is_digit s"

definition radix_val :: "nat \<Rightarrow> string \<Rightarrow> nat option" where
  "radix_val r s = (if s = [] then None
     else foldl (\<lambda>acc c. case (acc, hex_val c) of
         (Some a, Some d) \<Rightarrow> if d < r then Some (a * r + d) else None
       | _ \<Rightarrow> None) (Some 0) s)"

definition signed :: "string \<Rightarrow> bool \<times> string" where
  "signed s = (case s of c # r \<Rightarrow> if c = CHR ''-'' then (True, r) else if c = CHR ''+'' then (False, r) else (False, s)
     | [] \<Rightarrow> (False, s))"

text \<open>Mantissa and power of ten.\<close>

definition decimal_val :: "string \<Rightarrow> (int \<times> int) option" where
  "decimal_val s = (case split_on (CHR ''.'') s of
       [i] \<Rightarrow> if all_digits i then Some (int (str_nat i), 0) else None
     | [i, f] \<Rightarrow> if all_digits (i @ f) then Some (int (str_nat (i @ f)), - int (length f)) else None
     | _ \<Rightarrow> None)"

definition exponent_val :: "string \<Rightarrow> int option" where
  "exponent_val s = (let (neg, ds) = signed s in
     if all_digits ds then Some (if neg then - int (str_nat ds) else int (str_nat ds)) else None)"

definition scaled_int :: "int \<Rightarrow> int \<Rightarrow> int option" where
  "scaled_int m e = (if 0 \<le> e then Some (m * 10 ^ nat e)
     else if m mod 10 ^ nat (- e) = 0 then Some (m div 10 ^ nat (- e)) else None)"

definition unsigned_int :: "string \<Rightarrow> int option" where
  "unsigned_int s = (case split_on (CHR ''e'') (map (\<lambda>c. if c = CHR ''E'' then CHR ''e'' else c) s) of
       [m] \<Rightarrow> Option.bind (decimal_val m) (\<lambda>(k, e). scaled_int k e)
     | [m, x] \<Rightarrow> Option.bind (decimal_val m) (\<lambda>(k, e). Option.bind (exponent_val x) (\<lambda>y. scaled_int k (e + y)))
     | _ \<Rightarrow> None)"

definition Number_isInteger :: "string \<Rightarrow> int option" where
  "Number_isInteger s = (let t = trim s; p = to_lower (take 2 t) in
     if t = [] then Some 0
     else if p = ''0x'' then map_option int (radix_val 16 (drop 2 t))
     else if p = ''0o'' then map_option int (radix_val 8 (drop 2 t))
     else if p = ''0b'' then map_option int (radix_val 2 (drop 2 t))
     else (let (neg, r) = signed t in map_option (\<lambda>i. if neg then - i else i) (unsigned_int r)))"

section \<open>Passwords\<close>

record ScryptParams =
  sp_N :: int
  sp_r :: int
  sp_p :: int
  sp_keyLen :: nat

definition scrypt_DEFAULTS :: ScryptParams where
  "scrypt_DEFAULTS = \<lparr>sp_N = 65536, sp_r = 8, sp_p = 1, sp_keyLen = 32\<rparr>"

text \<open>Password, salt and parameters to the derived key; \<open>None\<close> where the platform refuses the parameters.\<close>

type_synonym scrypt = "string \<Rightarrow> bytes \<Rightarrow> ScryptParams \<Rightarrow> bytes option"

datatype account_error = Invalid_credentials | Account_disabled | Signup_disabled | Email_in_use
  | WeakPasswordError | Scrypt_failed | Repository_error repo_error

definition stored_password :: "ScryptParams \<Rightarrow> bytes \<Rightarrow> bytes \<Rightarrow> string" where
  "stored_password ps salt derived = js_join ''$''
     [''scrypt'', int_str (sp_N ps), int_str (sp_r ps), int_str (sp_p ps), to_base64 salt, to_base64 derived]"

definition password_hash :: "scrypt \<Rightarrow> ScryptParams \<Rightarrow> bytes \<Rightarrow> string \<Rightarrow> account_error + string" where
  "password_hash scrypt ps salt password =
     (if password = [] \<or> length password < 8 then Inl WeakPasswordError
      else (case scrypt password salt ps of
              None \<Rightarrow> Inl Scrypt_failed
            | Some derived \<Rightarrow> Inr (stored_password ps salt derived)))"

definition password_verify :: "scrypt \<Rightarrow> string \<Rightarrow> string option \<Rightarrow> bool" where
  "password_verify scrypt password stored =
     (if \<not> str_truthy stored then False
      else let parts = split_on (CHR ''$'') (the stored)
      in if length parts \<noteq> 6 \<or> parts ! 0 \<noteq> ''scrypt'' then False
      else (case (Number_isInteger (parts ! 1), Number_isInteger (parts ! 2), Number_isInteger (parts ! 3)) of
              (Some n, Some r, Some p) \<Rightarrow>
                let salt = from_base64 (parts ! 4); expected = from_base64 (parts ! 5)
                in (case scrypt password salt \<lparr>sp_N = n, sp_r = r, sp_p = p, sp_keyLen = length expected\<rparr> of
                      None \<Rightarrow> False
                    | Some derived \<Rightarrow> derived = expected)
            | _ \<Rightarrow> False))"

section \<open>Repositories\<close>

record LocalUser =
  lu_id :: string
  lu_email :: string
  lu_displayName :: "string option"
  lu_passwordHash :: "string option"
  lu_status :: string
  lu_createdAt :: string
  lu_updatedAt :: string

definition user_create :: "LocalUser \<Rightarrow> LocalUser rows \<Rightarrow> repo_error + LocalUser \<times> LocalUser rows" where
  "user_create = crud_create lu_id ''user''"

definition user_update :: "string \<Rightarrow> (LocalUser \<Rightarrow> LocalUser) \<Rightarrow> LocalUser rows \<Rightarrow> repo_error + LocalUser \<times> LocalUser rows" where
  "user_update = crud_update (\<lambda>i u. u\<lparr>lu_id := i\<rparr>) ''user''"

definition findByEmail :: "LocalUser rows \<Rightarrow> string \<Rightarrow> LocalUser option" where
  "findByEmail users email = find (\<lambda>u. lu_email u = email) (crud_list users)"

record IdentityRecord =
  id_id :: string
  id_userId :: string
  id_provider :: string
  id_subject :: string
  id_email :: "string option"
  id_createdAt :: string

definition identity_create :: "IdentityRecord \<Rightarrow> IdentityRecord list \<Rightarrow> repo_error + IdentityRecord \<times> IdentityRecord list" where
  "identity_create row ids =
     (if list_ex (\<lambda>r. id_provider r = id_provider row \<and> id_subject r = id_subject row) ids
      then Inl (ConflictError ''user_identity'' (id_provider row @ '':'' @ id_subject row))
      else Inr (row, ids @ [row]))"

definition findBySubject :: "IdentityRecord list \<Rightarrow> string \<Rightarrow> string \<Rightarrow> IdentityRecord option" where
  "findBySubject ids provider subject = find (\<lambda>r. id_provider r = provider \<and> id_subject r = subject) ids"

definition identity_listForUser :: "IdentityRecord list \<Rightarrow> string \<Rightarrow> IdentityRecord list" where
  "identity_listForUser ids userId = filter (\<lambda>r. id_userId r = userId) ids"

definition identity_delete :: "string \<Rightarrow> IdentityRecord list \<Rightarrow> IdentityRecord list" where
  "identity_delete i ids = filter (\<lambda>r. id_id r \<noteq> i) ids"

record RbacGrantRow =
  rg_id :: string
  rg_userId :: string
  rg_role :: string
  rg_scope :: string
  rg_createdAt :: string

record rbac_policies =
  rb_rolePerms :: "RolePermissionRow list"
  rb_grants :: "RbacGrantRow list"

definition addRolePermission :: "RolePermissionRow \<Rightarrow> rbac_policies \<Rightarrow> rbac_policies" where
  "addRolePermission row rb =
     (if list_ex (\<lambda>r. rp_role r = rp_role row \<and> rp_permission r = rp_permission row) (rb_rolePerms rb) then rb
      else rb\<lparr>rb_rolePerms := rb_rolePerms rb @ [row]\<rparr>)"

definition removeRolePermission :: "RolePermissionRow \<Rightarrow> rbac_policies \<Rightarrow> rbac_policies" where
  "removeRolePermission row rb =
     rb\<lparr>rb_rolePerms := filter (\<lambda>r. \<not> (rp_role r = rp_role row \<and> rp_permission r = rp_permission row)) (rb_rolePerms rb)\<rparr>"

definition setRolePermissions :: "string \<Rightarrow> string list \<Rightarrow> rbac_policies \<Rightarrow> rbac_policies" where
  "setRolePermissions role permissions rb =
     rb\<lparr>rb_rolePerms := filter (\<lambda>r. rp_role r \<noteq> role) (rb_rolePerms rb) @
          map (\<lambda>p. \<lparr>rp_role = role, rp_permission = p\<rparr>) (js_set permissions)\<rparr>"

definition rbac_listGrantsForUser :: "rbac_policies \<Rightarrow> string \<Rightarrow> RbacGrantRow list" where
  "rbac_listGrantsForUser rb userId = filter (\<lambda>g. rg_userId g = userId) (rb_grants rb)"

definition addGrant :: "RbacGrantRow \<Rightarrow> rbac_policies \<Rightarrow> RbacGrantRow \<times> rbac_policies" where
  "addGrant row rb =
     (case find (\<lambda>g. rg_userId g = rg_userId row \<and> rg_role g = rg_role row \<and> rg_scope g = rg_scope row) (rb_grants rb) of
        Some dup \<Rightarrow> (dup, rb)
      | None \<Rightarrow> (row, rb\<lparr>rb_grants := rb_grants rb @ [row]\<rparr>))"

definition removeGrant :: "string \<Rightarrow> rbac_policies \<Rightarrow> rbac_policies" where
  "removeGrant i rb = rb\<lparr>rb_grants := filter (\<lambda>g. rg_id g \<noteq> i) (rb_grants rb)\<rparr>"

text \<open>The policy store the authorizer reads.\<close>

definition policy_store :: "rbac_policies \<Rightarrow> PolicyStore" where
  "policy_store rb = \<lparr>listRolePermissions = Some (rb_rolePerms rb),
     listGrantsForUser = (\<lambda>u. Some (map (\<lambda>g. \<lparr>gr_role = rg_role g, gr_scope = rg_scope g\<rparr>) (rbac_listGrantsForUser rb u)))\<rparr>"

datatype SignupMode = Admin_only | Open_default_role | Open_no_access

record AuthSettings =
  as_signupMode :: SignupMode
  as_defaultRole :: "string option"
  as_updatedAt :: string

definition initial_settings :: AuthSettings where
  "initial_settings = \<lparr>as_signupMode = Admin_only, as_defaultRole = Some ''viewer'', as_updatedAt = ''1970-01-01T00:00:00.000Z''\<rparr>"

definition settings_set :: "string \<Rightarrow> AuthSettings \<Rightarrow> AuthSettings" where
  "settings_set now row = row\<lparr>as_updatedAt := now\<rparr>"

section \<open>The account service\<close>

record account_state =
  ac_users :: "LocalUser rows"
  ac_identities :: "IdentityRecord list"
  ac_rbac :: rbac_policies
  ac_settings :: AuthSettings

record AccountServiceDeps =
  ad_sessions :: session_service
  ad_scrypt :: scrypt
  ad_params :: ScryptParams
  ad_ttl :: int

text \<open>What a request finds in its surroundings: the time and the random values it draws, in order.\<close>

record surroundings =
  su_nowMs :: int
  su_nowIso :: string
  su_salt :: bytes
  su_uuids :: "nat \<Rightarrow> string"
  su_bytes :: "nat \<Rightarrow> bytes"

record AuthOutcome =
  oc_token :: string
  oc_principal :: auth_principal
  oc_user :: LocalUser

definition account_issue :: "AccountServiceDeps \<Rightarrow> surroundings \<Rightarrow> LocalUser \<Rightarrow> AuthOutcome" where
  "account_issue d su user =
     (let principal = \<lparr>au_id = lu_id user, au_type = PK_user, au_tenantId = None, au_environment = None, au_roles = []\<rparr>
      in \<lparr>oc_token = session_sign (ad_sessions d) (su_nowMs su) principal (ad_ttl d), oc_principal = principal, oc_user = user\<rparr>)"

definition assertActive :: "LocalUser \<Rightarrow> account_error + unit" where
  "assertActive user = (if lu_status user \<noteq> ''active'' then Inl Account_disabled else Inr ())"

definition loginLocal ::
  "AccountServiceDeps \<Rightarrow> surroundings \<Rightarrow> string \<Rightarrow> string \<Rightarrow> account_state \<Rightarrow> account_error + AuthOutcome"
where
  "loginLocal d su email password st =
     (let user = findByEmail (ac_users st) (to_lower (trim email));
          ok = password_verify (ad_scrypt d) password (Option.bind user lu_passwordHash)
      in case user of
           None \<Rightarrow> Inl Invalid_credentials
         | Some u \<Rightarrow>
             if \<not> ok then Inl Invalid_credentials
             else (case assertActive u of Inl e \<Rightarrow> Inl e | Inr _ \<Rightarrow> Inr (account_issue d su u)))"

record SsoIdentity =
  si_subject :: string
  si_email :: "string option"
  si_name :: "string option"

text \<open>The grant a new account gets under the mode \<open>open_default_role\<close>; the scope \<open>*\<close> is global.\<close>

definition default_grant :: "string \<Rightarrow> string \<Rightarrow> string \<Rightarrow> account_state \<Rightarrow> account_state" where
  "default_grant i userId now st =
     (if as_signupMode (ac_settings st) = Open_default_role \<and> str_truthy (as_defaultRole (ac_settings st))
      then st\<lparr>ac_rbac := snd (addGrant \<lparr>rg_id = i, rg_userId = userId, rg_role = the (as_defaultRole (ac_settings st)),
             rg_scope = ''*'', rg_createdAt = now\<rparr> (ac_rbac st))\<rparr>
      else st)"

definition link_identity ::
  "AccountServiceDeps \<Rightarrow> surroundings \<Rightarrow> string \<Rightarrow> SsoIdentity \<Rightarrow> LocalUser \<Rightarrow> account_state \<Rightarrow>
   (account_error + AuthOutcome) \<times> account_state"
where
  "link_identity d su provider idn user st =
     (case identity_create \<lparr>id_id = su_uuids su 2, id_userId = lu_id user, id_provider = provider,
             id_subject = si_subject idn, id_email = si_email idn, id_createdAt = su_nowIso su\<rparr> (ac_identities st) of
        Inl e \<Rightarrow> (Inl (Repository_error e), st)
      | Inr (_, ids) \<Rightarrow> (Inr (account_issue d su user), st\<lparr>ac_identities := ids\<rparr>))"

definition loginSso ::
  "AccountServiceDeps \<Rightarrow> surroundings \<Rightarrow> string \<Rightarrow> SsoIdentity \<Rightarrow> account_state \<Rightarrow>
   (account_error + AuthOutcome) \<times> account_state"
where
  "loginSso d su provider idn st =
     (case findBySubject (ac_identities st) provider (si_subject idn) of
        Some existing \<Rightarrow>
          (case crud_get (ac_users st) (id_userId existing) of
             None \<Rightarrow> (Inl Invalid_credentials, st)
           | Some user \<Rightarrow> (case assertActive user of Inl e \<Rightarrow> (Inl e, st) | Inr _ \<Rightarrow> (Inr (account_issue d su user), st)))
      | None \<Rightarrow>
          (case (if str_truthy (si_email idn) then findByEmail (ac_users st) (to_lower (the (si_email idn))) else None) of
             Some user \<Rightarrow>
               (case assertActive user of
                  Inl e \<Rightarrow> (Inl e, st)
                | Inr _ \<Rightarrow> link_identity d su provider idn user st)
           | None \<Rightarrow>
               (case user_create \<lparr>lu_id = su_uuids su 0,
                       lu_email = to_lower (nullish (si_email idn) (provider @ '':'' @ si_subject idn)),
                       lu_displayName = si_name idn, lu_passwordHash = None, lu_status = ''active'',
                       lu_createdAt = su_nowIso su, lu_updatedAt = su_nowIso su\<rparr> (ac_users st) of
                  Inl e \<Rightarrow> (Inl (Repository_error e), st)
                | Inr (user, users) \<Rightarrow>
                    link_identity d su provider idn user
                      (default_grant (su_uuids su 1) (lu_id user) (su_nowIso su) (st\<lparr>ac_users := users\<rparr>)))))"

definition signupLocal ::
  "AccountServiceDeps \<Rightarrow> surroundings \<Rightarrow> string \<Rightarrow> string \<Rightarrow> string option \<Rightarrow> account_state \<Rightarrow>
   (account_error + AuthOutcome) \<times> account_state"
where
  "signupLocal d su email0 password displayName st =
     (if as_signupMode (ac_settings st) = Admin_only then (Inl Signup_disabled, st)
      else let email = to_lower (trim email0)
      in if findByEmail (ac_users st) email \<noteq> None then (Inl Email_in_use, st)
      else (case password_hash (ad_scrypt d) (ad_params d) (su_salt su) password of
              Inl e \<Rightarrow> (Inl e, st)
            | Inr h \<Rightarrow>
                (case user_create \<lparr>lu_id = su_uuids su 0, lu_email = email, lu_displayName = displayName,
                        lu_passwordHash = Some h, lu_status = ''active'', lu_createdAt = su_nowIso su,
                        lu_updatedAt = su_nowIso su\<rparr> (ac_users st) of
                   Inl e \<Rightarrow> (Inl (Repository_error e), st)
                 | Inr (user, users) \<Rightarrow>
                     (Inr (account_issue d su user),
                      default_grant (su_uuids su 1) (lu_id user) (su_nowIso su) (st\<lparr>ac_users := users\<rparr>)))))"

section \<open>Pending states of single sign-on\<close>

record SsoPendingState =
  ps_slug :: string
  ps_nonce :: string
  ps_redirectUri :: string
  ps_at :: int

type_synonym sso_states = "(string, SsoPendingState \<times> int) jsmap"

definition sso_set :: "int \<Rightarrow> string \<Rightarrow> SsoPendingState \<Rightarrow> int \<Rightarrow> sso_states \<Rightarrow> sso_states" where
  "sso_set now token state ttlMs states = AList.update token (state, now + ttlMs) states"

definition sso_get :: "int \<Rightarrow> string \<Rightarrow> sso_states \<Rightarrow> SsoPendingState option \<times> sso_states" where
  "sso_get now token states =
     (case map_of states token of
        None \<Rightarrow> (None, states)
      | Some (state, expiresAt) \<Rightarrow>
          if expiresAt < now then (None, AList.delete token states) else (Some state, states))"

definition sso_delete :: "string \<Rightarrow> sso_states \<Rightarrow> sso_states" where
  "sso_delete token states = AList.delete token states"

section \<open>Webhook tokens\<close>

record WebhookTokenRecord =
  wh_id :: string
  wh_prefix :: string
  wh_hash :: string
  wh_enabled :: bool
  wh_revokedAt :: "string option"

definition webhook_issue :: "(string \<Rightarrow> bytes) \<Rightarrow> bytes \<Rightarrow> bytes \<Rightarrow> string \<Rightarrow> string \<times> string \<times> string" where
  "webhook_issue sha256 rprefix rsecret i =
     (let prefix = to_hex rprefix; plaintext = ''wht_'' @ prefix @ ''_'' @ to_hex rsecret
      in (plaintext, prefix, to_hex (sha256 plaintext)))"

datatype webhook_error = Malformed_webhook_token | Unknown_webhook_token | Revoked_webhook_token
  | Disabled_webhook_token | Webhook_signature_mismatch

definition webhook_verify ::
  "(string \<Rightarrow> bytes) \<Rightarrow> string \<Rightarrow> (string \<Rightarrow> WebhookTokenRecord option) \<Rightarrow> webhook_error + WebhookTokenRecord"
where
  "webhook_verify sha256 rawToken find_by_prefix =
     (let parts = split_on (CHR ''_'') rawToken
      in if length parts \<noteq> 3 \<or> parts ! 0 \<noteq> ''wht'' \<or> parts ! 1 = [] \<or> parts ! 2 = [] then Inl Malformed_webhook_token
         else (case find_by_prefix (parts ! 1) of
                 None \<Rightarrow> Inl Unknown_webhook_token
               | Some r \<Rightarrow>
                   if str_truthy (wh_revokedAt r) then Inl Revoked_webhook_token
                   else if \<not> wh_enabled r then Inl Disabled_webhook_token
                   else if from_hex (to_hex (sha256 rawToken)) \<noteq> from_hex (wh_hash r) then Inl Webhook_signature_mismatch
                   else Inr r))"

section \<open>Passwords round trip\<close>

lemma split_on_js_join:
  "ws \<noteq> [] \<Longrightarrow> \<forall>w \<in> set ws. d \<notin> set w \<Longrightarrow> split_on d (js_join [d] ws) = ws"
  by (induction ws rule: induct_list012) (simp_all add: split_on_no_sep split_on_append)

lemma digits_no: "list_all is_digit s \<Longrightarrow> \<not> is_digit c \<Longrightarrow> c \<notin> set s"
  by (auto simp: list_all_iff)

lemma not_digits [simp]: "\<not> is_digit (CHR ''.'')" "\<not> is_digit (CHR ''e'')" "\<not> is_digit (CHR ''E'')" "\<not> is_digit (CHR ''$'')"
  "\<not> is_digit (CHR ''-'')" "\<not> is_digit (CHR ''+'')" "\<not> is_digit (CHR ''x'')" "\<not> is_digit (CHR ''o'')" "\<not> is_digit (CHR ''b'')"
  by code_simp+

lemma digits_trim: "list_all is_digit s \<Longrightarrow> trim s = s"
  by (rule trim_id) (cases s rule: rev_cases; auto simp: list_all_iff is_digit_not_ws hd_append)

lemma unsigned_int_digits: "all_digits s \<Longrightarrow> unsigned_int s = Some (int (str_nat s))"
proof -
  assume s: "all_digits s"
  then have "CHR ''E'' \<notin> set s" by (auto simp: all_digits_def dest: digits_no [where c = "CHR ''E''"])
  then have "map (\<lambda>c. if c = CHR ''E'' then CHR ''e'' else c) s = s" by (auto intro: map_idI)
  moreover have "split_on (CHR ''e'') s = [s]" "split_on (CHR ''.'') s = [s]"
    using s by (auto simp: all_digits_def intro!: split_on_no_sep dest: digits_no [where c = "CHR ''e''"] digits_no [where c = "CHR ''.''"])
  ultimately show ?thesis using s by (simp add: unsigned_int_def decimal_val_def scaled_int_def)
qed

lemma lower_digit: "is_digit c \<Longrightarrow> lower_char c = c"
  by (auto simp: lower_char_def is_digit_def Let_def)

lemma Number_nat_str: "Number_isInteger (nat_str n) = Some (int n)"
proof -
  let ?s = "nat_str n"
  have d: "list_all is_digit ?s" "all_digits ?s" by (simp_all add: all_digits_def)
  then obtain c r where cr: "?s = c # r" "is_digit c" by (cases ?s) auto
  have p: "to_lower (take 2 ?s) = take 2 ?s"
    using d(1) by (auto simp: to_lower_def list_all_iff intro!: map_idI lower_digit dest: in_set_takeD)
  have "take 2 ?s \<noteq> ''0x''" "take 2 ?s \<noteq> ''0o''" "take 2 ?s \<noteq> ''0b''"
    using d(1) by (auto dest!: arg_cong [where f = set] in_set_takeD simp: list_all_iff)
      (metis in_set_takeD insertI1 insertI2 not_digits(7-9) empty_iff)+
  moreover have "signed ?s = (False, ?s)" using cr by (auto simp: signed_def)
  ultimately show ?thesis
    by (simp add: Number_isInteger_def digits_trim [OF d(1)] p Let_def unsigned_int_digits [OF d(2)])
qed

lemma b64_no_dollar: "CHR ''$'' \<notin> set (to_base64 bs)"
proof -
  have d: "b64_digit n k \<noteq> CHR ''$''" "CHR ''$'' \<noteq> b64_digit n k" for n k
  proof -
    have "list_all (\<lambda>n. b64_char n \<noteq> CHR ''$'') [0..<64]" by code_simp
    then have "b64_char (n div k mod 64) \<noteq> CHR ''$''" by (simp add: list_all_iff)
    then show "b64_digit n k \<noteq> CHR ''$''" "CHR ''$'' \<noteq> b64_digit n k" by (simp_all add: b64_digit_def)
  qed
  show ?thesis by (induction bs rule: to_base64.induct) (simp_all add: Let_def d)
qed

text \<open>The parameters of a deployment are not negative, and scrypt derives as many bytes as it is asked for.\<close>

definition scrypt_ok :: "scrypt \<Rightarrow> ScryptParams \<Rightarrow> bool" where
  "scrypt_ok scrypt ps \<longleftrightarrow> 0 \<le> sp_N ps \<and> 0 \<le> sp_r ps \<and> 0 \<le> sp_p ps \<and>
     (\<forall>password salt derived. scrypt password salt ps = Some derived \<longrightarrow> length derived = sp_keyLen ps)"

lemma split_stored:
  assumes "scrypt_ok scrypt ps"
  shows "split_on (CHR ''$'') (stored_password ps salt derived) =
    [''scrypt'', nat_str (nat (sp_N ps)), nat_str (nat (sp_r ps)), nat_str (nat (sp_p ps)), to_base64 salt, to_base64 derived]"
proof -
  have n: "CHR ''$'' \<notin> set (nat_str n)" for n by (intro digits_no) simp_all
  show ?thesis unfolding stored_password_def using assms
    by (subst split_on_js_join) (auto simp: n b64_no_dollar int_str_def scrypt_ok_def)
qed

lemma stored_nonempty [simp]: "stored_password ps salt derived \<noteq> []"
  by (simp add: stored_password_def)

lemma password_verify_stored:
  assumes "scrypt_ok scrypt ps" "length derived = sp_keyLen ps"
  shows "password_verify scrypt password (Some (stored_password ps salt derived)) \<longleftrightarrow> scrypt password salt ps = Some derived"
proof -
  have eta: "\<lparr>sp_N = sp_N ps, sp_r = sp_r ps, sp_p = sp_p ps, sp_keyLen = sp_keyLen ps\<rparr> = ps" by (cases ps) simp
  from assms show ?thesis
    by (auto simp: password_verify_def split_stored [OF assms(1)] Number_nat_str from_base64_to_base64 scrypt_ok_def eta Let_def
        split: option.splits)
qed

lemma password_hash_verify:
  assumes "scrypt_ok scrypt ps" "password_hash scrypt ps salt password = Inr stored"
  shows "password_verify scrypt password' (Some stored) \<longleftrightarrow> scrypt password' salt ps = scrypt password salt ps"
proof -
  from assms(2) obtain derived where d: "scrypt password salt ps = Some derived" "stored = stored_password ps salt derived"
    by (auto simp: password_hash_def split: if_splits option.splits)
  with assms(1) have "length derived = sp_keyLen ps" by (auto simp: scrypt_ok_def)
  from password_verify_stored [OF assms(1) this] d show ?thesis by simp
qed

section \<open>What the account service changes\<close>

definition same_user :: "string \<Rightarrow> account_state \<Rightarrow> account_state \<Rightarrow> bool" where
  "same_user i st st' \<longleftrightarrow> map_of (ac_users st') i = map_of (ac_users st) i \<and>
     rbac_listGrantsForUser (ac_rbac st') i = rbac_listGrantsForUser (ac_rbac st) i"

lemma same_user_refl [simp]: "same_user i st st"
  by (simp add: same_user_def)

lemma addGrant_other:
  "rg_userId row \<noteq> i \<Longrightarrow> rbac_listGrantsForUser (snd (addGrant row rb)) i = rbac_listGrantsForUser rb i"
  by (simp add: addGrant_def rbac_listGrantsForUser_def split: option.split)

lemma default_grant_other:
  "u \<noteq> i \<Longrightarrow> rbac_listGrantsForUser (ac_rbac (default_grant g u now st)) i = rbac_listGrantsForUser (ac_rbac st) i"
  by (simp add: default_grant_def addGrant_other)

lemma default_grant_fields [simp]:
  "ac_users (default_grant g u now st) = ac_users st" "ac_identities (default_grant g u now st) = ac_identities st"
  "ac_settings (default_grant g u now st) = ac_settings st"
  by (simp_all add: default_grant_def)

lemma addGrant_new:
  "rbac_listGrantsForUser rb u = [] \<Longrightarrow> rg_userId row = u \<Longrightarrow> rbac_listGrantsForUser (snd (addGrant row rb)) u = [row]"
  by (auto simp: addGrant_def rbac_listGrantsForUser_def filter_empty_conv find_None_iff split: option.split dest: find_SomeD)

lemma default_grant_new:
  "rbac_listGrantsForUser (ac_rbac st) u = [] \<Longrightarrow>
   rbac_listGrantsForUser (ac_rbac (default_grant g u now st)) u =
     (if as_signupMode (ac_settings st) = Open_default_role \<and> str_truthy (as_defaultRole (ac_settings st))
      then [\<lparr>rg_id = g, rg_userId = u, rg_role = the (as_defaultRole (ac_settings st)), rg_scope = ''*'', rg_createdAt = now\<rparr>]
      else [])"
  by (simp add: default_grant_def addGrant_new)

lemma user_create_ok:
  "user_create u users = Inr (v, users') \<Longrightarrow> v = u \<and> map_of users (lu_id u) = None \<and> users' = users @ [(lu_id u, u)]"
  by (auto simp: user_create_def crud_create_def update_new split: if_splits)

lemma account_issue_simps [simp]: "oc_user (account_issue d su user) = user"
  "oc_principal (account_issue d su user) =
     \<lparr>au_id = lu_id user, au_type = PK_user, au_tenantId = None, au_environment = None, au_roles = []\<rparr>"
  "oc_token (account_issue d su user) = session_sign (ad_sessions d) (su_nowMs su) (oc_principal (account_issue d su user)) (ad_ttl d)"
  by (simp_all add: account_issue_def Let_def)

lemma link_identity_effect:
  assumes "link_identity d su provider idn user st = (r, st')"
  shows "ac_users st' = ac_users st \<and> ac_rbac st' = ac_rbac st \<and> ac_settings st' = ac_settings st \<and>
    (\<forall>out. r = Inr out \<longrightarrow> oc_user out = user \<and>
       (\<exists>row. findBySubject (ac_identities st') provider (si_subject idn) = Some row \<and> id_userId row = lu_id user))"
proof (cases "findBySubject (ac_identities st) provider (si_subject idn)")
  case None
  with assms show ?thesis
    by (auto simp: link_identity_def identity_create_def findBySubject_def find_append list_ex_iff split: if_splits)
next
  case (Some x)
  then have "x \<in> set (ac_identities st) \<and> id_provider x = provider \<and> id_subject x = si_subject idn"
    by (auto simp: findBySubject_def find_Some_iff)
  with assms show ?thesis by (auto simp: link_identity_def identity_create_def list_ex_iff split: if_splits)
qed

section \<open>Histories of accounts\<close>

inductive account_reach :: "AccountServiceDeps \<Rightarrow> account_state \<Rightarrow> bool" for d where
  ar_init: "account_reach d \<lparr>ac_users = [], ac_identities = [], ac_rbac = \<lparr>rb_rolePerms = [], rb_grants = []\<rparr>, ac_settings = initial_settings\<rparr>"
| ar_sso: "account_reach d st \<Longrightarrow> loginSso d su provider idn st = (r, st') \<Longrightarrow> account_reach d st'"
| ar_signup: "account_reach d st \<Longrightarrow> signupLocal d su email password name st = (r, st') \<Longrightarrow> account_reach d st'"
| ar_create: "account_reach d st \<Longrightarrow> user_create u (ac_users st) = Inr (v, users) \<Longrightarrow> account_reach d (st\<lparr>ac_users := users\<rparr>)"
| ar_update: "account_reach d st \<Longrightarrow> user_update i patch (ac_users st) = Inr (v, users) \<Longrightarrow> account_reach d (st\<lparr>ac_users := users\<rparr>)"
| ar_delete: "account_reach d st \<Longrightarrow> account_reach d (st\<lparr>ac_users := crud_delete i (ac_users st)\<rparr>)"
| ar_unlink: "account_reach d st \<Longrightarrow> account_reach d (st\<lparr>ac_identities := identity_delete i (ac_identities st)\<rparr>)"
| ar_grants: "account_reach d st \<Longrightarrow> account_reach d (st\<lparr>ac_rbac := rb\<rparr>)"
| ar_settings: "account_reach d st \<Longrightarrow> account_reach d (st\<lparr>ac_settings := settings_set now row\<rparr>)"

text \<open>Every user is stored once, under its own identifier.\<close>

definition users_ok :: "LocalUser rows \<Rightarrow> bool" where
  "users_ok users \<longleftrightarrow> distinct (map fst users) \<and> (\<forall>(k, u) \<in> set users. k = lu_id u)"

lemma users_ok_create: "users_ok users \<Longrightarrow> user_create u users = Inr (v, users') \<Longrightarrow> users_ok users'"
  using user_create_ok [of u users v users'] by (auto simp: users_ok_def map_of_eq_None_iff)

lemma users_ok_update: "users_ok users \<Longrightarrow> user_update i patch users = Inr (v, users') \<Longrightarrow> users_ok users'"
  by (auto simp: users_ok_def user_update_def crud_update_def Let_def distinct_update split: option.splits dest: update_set)

lemma users_ok_delete: "users_ok users \<Longrightarrow> users_ok (crud_delete i users)"
  by (auto simp: users_ok_def crud_delete_def AList.delete_eq distinct_map_filter)

lemma users_ok_member: "users_ok users \<Longrightarrow> u \<in> set (crud_list users) \<Longrightarrow> map_of users (lu_id u) = Some u"
  by (auto simp: users_ok_def crud_list_def)

lemma loginSso_users:
  assumes "loginSso d su provider idn st = (r, st')"
  shows "ac_users st' = ac_users st \<or> (\<exists>u v. user_create u (ac_users st) = Inr (v, ac_users st'))"
  using assms link_identity_effect [of d su provider idn]
  by (auto simp: loginSso_def split: option.splits sum.splits if_splits; metis default_grant_fields(1) account_state.select_convs(1))

lemma signupLocal_users:
  assumes "signupLocal d su email password name st = (r, st')"
  shows "ac_users st' = ac_users st \<or> (\<exists>u v. user_create u (ac_users st) = Inr (v, ac_users st'))"
  using assms by (auto simp: signupLocal_def Let_def split: option.splits sum.splits if_splits)

lemma account_reach_users: "account_reach d st \<Longrightarrow> users_ok (ac_users st)"
proof (induction rule: account_reach.induct)
  case (ar_sso st su provider idn r st')
  then show ?case using loginSso_users users_ok_create by metis
next
  case (ar_signup st su email password name r st')
  then show ?case using signupLocal_users users_ok_create by metis
qed (auto simp: users_ok_def [of "[]"] intro: users_ok_create users_ok_update users_ok_delete)

text \<open>A session was given out for a stored, active account, and names nobody else.\<close>

definition sound_session :: "account_state \<Rightarrow> AuthOutcome \<Rightarrow> bool" where
  "sound_session st out \<longleftrightarrow> map_of (ac_users st) (lu_id (oc_user out)) = Some (oc_user out) \<and>
     lu_status (oc_user out) = ''active'' \<and>
     oc_principal out = \<lparr>au_id = lu_id (oc_user out), au_type = PK_user, au_tenantId = None, au_environment = None, au_roles = []\<rparr>"

lemma assertActive_iff [simp]: "assertActive u = Inr x \<longleftrightarrow> lu_status u = ''active''" "assertActive u = Inl e \<longleftrightarrow> lu_status u \<noteq> ''active'' \<and> e = Account_disabled"
  by (auto simp: assertActive_def)

lemma findByEmail_Some: "findByEmail users e = Some u \<Longrightarrow> u \<in> set (crud_list users) \<and> lu_email u = e"
  by (auto simp: findByEmail_def find_Some_iff)

lemma sound_issue:
  "users_ok (ac_users st) \<Longrightarrow> map_of (ac_users st) (lu_id u) = Some u \<Longrightarrow> lu_status u = ''active'' \<Longrightarrow>
   sound_session st (account_issue d su u)"
  by (simp add: sound_session_def)

lemma loginLocal_sound:
  assumes "users_ok (ac_users st)" "loginLocal d su email password st = Inr out"
  shows "sound_session st out \<and> lu_email (oc_user out) = to_lower (trim email) \<and>
    password_verify (ad_scrypt d) password (lu_passwordHash (oc_user out))"
proof -
  from assms(2) obtain u where "findByEmail (ac_users st) (to_lower (trim email)) = Some u"
    "password_verify (ad_scrypt d) password (lu_passwordHash u)" "lu_status u = ''active''" "out = account_issue d su u"
    by (auto simp: loginLocal_def Let_def split: option.splits if_splits sum.splits)
  with findByEmail_Some [of "ac_users st"] users_ok_member [OF assms(1)] sound_issue [OF assms(1)]
  show ?thesis by (metis account_issue_simps(1))
qed

lemma link_identity_sound:
  assumes "link_identity d su provider idn user st = (Inr out, st')" "users_ok (ac_users st)"
    "map_of (ac_users st) (lu_id user) = Some user" "lu_status user = ''active''"
  shows "sound_session st' out \<and>
    (\<exists>row. findBySubject (ac_identities st') provider (si_subject idn) = Some row \<and> id_userId row = lu_id (oc_user out))"
proof -
  from assms(1) have "out = account_issue d su user"
    by (auto simp: link_identity_def split: sum.splits)
  with link_identity_effect [OF assms(1)] assms(2-4) show ?thesis by (auto intro: sound_issue)
qed

lemma loginSso_sound:
  assumes ok: "users_ok (ac_users st)" and res: "loginSso d su provider idn st = (Inr out, st')"
  shows "sound_session st' out \<and>
    (\<exists>row. findBySubject (ac_identities st') provider (si_subject idn) = Some row \<and> id_userId row = lu_id (oc_user out))"
proof (cases "findBySubject (ac_identities st) provider (si_subject idn)")
  case (Some existing)
  with res obtain u where u: "crud_get (ac_users st) (id_userId existing) = Some u" "lu_status u = ''active''"
      "out = account_issue d su u" "st' = st"
    by (auto simp: loginSso_def split: option.splits sum.splits)
  then have "(id_userId existing, u) \<in> set (ac_users st)" by (simp add: crud_get_def map_of_SomeD)
  with ok have "id_userId existing = lu_id u" by (auto simp: users_ok_def)
  with u ok Some show ?thesis by (auto simp: crud_get_def intro: sound_issue)
next
  case None
  show ?thesis
  proof (cases "if str_truthy (si_email idn) then findByEmail (ac_users st) (to_lower (the (si_email idn))) else None")
    case (Some u)
    then have "u \<in> set (crud_list (ac_users st))" using findByEmail_Some by (auto split: if_splits)
    moreover have "lu_status u = ''active''" "link_identity d su provider idn u st = (Inr out, st')"
      using res by (auto simp: loginSso_def None Some split: sum.splits)
    ultimately show ?thesis using link_identity_sound users_ok_member [OF ok] ok by metis
  next
    case None2: None
    let ?new = "\<lparr>lu_id = su_uuids su 0, lu_email = to_lower (nullish (si_email idn) (provider @ '':'' @ si_subject idn)),
        lu_displayName = si_name idn, lu_passwordHash = None, lu_status = ''active'',
        lu_createdAt = su_nowIso su, lu_updatedAt = su_nowIso su\<rparr>"
    obtain v users where c: "user_create ?new (ac_users st) = Inr (v, users)"
      and l: "link_identity d su provider idn v (default_grant (su_uuids su 1) (lu_id v) (su_nowIso su) (st\<lparr>ac_users := users\<rparr>)) = (Inr out, st')"
      using res unfolding loginSso_def None None2 by (auto split: sum.splits)
    from user_create_ok [OF c] have v: "v = ?new" "users = ac_users st @ [(lu_id v, v)]" "map_of (ac_users st) (lu_id v) = None" by auto
    show ?thesis
      by (rule link_identity_sound [OF l]) (use users_ok_create [OF ok c] v in \<open>simp_all add: map_add_def\<close>)
  qed
qed

lemma signupLocal_sound:
  assumes ok: "users_ok (ac_users st)" and res: "signupLocal d su email password name st = (Inr out, st')"
  shows "sound_session st' out \<and> as_signupMode (ac_settings st) \<noteq> Admin_only \<and>
    map_of (ac_users st) (lu_id (oc_user out)) = None \<and> ac_users st' = ac_users st @ [(lu_id (oc_user out), oc_user out)] \<and>
    lu_email (oc_user out) = to_lower (trim email) \<and> findByEmail (ac_users st) (to_lower (trim email)) = None \<and>
    (\<exists>stored. password_hash (ad_scrypt d) (ad_params d) (su_salt su) password = Inr stored \<and> lu_passwordHash (oc_user out) = Some stored)"
proof -
  from res obtain h u users where h: "password_hash (ad_scrypt d) (ad_params d) (su_salt su) password = Inr h"
    and c: "user_create \<lparr>lu_id = su_uuids su 0, lu_email = to_lower (trim email), lu_displayName = name,
        lu_passwordHash = Some h, lu_status = ''active'', lu_createdAt = su_nowIso su, lu_updatedAt = su_nowIso su\<rparr> (ac_users st) = Inr (u, users)"
    and r: "out = account_issue d su u" "st' = default_grant (su_uuids su 1) (lu_id u) (su_nowIso su) (st\<lparr>ac_users := users\<rparr>)"
      "as_signupMode (ac_settings st) \<noteq> Admin_only" "findByEmail (ac_users st) (to_lower (trim email)) = None"
    by (auto simp: signupLocal_def Let_def split: if_splits sum.splits)
  from user_create_ok [OF c] have u: "lu_email u = to_lower (trim email)" "lu_passwordHash u = Some h" "lu_status u = ''active''"
    "map_of (ac_users st) (lu_id u) = None" "users = ac_users st @ [(lu_id u, u)]" by auto
  have "users_ok users" using users_ok_create [OF ok c] .
  with r u h show ?thesis by (auto intro!: sound_issue simp: map_add_def)
qed

section \<open>Properties\<close>

definition some_deps :: AccountServiceDeps where
  "some_deps = \<lparr>ad_sessions = some_service, ad_scrypt = (\<lambda>p s ps. Some (take (sp_keyLen ps) (utf8 p @ s @ [0, 0, 0, 0, 0, 0, 0, 0]))),
     ad_params = \<lparr>sp_N = 2, sp_r = 1, sp_p = 1, sp_keyLen = 8\<rparr>, ad_ttl = 60\<rparr>"

definition some_surroundings :: surroundings where
  "some_surroundings = \<lparr>su_nowMs = 0, su_nowIso = ''now'', su_salt = [7], su_uuids = nat_str,
     su_bytes = (\<lambda>n. [of_nat n])\<rparr>"

definition open_accounts :: account_state where
  "open_accounts = \<lparr>ac_users = [], ac_identities = [], ac_rbac = \<lparr>rb_rolePerms = [], rb_grants = []\<rparr>,
     ac_settings = settings_set ''t'' \<lparr>as_signupMode = Open_default_role, as_defaultRole = Some ''viewer'', as_updatedAt = ''t''\<rparr>\<rparr>"

lemma open_accounts_reach: "account_reach some_deps open_accounts"
  using ar_settings [OF ar_init, of some_deps "''t''" "\<lparr>as_signupMode = Open_default_role, as_defaultRole = Some ''viewer'', as_updatedAt = ''t''\<rparr>"]
  by (simp add: open_accounts_def)

text \<open>C30: In every history of accounts a session is given out only for an account that is stored and active, and its token
  names that account and carries no role: by password only when the password verifies against the stored hash, by single
  sign-on only when the identity is linked to the account, by signup only for a new account while signup is open.\<close>

theorem sessions_sound:
  assumes "account_reach d st"
  shows "(\<forall>su email password out. loginLocal d su email password st = Inr out \<longrightarrow>
        sound_session st out \<and> lu_email (oc_user out) = to_lower (trim email) \<and>
        password_verify (ad_scrypt d) password (lu_passwordHash (oc_user out))) \<and>
    (\<forall>su provider idn out st'. loginSso d su provider idn st = (Inr out, st') \<longrightarrow>
        sound_session st' out \<and>
        (\<exists>row. findBySubject (ac_identities st') provider (si_subject idn) = Some row \<and> id_userId row = lu_id (oc_user out))) \<and>
    (\<forall>su email password name out st'. signupLocal d su email password name st = (Inr out, st') \<longrightarrow>
        sound_session st' out \<and> as_signupMode (ac_settings st) \<noteq> Admin_only \<and> map_of (ac_users st) (lu_id (oc_user out)) = None)"
  by (intro conjI allI impI)
    (blast dest: loginLocal_sound [OF account_reach_users [OF assms]] loginSso_sound [OF account_reach_users [OF assms]]
      signupLocal_sound [OF account_reach_users [OF assms]])+

theorem sessions_sound_witness:
  "\<exists>out st'. signupLocal some_deps some_surroundings ''A@x '' ''password'' None open_accounts = (Inr out, st') \<and> sound_session st' out"
proof -
  obtain r st' where s: "signupLocal some_deps some_surroundings ''A@x '' ''password'' None open_accounts = (r, st')"
    by fastforce
  have "as_signupMode (ac_settings open_accounts) \<noteq> Admin_only" "ac_users open_accounts = []"
    by (simp_all add: open_accounts_def settings_set_def)
  then have "\<exists>out. r = Inr out"
    using s by (auto simp: signupLocal_def Let_def findByEmail_def crud_list_def password_hash_def user_create_def crud_create_def
        some_deps_def split: if_splits)
  with s sessions_sound [OF open_accounts_reach] show ?thesis by blast
qed

text \<open>A login or signup changes no account, or it creates one, with at most the default grant.\<close>

definition created_only :: "surroundings \<Rightarrow> account_state \<Rightarrow> account_state \<Rightarrow> bool" where
  "created_only su st st' \<longleftrightarrow> ac_settings st' = ac_settings st \<and>
     ((ac_users st' = ac_users st \<and> ac_rbac st' = ac_rbac st) \<or>
      (\<exists>u v now. user_create u (ac_users st) = Inr (v, ac_users st') \<and> lu_id u = su_uuids su 0 \<and>
         ac_rbac st' = ac_rbac (default_grant (su_uuids su 1) (lu_id v) now (st\<lparr>ac_users := ac_users st'\<rparr>))))"

lemma created_onlyI:
  "user_create u (ac_users st) = Inr (v, users) \<Longrightarrow> lu_id u = su_uuids su 0 \<Longrightarrow> ac_users st' = users \<Longrightarrow>
   ac_settings st' = ac_settings st \<Longrightarrow>
   ac_rbac st' = ac_rbac (default_grant (su_uuids su 1) (lu_id v) now (st\<lparr>ac_users := users\<rparr>)) \<Longrightarrow> created_only su st st'"
  unfolding created_only_def by blast

lemma link_created:
  assumes "link_identity d su provider idn v (default_grant (su_uuids su 1) (lu_id v) now (st\<lparr>ac_users := users\<rparr>)) = (r, st')"
    "user_create u (ac_users st) = Inr (v, users)" "lu_id u = su_uuids su 0"
  shows "created_only su st st'"
  using link_identity_effect [OF assms(1)] by (intro created_onlyI [OF assms(2,3)]) simp_all

lemma link_kept: "link_identity d su provider idn v st = (r, st') \<Longrightarrow> created_only su st st'"
  using link_identity_effect [of d su provider idn v st r st'] by (simp add: created_only_def)

lemma created_only_refl [simp]: "created_only su st st"
  by (simp add: created_only_def)

lemma loginSso_created:
  assumes "loginSso d su provider idn st = (r, st')"
  shows "created_only su st st'"
proof (cases "findBySubject (ac_identities st) provider (si_subject idn)")
  case (Some x)
  with assms show ?thesis by (auto simp: loginSso_def split: option.splits sum.splits)
next
  case None
  show ?thesis
  proof (cases "if str_truthy (si_email idn) then findByEmail (ac_users st) (to_lower (the (si_email idn))) else None")
    case (Some u)
    with assms None show ?thesis by (auto simp: loginSso_def intro: link_kept split: sum.splits)
  next
    case None2: None
    from assms show ?thesis unfolding loginSso_def None None2
      by (auto intro: link_created split: sum.splits)
  qed
qed

lemma signupLocal_created:
  "signupLocal d su email password name st = (r, st') \<Longrightarrow> created_only su st st'"
  by (auto simp: signupLocal_def Let_def intro: created_onlyI split: if_splits sum.splits)

lemma created_only_cases:
  assumes "created_only su st st'"
  obtains (kept) "ac_users st' = ac_users st" "ac_rbac st' = ac_rbac st"
    | (new) u now where "ac_users st' = ac_users st @ [(su_uuids su 0, u)]" "map_of (ac_users st) (su_uuids su 0) = None"
        "ac_rbac st' = ac_rbac (default_grant (su_uuids su 1) (su_uuids su 0) now (st\<lparr>ac_users := ac_users st'\<rparr>))"
proof (cases "ac_users st' = ac_users st \<and> ac_rbac st' = ac_rbac st")
  case False
  with assms obtain u v now where c: "user_create u (ac_users st) = Inr (v, ac_users st')" "lu_id u = su_uuids su 0"
      "ac_rbac st' = ac_rbac (default_grant (su_uuids su 1) (lu_id v) now (st\<lparr>ac_users := ac_users st'\<rparr>))"
    unfolding created_only_def by blast
  from user_create_ok [OF c(1)] c(2,3) show thesis by (intro new [of u now]) auto
qed (use kept in blast)

lemma created_only_same_user:
  assumes "created_only su st st'" "map_of (ac_users st) i \<noteq> None \<or> i \<noteq> su_uuids su 0"
  shows "same_user i st st'"
  using assms(1)
proof (cases rule: created_only_cases)
  case new
  with assms(2) have "su_uuids su 0 \<noteq> i" by auto
  then show ?thesis by (simp add: same_user_def new(3) default_grant_other) (simp add: new(1) map_add_def split: option.split)
qed (simp add: same_user_def)

lemma created_only_grants:
  assumes "created_only su st st'" "rbac_listGrantsForUser (ac_rbac st) (su_uuids su 0) = []"
    "g \<in> set (rbac_listGrantsForUser (ac_rbac st') (su_uuids su 0))"
  shows "rg_role g = the (as_defaultRole (ac_settings st)) \<and> as_signupMode (ac_settings st) = Open_default_role"
  using assms(1)
proof (cases rule: created_only_cases)
  case new
  with assms(2,3) show ?thesis
    using default_grant_new [of "st\<lparr>ac_users := ac_users st'\<rparr>" "su_uuids su 0"] by (auto split: if_splits)
qed (use assms in auto)

text \<open>Logging in and signing up never change another account or its grants, and a new account is granted nothing but
  the default role, and that only while signup is open with a default role.\<close>

theorem accounts_not_escalated:
  assumes "loginSso d su provider idn st = (r, st') \<or> signupLocal d su email password name st = (r, st')"
    and fresh: "rbac_listGrantsForUser (ac_rbac st) (su_uuids su 0) = []"
  shows "(\<forall>i. map_of (ac_users st) i \<noteq> None \<or> i \<noteq> su_uuids su 0 \<longrightarrow> same_user i st st') \<and>
    ac_settings st' = ac_settings st \<and>
    (\<forall>g \<in> set (rbac_listGrantsForUser (ac_rbac st') (su_uuids su 0)).
        rg_role g = the (as_defaultRole (ac_settings st)) \<and> as_signupMode (ac_settings st) = Open_default_role)"
proof -
  from assms(1) have c: "created_only su st st'" using loginSso_created signupLocal_created by blast
  then have "ac_settings st' = ac_settings st" by (simp add: created_only_def)
  with created_only_same_user [OF c] created_only_grants [OF c fresh] show ?thesis by blast
qed

theorem accounts_not_escalated_witness:
  "\<exists>out st'. signupLocal some_deps some_surroundings ''A@x '' ''password'' None open_accounts = (Inr out, st') \<and>
     set (map rg_role (rbac_listGrantsForUser (ac_rbac st') ''0'')) \<subseteq> {''viewer''}"
proof -
  obtain r st' where s: "signupLocal some_deps some_surroundings ''A@x '' ''password'' None open_accounts = (r, st')"
    by fastforce
  have u: "su_uuids some_surroundings 0 = ''0''" by (simp add: some_surroundings_def) code_simp
  have fresh: "rbac_listGrantsForUser (ac_rbac open_accounts) (su_uuids some_surroundings 0) = []"
    by (simp add: open_accounts_def rbac_listGrantsForUser_def)
  have set: "as_defaultRole (ac_settings open_accounts) = Some ''viewer''" "as_signupMode (ac_settings open_accounts) \<noteq> Admin_only"
    "ac_users open_accounts = []"
    by (simp_all add: open_accounts_def settings_set_def)
  have "\<exists>out. r = Inr out"
    using s by (auto simp: signupLocal_def set Let_def findByEmail_def crud_list_def password_hash_def user_create_def crud_create_def
        some_deps_def split: if_splits)
  with s accounts_not_escalated [OF disjI2 [OF s] fresh] set(1) u show ?thesis by auto
qed

text \<open>Who signs up can log in: with the same address up to case and surrounding spaces, and the password or one that
  scrypt does not distinguish from it, the login returns the account that was created; any other password is refused.\<close>

theorem signup_then_login:
  assumes "account_reach d st" and "scrypt_ok (ad_scrypt d) (ad_params d)"
    and "signupLocal d su email password name st = (Inr out, st')"
    and "to_lower (trim email') = to_lower (trim email)"
  shows "loginLocal d su' email' password' st' =
    (if ad_scrypt d password' (su_salt su) (ad_params d) = ad_scrypt d password (su_salt su) (ad_params d)
     then Inr (account_issue d su' (oc_user out)) else Inl Invalid_credentials)"
proof -
  from signupLocal_sound [OF account_reach_users [OF assms(1)] assms(3)] obtain stored where
    users: "ac_users st' = ac_users st @ [(lu_id (oc_user out), oc_user out)]" "lu_email (oc_user out) = to_lower (trim email)"
      "findByEmail (ac_users st) (to_lower (trim email)) = None" and active: "lu_status (oc_user out) = ''active''"
    and stored: "password_hash (ad_scrypt d) (ad_params d) (su_salt su) password = Inr stored" "lu_passwordHash (oc_user out) = Some stored"
    by (auto simp: sound_session_def)
  from users have "findByEmail (ac_users st') (to_lower (trim email)) = Some (oc_user out)"
    by (simp add: findByEmail_def crud_list_def find_append)
  with active stored assms(4) show ?thesis
    by (simp add: loginLocal_def password_hash_verify [OF assms(2) stored(1)] assertActive_def)
qed

lemma some_scrypt_ok: "scrypt_ok (ad_scrypt some_deps) (ad_params some_deps)"
  by (auto simp: scrypt_ok_def some_deps_def)

theorem signup_then_login_witness:
  "\<exists>out st'. signupLocal some_deps some_surroundings ''A@x '' ''password'' None open_accounts = (Inr out, st') \<and>
     loginLocal some_deps some_surroundings '' a@X'' ''password'' st' = Inr (account_issue some_deps some_surroundings (oc_user out))"
proof -
  obtain r st' where s: "signupLocal some_deps some_surroundings ''A@x '' ''password'' None open_accounts = (r, st')"
    by fastforce
  have set: "as_signupMode (ac_settings open_accounts) \<noteq> Admin_only" "ac_users open_accounts = []"
    by (simp_all add: open_accounts_def settings_set_def)
  have "\<exists>out. r = Inr out"
    using s by (auto simp: signupLocal_def set Let_def findByEmail_def crud_list_def password_hash_def user_create_def crud_create_def
        some_deps_def split: if_splits)
  then obtain out where r: "r = Inr out" by blast
  have "to_lower (trim '' a@X'') = to_lower (trim ''A@x '')" by code_simp
  from signup_then_login [OF open_accounts_reach some_scrypt_ok s [unfolded r] this, of some_surroundings "''password''"] s r
  show ?thesis by simp
qed

text \<open>C31: A single sign-on identity that carries the address of an account is linked to that account and gets its session,
  whatever the provider is and although nothing says that the provider checked the address.\<close>

theorem sso_takes_over_by_email:
  assumes "findByEmail (ac_users st) (to_lower e) = Some u" and "lu_status u = ''active''" and "e \<noteq> []"
    and "findBySubject (ac_identities st) provider subject = None"
  shows "\<exists>st'. loginSso d su provider \<lparr>si_subject = subject, si_email = Some e, si_name = name\<rparr> st = (Inr (account_issue d su u), st') \<and>
    (\<exists>row. findBySubject (ac_identities st') provider subject = Some row \<and> id_userId row = lu_id u)"
proof -
  have "\<not> list_ex (\<lambda>r. id_provider r = provider \<and> id_subject r = subject) (ac_identities st)"
    using assms(4) by (auto simp: findBySubject_def find_None_iff list_ex_iff)
  then show ?thesis using assms
    by (simp add: assertActive_def loginSso_def link_identity_def identity_create_def findBySubject_def find_append)
qed

theorem sso_takes_over_by_email_witness:
  "\<exists>out st st'. account_reach some_deps st \<and>
     loginSso some_deps some_surroundings ''idp'' \<lparr>si_subject = ''mallory'', si_email = Some ''Root@x'', si_name = None\<rparr> st = (Inr out, st') \<and>
     lu_id (oc_user out) = ''root''"
proof -
  let ?u = "\<lparr>lu_id = ''root'', lu_email = ''root@x'', lu_displayName = None, lu_passwordHash = None, lu_status = ''active'',
      lu_createdAt = ''t'', lu_updatedAt = ''t''\<rparr>"
  let ?st = "open_accounts\<lparr>ac_users := [(''root'', ?u)]\<rparr>"
  have "user_create ?u (ac_users open_accounts) = Inr (?u, [(''root'', ?u)])"
    by (simp add: open_accounts_def user_create_def crud_create_def)
  then have reach: "account_reach some_deps ?st" by (rule ar_create [OF open_accounts_reach])
  have "to_lower ''Root@x'' = ''root@x''" by code_simp
  then have h: "findByEmail (ac_users ?st) (to_lower ''Root@x'') = Some ?u" "lu_status ?u = ''active''" "''Root@x'' \<noteq> []"
      "findBySubject (ac_identities ?st) ''idp'' ''mallory'' = None"
    by (simp_all add: findByEmail_def crud_list_def findBySubject_def open_accounts_def)
  from sso_takes_over_by_email [OF h, of some_deps some_surroundings None] reach show ?thesis
    by (metis account_issue_simps(1) LocalUser.select_convs(1))
qed

end
