(* ===== verification/Api_Core.thy ===== *)
theory Api_Core
  imports Complex_Main Accounts
begin

text \<open>
  The frame of the HTTP API (\<open>apps/api/src/app.ts\<close> and \<open>apps/api/src/app/\<close>): requests and
  responses, path matching, the token-bucket rate limiter, how a request is authenticated and
  given its decision closure, and how exceptions of a handler become responses.  Handlers are
  functions on an explicit state.  Human-readable messages in bodies are left out, and so are logs
  and audit entries.  The rate limiter computes with rational numbers in place of doubles.
\<close>

section \<open>Requests and responses\<close>

record AppRequest =
  rq_method :: string
  rq_path :: string
  rq_headers :: headers
  rq_query :: "(string, string) jsmap"
  rq_body :: json

record AppResponse =
  rsp_status :: nat
  rsp_body :: json
  rsp_headers :: "(string, string) jsmap"

definition JSON_HEADERS :: "(string, string) jsmap" where
  "JSON_HEADERS = [(''content-type'', ''application/json'')]"

definition ok_response :: "nat \<Rightarrow> json \<Rightarrow> AppResponse" where
  "ok_response status body = \<lparr>rsp_status = status, rsp_body = body, rsp_headers = JSON_HEADERS\<rparr>"

definition error_response :: "nat \<Rightarrow> string \<Rightarrow> (string \<times> json) list \<Rightarrow> AppResponse" where
  "error_response status code extra = \<lparr>rsp_status = status,
     rsp_body = JObj (obj_merge [(''error'', JStr code)] extra), rsp_headers = JSON_HEADERS\<rparr>"

definition no_content :: AppResponse where
  "no_content = \<lparr>rsp_status = 204, rsp_body = JUndef, rsp_headers = []\<rparr>"

definition clientIp :: "headers \<Rightarrow> string option" where
  "clientIp hs =
     (let xff = headerValue hs ''x-forwarded-for'';
          first = (if str_truthy xff then trim (hd (split_on (CHR '','') (the xff))) else [])
      in if first \<noteq> [] then Some first
         else (case map_option trim (headerValue hs ''x-real-ip'') of
                 Some ip \<Rightarrow> if ip \<noteq> [] then Some ip else None
               | None \<Rightarrow> None))"

fun isObject :: "json \<Rightarrow> bool" where
  "isObject (JObj kvs) = True"
| "isObject v = False"

definition isUuid :: "string \<Rightarrow> bool" where
  "isUuid s \<longleftrightarrow> length s = 36 \<and>
     list_all (\<lambda>i. if i \<in> {8, 13, 18, 23} then s ! i = CHR ''-'' else hex_val (s ! i) \<noteq> None) [0..<36]"

section \<open>Paths\<close>

definition compile :: "string \<Rightarrow> string list" where
  "compile pattern = filter (\<lambda>part. 0 < length part) (split_on (CHR ''/'') pattern)"

text \<open>The bytes a percent-encoded text stands for; \<open>None\<close> is a malformed escape.\<close>

fun percent_bytes :: "string \<Rightarrow> bytes option" where
  "percent_bytes [] = Some []"
| "percent_bytes (c # s) =
     (if c = CHR ''%''
      then (case s of
              h # l # r \<Rightarrow> (case (hex_val h, hex_val l) of
                  (Some a, Some b) \<Rightarrow> map_option (\<lambda>bs. of_nat (a * 16 + b) # bs) (percent_bytes r)
                | _ \<Rightarrow> None)
            | _ \<Rightarrow> None)
      else map_option (\<lambda>bs. utf8_char c @ bs) (percent_bytes s))"

definition decodeURIComponent :: "string \<Rightarrow> string option" where
  "decodeURIComponent s = Option.bind (percent_bytes s) from_utf8"

record Route =
  rt_method :: string
  rt_segments :: "string list"

text \<open>\<open>Inl ()\<close> is the exception of a malformed escape.\<close>

fun match_segments :: "string list \<Rightarrow> string list \<Rightarrow> (string, string) jsmap \<Rightarrow> unit + (string, string) jsmap option" where
  "match_segments (seg # segs) (p # ps) params =
     (if starts_with '':'' seg
      then (case decodeURIComponent p of
              None \<Rightarrow> Inl ()
            | Some v \<Rightarrow> match_segments segs ps (AList.update (drop 1 seg) v params))
      else if seg \<noteq> p then Inr None
      else match_segments segs ps params)"
| "match_segments segs ps params = Inr (Some params)"

definition matchRoute :: "Route \<Rightarrow> string \<Rightarrow> string list \<Rightarrow> unit + (string, string) jsmap option" where
  "matchRoute route mth pathSegments =
     (if rt_method route \<noteq> mth then Inr None
      else if length (rt_segments route) \<noteq> length pathSegments then Inr None
      else match_segments (rt_segments route) pathSegments [])"

text \<open>The first route that matches, with its position.\<close>

fun find_route :: "nat \<Rightarrow> Route list \<Rightarrow> string \<Rightarrow> string list \<Rightarrow> unit + (nat \<times> (string, string) jsmap) option" where
  "find_route i [] mth path = Inr None"
| "find_route i (r # rs) mth path =
     (case matchRoute r mth path of
        Inl e \<Rightarrow> Inl e
      | Inr (Some params) \<Rightarrow> Inr (Some (i, params))
      | Inr None \<Rightarrow> find_route (Suc i) rs mth path)"

fun path_exists :: "Route list \<Rightarrow> string list \<Rightarrow> unit + bool" where
  "path_exists [] path = Inr False"
| "path_exists (r # rs) path =
     (case matchRoute r (rt_method r) path of
        Inl e \<Rightarrow> Inl e
      | Inr (Some _) \<Rightarrow> Inr True
      | Inr None \<Rightarrow> path_exists rs path)"

definition isPublic :: "string \<Rightarrow> bool" where
  "isPublic path \<longleftrightarrow> path \<in> {''/healthz'', ''/readyz'', ''/api/auth/login'', ''/api/auth/signup'', ''/api/auth/providers'',
       ''/api/internal/connection-credentials/refresh''} \<or>
     starts_with ''/api/auth/sso/'' path \<or> starts_with ''/api/triggers/webhook/'' path"

section \<open>Rate limiting\<close>

record RateLimitConfig =
  rl_capacity :: rat
  rl_refillPerSec :: rat

record RateLimitDecision =
  dc_allowed :: bool
  dc_remaining :: int
  dc_retryAfterSec :: int

record Bucket =
  bk_tokens :: rat
  bk_lastRefillMs :: int

type_synonym buckets = "(string, Bucket) jsmap"

definition LRU_CAP :: nat where
  "LRU_CAP = 10000"

definition new_limiter :: "RateLimitConfig \<Rightarrow> unit + buckets" where
  "new_limiter config = (if rl_capacity config \<le> 0 \<or> rl_refillPerSec config \<le> 0 then Inl () else Inr [])"

definition bucket_of :: "RateLimitConfig \<Rightarrow> string \<Rightarrow> int \<Rightarrow> buckets \<Rightarrow> Bucket" where
  "bucket_of config key now bs = nullish (map_of bs key) \<lparr>bk_tokens = rl_capacity config, bk_lastRefillMs = now\<rparr>"

definition refilled :: "RateLimitConfig \<Rightarrow> int \<Rightarrow> Bucket \<Rightarrow> rat" where
  "refilled config now b =
     min (rl_capacity config) (bk_tokens b + max 0 (rat_of_int (now - bk_lastRefillMs b) / 1000) * rl_refillPerSec config)"

text \<open>The oldest tenth by insertion order, less the key that is being used.\<close>

definition prune :: "string \<Rightarrow> buckets \<Rightarrow> buckets" where
  "prune key bs =
     (if length bs > LRU_CAP
      then filter (\<lambda>(k, b). k = key) (take (LRU_CAP div 10) bs) @ drop (LRU_CAP div 10) bs
      else bs)"

definition consume :: "RateLimitConfig \<Rightarrow> string \<Rightarrow> int \<Rightarrow> buckets \<Rightarrow> RateLimitDecision \<times> buckets" where
  "consume config key now bs =
     (let tokens = refilled config now (bucket_of config key now bs)
      in if tokens < 1
         then (\<lparr>dc_allowed = False, dc_remaining = 0, dc_retryAfterSec = \<lceil>(1 - tokens) / rl_refillPerSec config\<rceil>\<rparr>,
               AList.update key \<lparr>bk_tokens = tokens, bk_lastRefillMs = now\<rparr> bs)
         else (\<lparr>dc_allowed = True, dc_remaining = \<lfloor>tokens - 1\<rfloor>, dc_retryAfterSec = 0\<rparr>,
               prune key (AList.update key \<lparr>bk_tokens = tokens - 1, bk_lastRefillMs = now\<rparr> bs)))"

definition envInt :: "int option \<Rightarrow> int \<Rightarrow> int" where
  "envInt v fallback = (case v of Some n \<Rightarrow> if 0 < n then n else fallback | None \<Rightarrow> fallback)"

section \<open>Authenticating a request\<close>

record api_principal =
  ap_principal :: auth_principal
  ap_authorize :: "(string \<Rightarrow> Resource \<Rightarrow> bool) option"

definition anonymous :: api_principal where
  "anonymous = \<lparr>ap_principal = \<lparr>au_id = ''anonymous'', au_type = PK_service, au_tenantId = None, au_environment = None, au_roles = []\<rparr>,
     ap_authorize = None\<rparr>"

definition authorizable :: "auth_principal \<Rightarrow> AuthorizablePrincipal" where
  "authorizable p = \<lparr>ap_id = au_id p, ap_type = au_type p, ap_tenantId = au_tenantId p,
     ap_environment = au_environment p, ap_roles = au_roles p\<rparr>"

definition default_tenant :: "headers \<Rightarrow> auth_principal \<Rightarrow> string option" where
  "default_tenant hs p =
     (let headerTenant = headerValue hs ''x-tenant-id''
      in if str_truthy headerTenant \<and> isUuid (the headerTenant) then headerTenant else au_tenantId p)"

text \<open>The roles and the tenant a session user is given from its grants.\<close>

definition reflect_grants :: "string option \<Rightarrow> Grant list \<Rightarrow> auth_principal \<Rightarrow> auth_principal" where
  "reflect_grants defaultTenantId grants p =
     (let p1 = p\<lparr>au_roles := js_set (map gr_role (filter (\<lambda>g. gr_scope g = ''*'') grants))\<rparr>
      in if \<not> str_truthy (au_tenantId p) \<and> str_truthy defaultTenantId \<and>
            list_ex (\<lambda>g. scopeCovers (gr_scope g) (scopeToString (no_scope\<lparr>si_tenantId := defaultTenantId\<rparr>))) grants
         then p1\<lparr>au_tenantId := defaultTenantId\<rparr> else p1)"

record ApiConfig =
  cf_production :: bool
  cf_engine :: PolicyEngine
  cf_wired :: bool

definition attach_closure ::
  "ApiConfig \<Rightarrow> PolicyStore option \<Rightarrow> headers \<Rightarrow> auth_principal \<Rightarrow> Authorizer \<Rightarrow> api_principal \<times> Authorizer"
where
  "attach_closure cfg store hs p az =
     (if \<not> cf_wired cfg then (\<lparr>ap_principal = p, ap_authorize = None\<rparr>, az)
      else
        let defaultTenantId = default_tenant hs p;
            (closure, az1) = authorizeClosure (cf_engine cfg) store defaultTenantId (authorizable p) az
        in if au_type p = PK_user \<and> au_roles p = []
           then (let (grants, az2) = grantsFor store (authorizable p) az1
                 in (\<lparr>ap_principal = reflect_grants defaultTenantId grants p, ap_authorize = Some closure\<rparr>, az2))
           else (\<lparr>ap_principal = p, ap_authorize = Some closure\<rparr>, az1))"

text \<open>What follows \<open>AuthResolver.resolve\<close>, given its result.\<close>

definition authenticate ::
  "ApiConfig \<Rightarrow> PolicyStore option \<Rightarrow> auth_error + auth_principal \<Rightarrow> headers \<Rightarrow> Authorizer \<Rightarrow>
   (AppResponse + api_principal) \<times> Authorizer"
where
  "authenticate cfg store resolved hs az =
     (case resolved of
        Inl e \<Rightarrow> (Inl (error_response 401 ''unauthorized'' []), az)
      | Inr p \<Rightarrow>
          if cf_production cfg \<and> au_id p = ''dev-user'' then (Inl (error_response 401 ''unauthorized'' []), az)
          else (let (ap, az') = attach_closure cfg store hs p az in (Inr ap, az')))"

section \<open>Exceptions\<close>

datatype route_error = Route_forbidden string | Route_not_found | Route_secret_denied | Route_conflict
  | Route_invalid_text | Route_failed

fun exception_response :: "route_error \<Rightarrow> AppResponse" where
  "exception_response (Route_forbidden permission) = error_response 403 ''forbidden'' []"
| "exception_response Route_not_found = error_response 404 ''not_found'' []"
| "exception_response Route_secret_denied = error_response 403 ''forbidden'' []"
| "exception_response Route_conflict = error_response 409 ''conflict'' []"
| "exception_response Route_invalid_text = error_response 400 ''invalid_identifier'' []"
| "exception_response Route_failed = error_response 500 ''internal_error'' []"

record 's api_handler =
  ah_route :: Route
  ah_run :: "AppRequest \<Rightarrow> (string, string) jsmap \<Rightarrow> api_principal \<Rightarrow> 's \<Rightarrow> (route_error + AppResponse) \<times> 's"

text \<open>
  One request.  \<open>ae_resolve\<close> is \<open>AuthResolver.resolve\<close>, \<open>ae_intercept\<close> the gate of the platform
  plugins for mutating routes; \<open>ae_store\<close> is the policy store in the state, \<open>ae_az\<close> and
  \<open>ae_set_az\<close> read and write the authorizer.
\<close>

definition run_handler :: "'s api_handler \<Rightarrow> AppRequest \<Rightarrow> (string, string) jsmap \<Rightarrow> api_principal \<Rightarrow> 's \<Rightarrow> AppResponse \<times> 's" where
  "run_handler h request params ap s =
     (case ah_run h request params ap s of
        (Inl e, s') \<Rightarrow> (exception_response e, s')
      | (Inr r, s') \<Rightarrow> (r, s'))"

record 's api_env =
  ae_config :: ApiConfig
  ae_store :: "'s \<Rightarrow> PolicyStore option"
  ae_az :: "'s \<Rightarrow> Authorizer"
  ae_set_az :: "Authorizer \<Rightarrow> 's \<Rightarrow> 's"
  ae_resolve :: "headers \<Rightarrow> 's \<Rightarrow> (auth_error + auth_principal) \<times> 's"
  ae_intercept :: "nat \<Rightarrow> AppRequest \<Rightarrow> (string, string) jsmap \<Rightarrow> api_principal \<Rightarrow> AppResponse option"

definition handle :: "'s api_env \<Rightarrow> 's api_handler list \<Rightarrow> AppRequest \<Rightarrow> 's \<Rightarrow> (unit + AppResponse) \<times> 's" where
  "handle env hs request s =
     (let pathSegments = compile (rq_path request); routes = map ah_route hs
      in case find_route 0 routes (rq_method request) pathSegments of
           Inl e \<Rightarrow> (Inl e, s)
         | Inr None \<Rightarrow>
             (case path_exists routes pathSegments of
                Inl e \<Rightarrow> (Inl e, s)
              | Inr True \<Rightarrow> (Inr (error_response 405 ''method_not_allowed'' []), s)
              | Inr False \<Rightarrow> (Inr (error_response 404 ''not_found'' []), s))
         | Inr (Some (i, params)) \<Rightarrow>
             if isPublic (rq_path request)
             then (let (r, s') = run_handler (hs ! i) request params anonymous s in (Inr r, s'))
             else
               let (resolved, s0) = ae_resolve env (rq_headers request) s
               in case authenticate (ae_config env) (ae_store env s0) resolved (rq_headers request) (ae_az env s0) of
                     (Inl r, az) \<Rightarrow> (Inr r, ae_set_az env az s0)
                   | (Inr ap, az) \<Rightarrow>
                       (let s1 = ae_set_az env az s0
                        in case ae_intercept env i request params ap of
                             Some blocked \<Rightarrow> (Inr blocked, s1)
                           | None \<Rightarrow> (let (r, s') = run_handler (hs ! i) request params ap s1 in (Inr r, s'))))"

section \<open>How much the limiter lets through\<close>

fun consume_all :: "RateLimitConfig \<Rightarrow> (string \<times> int) list \<Rightarrow> buckets \<Rightarrow> RateLimitDecision list \<times> buckets" where
  "consume_all config [] bs = ([], bs)"
| "consume_all config ((key, now) # calls) bs =
     (let (d, bs1) = consume config key now bs; (ds, bs2) = consume_all config calls bs1 in (d # ds, bs2))"

definition granted :: "string \<Rightarrow> (string \<times> int) list \<Rightarrow> RateLimitDecision list \<Rightarrow> nat" where
  "granted key calls ds = length (filter (\<lambda>(c, d). fst c = key \<and> dc_allowed d) (zip calls ds))"

lemma granted_Cons [simp]:
  "granted key (c # calls) (d # ds) = (if fst c = key \<and> dc_allowed d then 1 else 0) + granted key calls ds"
  "granted key [] ds = 0"
  by (auto simp: granted_def)

text \<open>What a key may take at a time, and how it grows while the key is not used.\<close>

definition tokens_at :: "RateLimitConfig \<Rightarrow> string \<Rightarrow> int \<Rightarrow> buckets \<Rightarrow> rat" where
  "tokens_at config key t bs = refilled config t (bucket_of config key t bs)"

definition used_before :: "string \<Rightarrow> int \<Rightarrow> buckets \<Rightarrow> bool" where
  "used_before key t bs \<longleftrightarrow> (\<forall>b. map_of bs key = Some b \<longrightarrow> bk_lastRefillMs b \<le> t \<and> 0 \<le> bk_tokens b)"

lemma tokens_at_nonneg:
  "0 < rl_capacity config \<Longrightarrow> 0 < rl_refillPerSec config \<Longrightarrow> used_before key t bs \<Longrightarrow> 0 \<le> tokens_at config key v bs"
  by (cases "map_of bs key") (auto simp: tokens_at_def refilled_def bucket_of_def used_before_def intro!: add_nonneg_nonneg mult_nonneg_nonneg)

lemma used_before_mono: "used_before key t bs \<Longrightarrow> t \<le> t' \<Longrightarrow> used_before key t' bs"
  by (fastforce simp: used_before_def)

lemma tokens_at_grow:
  assumes "0 < rl_refillPerSec config" "used_before key t bs" "t \<le> t'"
  shows "tokens_at config key t' bs \<le> tokens_at config key t bs + rl_refillPerSec config * rat_of_int (t' - t) / 1000"
proof (cases "map_of bs key")
  case None
  have "0 \<le> rl_refillPerSec config * rat_of_int (t' - t) / 1000" using assms by simp
  with None show ?thesis by (simp add: tokens_at_def bucket_of_def refilled_def)
next
  case (Some b)
  let ?r = "rl_refillPerSec config"
  have l: "bk_lastRefillMs b \<le> t" using assms(2) Some by (simp add: used_before_def)
  have at: "tokens_at config key v bs = min (rl_capacity config) (bk_tokens b + rat_of_int (v - bk_lastRefillMs b) / 1000 * ?r)"
    if "t \<le> v" for v
    using that l by (simp add: tokens_at_def bucket_of_def refilled_def Some max_def)
  have "rat_of_int (t' - bk_lastRefillMs b) / 1000 * ?r =
      rat_of_int (t - bk_lastRefillMs b) / 1000 * ?r + ?r * rat_of_int (t' - t) / 1000"
    by (simp add: field_simps)
  moreover have "0 \<le> ?r * rat_of_int (t' - t) / 1000" using assms by simp
  ultimately show ?thesis unfolding at [OF assms(3)] at [OF order_refl] by linarith
qed

lemma tokens_at_max: "tokens_at config key t bs \<le> rl_capacity config"
  by (simp add: tokens_at_def refilled_def)

lemma tokens_at_fresh: "0 < rl_capacity config \<Longrightarrow> map_of bs key = None \<Longrightarrow> tokens_at config key t bs = rl_capacity config"
  by (simp add: tokens_at_def bucket_of_def refilled_def)

text \<open>Pruning keeps the bucket of the key in use and some of the others, as they are.\<close>

lemma distinct_prune: "distinct (map fst bs) \<Longrightarrow> distinct (map fst (prune k bs))"
proof -
  have "distinct (map fst (xs @ ys)) \<Longrightarrow> distinct (map fst (filter P xs @ ys))" for P and xs ys :: buckets
    by (auto simp: distinct_map_filter)
  from this [of "take (LRU_CAP div 10) bs" "drop (LRU_CAP div 10) bs"]
  show "distinct (map fst bs) \<Longrightarrow> distinct (map fst (prune k bs))" by (simp add: prune_def)
qed

lemma map_of_prune:
  assumes "distinct (map fst bs)"
  shows "map_of (prune k bs) k = map_of bs k" and "map_of (prune k bs) key \<in> {map_of bs key, None}"
proof -
  let ?n = "LRU_CAP div 10"
  have all: "set (take ?n bs) \<union> set (drop ?n bs) = set bs" by (metis append_take_drop_id set_append)
  then have "(k, b) \<in> set (prune k bs) \<longleftrightarrow> (k, b) \<in> set bs" for b by (auto simp: prune_def)
  then have same: "map_of (prune k bs) k = Some b \<longleftrightarrow> map_of bs k = Some b" for b
    by (simp add: map_of_eq_Some_iff assms distinct_prune)
  show "map_of (prune k bs) k = map_of bs k" by (metis same not_Some_eq)
  have "set (prune k bs) \<subseteq> set bs" using all by (auto simp: prune_def)
  then have "map_of bs key = Some b" if "map_of (prune k bs) key = Some b" for b
    using that assms by (auto simp: map_of_eq_Some_iff distinct_prune)
  then show "map_of (prune k bs) key \<in> {map_of bs key, None}" by (cases "map_of (prune k bs) key") auto
qed

lemma consume_distinct: "distinct (map fst bs) \<Longrightarrow> distinct (map fst (snd (consume config k now bs)))"
  by (simp add: consume_def Let_def distinct_update distinct_prune)

lemma consume_other:
  assumes "distinct (map fst bs)" "k \<noteq> key"
  shows "map_of (snd (consume config k now bs)) key \<in> {map_of bs key, None}"
proof -
  have "map_of (prune k (AList.update k b bs)) key \<in> {map_of bs key, None}" for b
    using map_of_prune(2) [OF distinct_update [OF assms(1), of k b], of k key] assms(2) by (simp add: update_conv)
  then show ?thesis using assms(2) by (simp add: consume_def Let_def update_conv)
qed

lemma consume_self:
  "distinct (map fst bs) \<Longrightarrow> map_of (snd (consume config key now bs)) key =
     Some \<lparr>bk_tokens = tokens_at config key now bs - (if dc_allowed (fst (consume config key now bs)) then 1 else 0), bk_lastRefillMs = now\<rparr>"
  by (simp add: consume_def Let_def tokens_at_def map_of_prune distinct_update update_conv)

lemma consume_allowed: "dc_allowed (fst (consume config key now bs)) \<longleftrightarrow> 1 \<le> tokens_at config key now bs"
  by (auto simp: consume_def Let_def tokens_at_def)

text \<open>One call: the key keeps a sensible bucket, and what it may take afterwards, with what it was given, is what it could take
  before, or a full bucket more when the limiter forgets it.\<close>

definition forgets :: "RateLimitConfig \<Rightarrow> string \<Rightarrow> string \<Rightarrow> int \<Rightarrow> buckets \<Rightarrow> bool" where
  "forgets config key k now bs \<longleftrightarrow> map_of bs key \<noteq> None \<and> map_of (snd (consume config k now bs)) key = None"

lemma consume_step:
  assumes config: "0 < rl_capacity config" "0 < rl_refillPerSec config"
    and bs: "distinct (map fst bs)" "used_before key now bs"
  shows "used_before key now (snd (consume config k now bs))"
    and "tokens_at config key now (snd (consume config k now bs)) + (if k = key \<and> dc_allowed (fst (consume config k now bs)) then 1 else 0) \<le>
      tokens_at config key now bs + (if forgets config key k now bs then rl_capacity config else 0)"
proof (atomize (full), cases "k = key")
  case True
  have "0 \<le> tokens_at config key now bs" using config bs(2) by (rule tokens_at_nonneg)
  then show "used_before key now (snd (consume config k now bs)) \<and>
      tokens_at config key now (snd (consume config k now bs)) + (if k = key \<and> dc_allowed (fst (consume config k now bs)) then 1 else 0) \<le>
      tokens_at config key now bs + (if forgets config key k now bs then rl_capacity config else 0)"
    using consume_self [OF bs(1), of config key now] config
    by (auto simp: True used_before_def consume_allowed tokens_at_def [of config key now "snd _"] bucket_of_def refilled_def)
next
  case False
  note other = consume_other [OF bs(1) False, of config now]
  have "tokens_at config key now (snd (consume config k now bs)) \<le> tokens_at config key now bs + (if forgets config key k now bs then rl_capacity config else 0)"
  proof (cases "map_of (snd (consume config k now bs)) key = map_of bs key")
    case True
    then show ?thesis using config(1) by (simp add: tokens_at_def bucket_of_def)
  next
    case False
    then have "forgets config key k now bs" using other by (simp add: forgets_def)
    then show ?thesis
      using tokens_at_nonneg [OF config bs(2), of now] tokens_at_max [of config key now "snd (consume config k now bs)"] by simp
  qed
  then show "used_before key now (snd (consume config k now bs)) \<and>
      tokens_at config key now (snd (consume config k now bs)) + (if k = key \<and> dc_allowed (fst (consume config k now bs)) then 1 else 0) \<le>
      tokens_at config key now bs + (if forgets config key k now bs then rl_capacity config else 0)"
    using False other bs(2) by (auto simp: used_before_def)
qed

text \<open>How often the key is forgotten in a series of calls; never, while the limiter has room for all the keys.\<close>

fun times_forgotten :: "RateLimitConfig \<Rightarrow> string \<Rightarrow> (string \<times> int) list \<Rightarrow> buckets \<Rightarrow> nat" where
  "times_forgotten config key [] bs = 0"
| "times_forgotten config key ((k, now) # calls) bs =
     (if forgets config key k now bs then 1 else 0) + times_forgotten config key calls (snd (consume config k now bs))"

lemma update_keyset: "fst ` set (AList.update k v bs) = insert k (fst ` set bs)"
proof -
  have "set (map fst (AList.update k v bs)) = insert k (set (map fst bs))" by (auto simp: update_keys)
  then show ?thesis by simp
qed

lemma prune_id:
  assumes "distinct (map fst bs)" "card (insert k (fst ` set bs)) \<le> LRU_CAP"
  shows "prune k (AList.update k b bs) = AList.update k b bs"
proof -
  have "length (AList.update k b bs) = card (fst ` set (AList.update k b bs))"
    by (metis assms(1) distinct_card distinct_update image_set length_map)
  then show ?thesis using assms(2) by (simp add: prune_def update_keyset)
qed

lemma never_forgotten:
  assumes "distinct (map fst bs)" "card (fst ` set bs \<union> fst ` set calls) \<le> LRU_CAP"
  shows "times_forgotten config key calls bs = 0"
  using assms
proof (induction calls arbitrary: bs)
  case (Cons c calls)
  obtain k now where c: "c = (k, now)" by (cases c)
  let ?bs = "snd (consume config k now bs)"
  have "card (insert k (fst ` set bs)) \<le> card (fst ` set bs \<union> fst ` set (c # calls))" by (rule card_mono) (auto simp: c)
  with Cons.prems(2) have "card (insert k (fst ` set bs)) \<le> LRU_CAP" by (rule order_trans [rotated])
  note keep = prune_id [OF Cons.prems(1) this]
  have "\<exists>b. ?bs = AList.update k b bs"
    by (cases "refilled config now (bucket_of config k now bs) < 1") (auto simp: consume_def Let_def keep)
  then obtain b where b: "?bs = AList.update k b bs" by blast
  have "card (fst ` set ?bs \<union> fst ` set calls) \<le> LRU_CAP" using Cons.prems(2) by (simp add: b c update_keyset)
  then have "times_forgotten config key calls ?bs = 0" by (rule Cons.IH [OF consume_distinct [OF Cons.prems(1)]])
  moreover have "\<not> forgets config key k now bs" by (cases "map_of bs key") (auto simp: forgets_def b update_conv)
  ultimately show ?case by (simp add: c)
qed simp

text \<open>The buckets after any calls in the order of the clock.\<close>

lemma consume_all_state:
  assumes config: "0 < rl_capacity config" "0 < rl_refillPerSec config"
    and "sorted (t # map snd calls)" "used_before key t bs" "distinct (map fst bs)"
  shows "used_before key (last (t # map snd calls)) (snd (consume_all config calls bs)) \<and> distinct (map fst (snd (consume_all config calls bs)))"
  using assms(3-5)
proof (induction calls arbitrary: t bs)
  case (Cons c calls)
  obtain k now where c: "c = (k, now)" by (cases c)
  have "used_before key now bs" "sorted (now # map snd calls)" using Cons.prems(1,2) used_before_mono by (auto simp: c)
  then show ?case
    using Cons.IH [OF _ consume_step(1) [OF config Cons.prems(3)] consume_distinct [OF Cons.prems(3)]]
    by (simp add: c split_beta Let_def)
qed simp

lemma consume_all_bound:
  assumes config: "0 < rl_capacity config" "0 < rl_refillPerSec config"
    and "sorted (t # map snd calls)" and "used_before key t bs" and "distinct (map fst bs)"
  shows "of_nat (granted key calls (fst (consume_all config calls bs))) \<le>
    tokens_at config key t bs + rl_capacity config * of_nat (times_forgotten config key calls bs) +
      rl_refillPerSec config * rat_of_int (last (t # map snd calls) - t) / 1000"
  using assms(3-5)
proof (induction calls arbitrary: t bs)
  case Nil
  then show ?case using tokens_at_nonneg [OF config] by simp
next
  case (Cons c calls)
  obtain k now where c: "c = (k, now)" by (cases c)
  let ?r = "rl_refillPerSec config" and ?bs = "snd (consume config k now bs)" and ?d = "fst (consume config k now bs)"
  let ?cap = "rl_capacity config" and ?fin = "last (t # map snd (c # calls))"
  have le: "t \<le> now" "used_before key now bs" "sorted (now # map snd calls)"
    using Cons.prems(1,2) used_before_mono by (auto simp: c)
  note step = consume_step [OF config Cons.prems(3) le(2), of k]
  note ih = Cons.IH [OF le(3) step(1) consume_distinct [OF Cons.prems(3)]]
  have grow: "tokens_at config key now bs \<le> tokens_at config key t bs + ?r * rat_of_int (now - t) / 1000"
    by (rule tokens_at_grow [OF config(2) Cons.prems(2) le(1)])
  define g where "g = (of_nat (granted key calls (fst (consume_all config calls ?bs))) :: rat)"
  define one where "one = (if k = key \<and> dc_allowed ?d then 1 else 0 :: rat)"
  define lost where "lost = (if forgets config key k now bs then ?cap else 0)"
  define more where "more = ?cap * of_nat (times_forgotten config key calls ?bs)"
  have "of_nat (granted key (c # calls) (fst (consume_all config (c # calls) bs))) = one + g"
    by (auto simp: c one_def g_def split_beta Let_def)
  moreover have "?cap * of_nat (times_forgotten config key (c # calls) bs) = lost + more"
    by (simp add: c lost_def more_def algebra_simps)
  moreover have "?r * rat_of_int (?fin - t) / 1000 = ?r * rat_of_int (now - t) / 1000 + ?r * rat_of_int (last (now # map snd calls) - now) / 1000"
    by (simp add: c field_simps)
  ultimately show ?case
    using ih step(2) grow unfolding g_def [symmetric] one_def [symmetric] lost_def [symmetric] more_def [symmetric] by linarith
qed

text \<open>C32: Whatever calls with whatever keys came before, in any later period the limiter lets a key through at most as often
  as its capacity and the refill of that period allow, plus its capacity for every time the limiter forgets the key in that
  period, and it never forgets one while the keys it tracks and those used fit its size of 10000.  The clock must not run
  backwards.  That other keys can make it forget a refused key is \<open>prune_forgets\<close> below.\<close>

theorem rate_bounded:
  assumes "0 < rl_capacity config" "0 < rl_refillPerSec config"
    and "sorted (map snd (earlier @ calls))" "calls \<noteq> []" "bs = snd (consume_all config earlier [])"
  shows "of_nat (granted key calls (fst (consume_all config calls bs))) \<le>
      rl_capacity config * (1 + of_nat (times_forgotten config key calls bs)) +
      rl_refillPerSec config * rat_of_int (last (map snd calls) - hd (map snd calls)) / 1000 \<and>
    (card (fst ` set bs \<union> fst ` set calls) \<le> LRU_CAP \<longrightarrow> times_forgotten config key calls bs = 0)"
proof -
  let ?first = "hd (map snd (earlier @ calls))" and ?t = "hd (map snd calls)"
  have s: "sorted (?first # map snd earlier)"
    using assms(3,4) by (cases earlier) (auto simp: sorted_append)
  have "last (?first # map snd earlier) \<le> ?t"
  proof (cases "earlier = []")
    case False
    then have "last earlier \<in> set earlier" "hd calls \<in> set calls" using assms(4) by simp_all
    with assms(3) have "snd (last earlier) \<le> snd (hd calls)" by (simp add: sorted_append)
    then show ?thesis using False assms(4) by (simp add: last_map hd_map)
  qed simp
  have "used_before key ?first []" by (simp add: used_before_def)
  from consume_all_state [OF assms(1,2) s this] have d: "distinct (map fst bs)"
    and "used_before key (last (?first # map snd earlier)) bs" unfolding assms(5) by simp_all
  with \<open>last (?first # map snd earlier) \<le> ?t\<close> have u: "used_before key ?t bs" by (blast intro: used_before_mono)
  have "sorted (?t # map snd calls)" "last (?t # map snd calls) = last (map snd calls)"
    using assms(3,4) by (cases calls; auto simp: sorted_append)+
  from consume_all_bound [OF assms(1,2) this(1) u d] tokens_at_max [of config key ?t bs]
  have "of_nat (granted key calls (fst (consume_all config calls bs))) \<le> rl_capacity config +
      rl_capacity config * of_nat (times_forgotten config key calls bs) +
      rl_refillPerSec config * rat_of_int (last (map snd calls) - ?t) / 1000"
    unfolding \<open>last (?t # map snd calls) = last (map snd calls)\<close> by linarith
  then show ?thesis using never_forgotten [OF d] by (simp add: distrib_left)
qed

theorem rate_bounded_witness:
  "of_nat (granted ''k'' [(''k'', 500), (''j'', 500), (''k'', 900), (''k'', 1600)]
      (fst (consume_all \<lparr>rl_capacity = 1, rl_refillPerSec = 1\<rparr> [(''k'', 500), (''j'', 500), (''k'', 900), (''k'', 1600)]
        (snd (consume_all \<lparr>rl_capacity = 1, rl_refillPerSec = 1\<rparr> [(''i'', 0), (''k'', 100)] []))))) \<le> (21 / 10 :: rat)"
proof -
  let ?config = "\<lparr>rl_capacity = 1, rl_refillPerSec = 1\<rparr>"
  let ?earlier = "[(''i'', 0), (''k'', 100)]" and ?calls = "[(''k'', 500), (''j'', 500), (''k'', 900), (''k'', 1600)]"
  have "snd (consume_all ?config ?earlier []) =
      [(''i'', \<lparr>bk_tokens = 0, bk_lastRefillMs = 0\<rparr>), (''k'', \<lparr>bk_tokens = 0, bk_lastRefillMs = 100\<rparr>)]"
    by (simp add: consume_def bucket_of_def refilled_def prune_def LRU_CAP_def Let_def)
  then have "card (fst ` set (snd (consume_all ?config ?earlier [])) \<union> fst ` set ?calls) \<le> LRU_CAP"
    by (simp add: LRU_CAP_def card_insert_if del: consume_all.simps)
  then show ?thesis using rate_bounded [OF _ _ _ _ refl, of ?config ?earlier ?calls "''k''"] by (simp del: consume_all.simps)
qed

text \<open>A refused key is let through once it has waited for the time it was told.\<close>

lemma retry_after_suffices:
  assumes config: "1 \<le> rl_capacity config" "0 < rl_refillPerSec config"
    and "\<not> dc_allowed (fst (consume config key now bs))"
    and "now + 1000 * dc_retryAfterSec (fst (consume config key now bs)) \<le> later"
  shows "dc_allowed (fst (consume config key later (snd (consume config key now bs))))"
proof -
  let ?r = "rl_refillPerSec config" and ?tokens = "refilled config now (bucket_of config key now bs)"
  let ?wait = "\<lceil>(1 - ?tokens) / ?r\<rceil>"
  from assms(3) have low: "?tokens < 1" by (auto simp: consume_def Let_def split: if_splits)
  then have bs: "snd (consume config key now bs) = AList.update key \<lparr>bk_tokens = ?tokens, bk_lastRefillMs = now\<rparr> bs"
    and "now + 1000 * ?wait \<le> later" using assms(4) by (simp_all add: consume_def Let_def)
  then have "rat_of_int ?wait \<le> rat_of_int (later - now) / 1000" by (simp add: field_simps flip: of_int_mult)
  moreover have "(1 - ?tokens) / ?r \<le> rat_of_int ?wait" by (rule le_of_int_ceiling)
  ultimately have "(1 - ?tokens) / ?r \<le> max 0 (rat_of_int (later - now) / 1000)" by linarith
  then have "1 - ?tokens \<le> max 0 (rat_of_int (later - now) / 1000) * ?r"
    using config(2) by (simp add: pos_divide_le_eq)
  then have "1 \<le> refilled config later \<lparr>bk_tokens = ?tokens, bk_lastRefillMs = now\<rparr>"
    using config(1) by (simp add: refilled_def)
  then show ?thesis by (simp add: bs consume_def [of config key later] bucket_of_def update_conv Let_def)
qed

text \<open>The oldest key is forgotten, idle or not: with one more key than the limiter tracks a refused key is let through at once.\<close>

lemma prune_forgets:
  assumes "length bs = LRU_CAP" "bs = (key, b) # rest" "k2 \<notin> fst ` set bs" "distinct (map fst bs)"
    and "1 \<le> rl_capacity config" "0 < rl_refillPerSec config"
  shows "dc_allowed (fst (consume config key now (snd (consume config k2 now bs))))"
proof -
  have none: "map_of bs k2 = None" using assms(3) by (simp add: map_of_eq_None_iff)
  have "bucket_of config k2 now bs = \<lparr>bk_tokens = rl_capacity config, bk_lastRefillMs = now\<rparr>"
    by (simp add: bucket_of_def none)
  then have "refilled config now (bucket_of config k2 now bs) = rl_capacity config" by (simp add: refilled_def)
  then have "snd (consume config k2 now bs) = prune k2 (bs @ [(k2, \<lparr>bk_tokens = rl_capacity config - 1, bk_lastRefillMs = now\<rparr>)])"
    using assms(5) by (simp add: consume_def Let_def update_new none)
  moreover have "map_of (prune k2 (bs @ [(k2, c)])) key = None" for c
  proof -
    have ne: "key \<noteq> k2" using assms(2,3) by auto
    have "key \<notin> fst ` set rest" using assms(2,4) by auto
    moreover have "drop (LRU_CAP div 10) (bs @ [(k2, c)]) = drop (LRU_CAP div 10 - 1) rest @ [(k2, c)]"
      using assms(1,2) by (simp add: LRU_CAP_def)
    moreover have "set (drop n rest) \<subseteq> set rest" for n by (rule set_drop_subset)
    ultimately have "key \<notin> fst ` set (drop (LRU_CAP div 10) (bs @ [(k2, c)]))" using ne by auto
    then show ?thesis
      using ne assms(1) by (auto simp: prune_def map_of_eq_None_iff)
  qed
  ultimately show ?thesis
    using assms(5) by (simp add: consume_def [of config key] bucket_of_def refilled_def Let_def)
qed

end
