(* ===== verification/Account_Routes.thy ===== *)
theory Account_Routes
  imports Api_Core
begin

text \<open>
  The routes of accounts and access control (\<open>users.ts\<close>, \<open>auth.ts\<close>, \<open>auth-sso.ts\<close>,
  \<open>roles.ts\<close>, \<open>api-keys.ts\<close>, \<open>auth-settings.ts\<close> and \<open>identity-providers.ts\<close> under
  \<open>apps/api/src/app/routes\<close>), with the projections and the helpers they share.  Every handler is a
  function of the request, its path parameters, the principal and the state; a thrown exception is a
  \<open>route_error\<close>.  Audit entries, logs and messages are left out.
\<close>

section \<open>State\<close>

record RoleRow =
  ro_id :: string
  ro_name :: string
  ro_description :: "string option"

record IdentityProviderRow =
  ip_id :: string
  ip_slug :: string
  ip_kind :: string
  ip_displayName :: string
  ip_enabled :: bool
  ip_config :: "(string \<times> json) list"
  ip_createdAt :: string
  ip_updatedAt :: string

record api_state =
  st_accounts :: account_state
  st_az :: Authorizer
  st_keys :: api_keys
  st_revoked :: revocation_store
  st_sso :: sso_states
  st_idps :: "IdentityProviderRow rows"
  st_roles :: "RoleRow rows"
  st_tenants :: "string list"
  st_environments :: "(string \<times> string) list"
  st_ssoBuckets :: buckets

text \<open>
  What the routes are built with.  \<open>dp_callback\<close> is the callback of an identity provider (with the
  code or SAML response); \<open>dp_date_ms\<close> reads a date and \<open>dp_iso\<close> prints one; \<open>dp_collate\<close> is the
  order of \<open>localeCompare\<close>.
\<close>

record api_deps =
  dp_accounts :: "AccountServiceDeps option"
  dp_scrypt :: scrypt
  dp_params :: ScryptParams
  dp_sessions :: "session_service option"
  dp_sha256 :: "string \<Rightarrow> bytes"
  dp_wired :: bool
  dp_keyHooks :: bool
  dp_callback :: "IdentityProviderRow \<Rightarrow> SsoPendingState \<Rightarrow> string option \<Rightarrow> string option \<Rightarrow> SsoIdentity option"
  dp_authorizationUrl :: "IdentityProviderRow \<Rightarrow> string \<Rightarrow> string \<Rightarrow> string \<Rightarrow> string"
  dp_webBase :: string
  dp_date_ms :: "string \<Rightarrow> int option"
  dp_iso :: "int \<Rightarrow> string"
  dp_collate :: "string \<Rightarrow> string \<Rightarrow> bool"

type_synonym handler = "AppRequest \<Rightarrow> (string, string) jsmap \<Rightarrow> api_principal \<Rightarrow> api_state \<Rightarrow>
  (route_error + AppResponse) \<times> api_state"

section \<open>Shared helpers\<close>

definition empty_resource :: Resource where
  "empty_resource = \<lparr>rs_tenantId = None, rs_pipelineId = None, rs_environment = None\<rparr>"

text \<open>\<open>enforce\<close> before the rest of a handler.\<close>

definition guarded ::
  "api_principal \<Rightarrow> string \<Rightarrow> Resource \<Rightarrow> 's \<Rightarrow> (route_error + AppResponse) \<times> 's \<Rightarrow> (route_error + AppResponse) \<times> 's"
where
  "guarded ap permission r st k =
     (case enforce (ap_authorize ap) (ap_principal ap) permission r of
        Inl (Missing_permission p) \<Rightarrow> (Inl (Route_forbidden p), st)
      | Inr _ \<Rightarrow> k)"

definition param :: "(string, string) jsmap \<Rightarrow> string \<Rightarrow> string" where
  "param params k = nullish (map_of params k) []"

definition validation_failed :: "'s \<Rightarrow> (route_error + AppResponse) \<times> 's" where
  "validation_failed st = (Inr (error_response 422 ''validation_failed'' []), st)"

definition respond_error :: "nat \<Rightarrow> string \<Rightarrow> 's \<Rightarrow> (route_error + AppResponse) \<times> 's" where
  "respond_error status code st = (Inr (error_response status code []), st)"

fun repo_exception :: "repo_error \<Rightarrow> route_error" where
  "repo_exception (NotFoundError e i) = Route_not_found"
| "repo_exception (ConflictError e i) = Route_conflict"

fun null_json :: "string option \<Rightarrow> json" where
  "null_json None = JNull"
| "null_json (Some s) = JStr s"

definition scopeInputFromBody :: "json \<Rightarrow> ScopeInput" where
  "scopeInputFromBody body =
     (if str_truthy (opt_str (member body ''scope'')) then parseScope (the (opt_str (member body ''scope'')))
      else \<lparr>si_tenantId = opt_str (member body ''tenantId''), si_environment = opt_str (member body ''environment''),
            si_pipelineId = opt_str (member body ''pipelineId'')\<rparr>)"

definition scopeResource :: "string \<Rightarrow> Resource" where
  "scopeResource scope = (let s = parseScope scope
     in \<lparr>rs_tenantId = si_tenantId s, rs_pipelineId = si_pipelineId s, rs_environment = si_environment s\<rparr>)"

definition effectiveCatalog :: "rbac_policies \<Rightarrow> RoleCatalog" where
  "effectiveCatalog rb = buildCatalog (if rb_rolePerms rb \<noteq> [] then rb_rolePerms rb else defaultCatalogRows)"

definition parseForce :: "AppRequest \<Rightarrow> bool" where
  "parseForce request =
     (case map_of (rq_query request) ''force'' of
        None \<Rightarrow> False
      | Some raw \<Rightarrow> to_lower raw = ''true'' \<or> to_lower raw = ''1'')"

definition hasDependents :: "(string \<times> nat) list \<Rightarrow> AppResponse" where
  "hasDependents dependents = error_response 409 ''has_dependents''
     [(''dependents'', JObj (map (\<lambda>(k, n). (k, jint (int n))) (filter (\<lambda>(k, n). 0 < n) dependents))),
      (''hint'', JStr ''?force=true to cascade'')]"

text \<open>\<open>authorizer.invalidate\<close>, when one is wired.\<close>

definition invalidate_az :: "api_deps \<Rightarrow> string option \<Rightarrow> api_state \<Rightarrow> api_state" where
  "invalidate_az dp userId st = (if dp_wired dp then st\<lparr>st_az := invalidate userId (st_az st)\<rparr> else st)"

abbreviation "st_users st \<equiv> ac_users (st_accounts st)"
abbreviation "st_rbac st \<equiv> ac_rbac (st_accounts st)"

definition upd_users :: "LocalUser rows \<Rightarrow> api_state \<Rightarrow> api_state" where
  "upd_users users st = st\<lparr>st_accounts := (st_accounts st)\<lparr>ac_users := users\<rparr>\<rparr>"

definition upd_rbac :: "rbac_policies \<Rightarrow> api_state \<Rightarrow> api_state" where
  "upd_rbac rb st = st\<lparr>st_accounts := (st_accounts st)\<lparr>ac_rbac := rb\<rparr>\<rparr>"

section \<open>Users\<close>

definition publicUser :: "LocalUser \<Rightarrow> json" where
  "publicUser u = JObj [(''id'', JStr (lu_id u)), (''email'', JStr (lu_email u)), (''displayName'', null_json (lu_displayName u)),
     (''status'', JStr (lu_status u)), (''sso'', JBool (\<not> str_truthy (lu_passwordHash u))), (''createdAt'', JStr (lu_createdAt u))]"

definition users_list :: handler where
  "users_list request params ap st = guarded ap ''user:manage'' empty_resource st
     (Inr (ok_response 200 (JObj [(''users'', JArr (map publicUser (crud_list (st_users st))))])), st)"

definition hash_of :: "api_deps \<Rightarrow> surroundings \<Rightarrow> string option \<Rightarrow> route_error + string option" where
  "hash_of dp su password =
     (if str_truthy password
      then (case password_hash (dp_scrypt dp) (dp_params dp) (su_salt su) (the password) of
              Inl e \<Rightarrow> Inl Route_failed
            | Inr h \<Rightarrow> Inr (Some h))
      else Inr None)"

definition users_create :: "api_deps \<Rightarrow> surroundings \<Rightarrow> handler" where
  "users_create dp su request params ap st = guarded ap ''user:manage'' empty_resource st
     (let body = rq_body request
      in case opt_str (member body ''email'') of
           None \<Rightarrow> validation_failed st
         | Some raw \<Rightarrow>
             let email = to_lower (trim raw)
             in if findByEmail (st_users st) email \<noteq> None then respond_error 409 ''conflict'' st
                else (case hash_of dp su (opt_str (member body ''password'')) of
                        Inl e \<Rightarrow> (Inl e, st)
                      | Inr h \<Rightarrow>
                          (case user_create \<lparr>lu_id = nullish (opt_str (member body ''id'')) (su_uuids su 0), lu_email = email,
                                  lu_displayName = opt_str (member body ''displayName''), lu_passwordHash = h,
                                  lu_status = (if member body ''status'' = JStr ''disabled'' then ''disabled'' else ''active''),
                                  lu_createdAt = su_nowIso su, lu_updatedAt = su_nowIso su\<rparr> (st_users st) of
                             Inl e \<Rightarrow> (Inl (repo_exception e), st)
                           | Inr (u, users) \<Rightarrow> (Inr (ok_response 201 (JObj [(''user'', publicUser u)])), upd_users users st))))"

text \<open>A display name is changed by a string or by \<open>null\<close>.\<close>

definition patch_displayName :: "json \<Rightarrow> LocalUser \<Rightarrow> LocalUser" where
  "patch_displayName body u =
     (case member body ''displayName'' of
        JStr s \<Rightarrow> u\<lparr>lu_displayName := Some s\<rparr>
      | JNull \<Rightarrow> u\<lparr>lu_displayName := None\<rparr>
      | _ \<Rightarrow> u)"

definition patch_status :: "json \<Rightarrow> LocalUser \<Rightarrow> LocalUser" where
  "patch_status body u =
     (if member body ''status'' = JStr ''active'' then u\<lparr>lu_status := ''active''\<rparr>
      else if member body ''status'' = JStr ''disabled'' then u\<lparr>lu_status := ''disabled''\<rparr> else u)"

definition patch_hash :: "string option \<Rightarrow> LocalUser \<Rightarrow> LocalUser" where
  "patch_hash h u = (case h of None \<Rightarrow> u | Some x \<Rightarrow> u\<lparr>lu_passwordHash := Some x\<rparr>)"

definition write_user ::
  "string \<Rightarrow> (LocalUser \<Rightarrow> LocalUser) \<Rightarrow> (LocalUser \<Rightarrow> AppResponse) \<Rightarrow> api_state \<Rightarrow> (route_error + AppResponse) \<times> api_state"
where
  "write_user i patch response st =
     (case user_update i patch (st_users st) of
        Inl e \<Rightarrow> (Inl (repo_exception e), st)
      | Inr (u, users) \<Rightarrow> (Inr (response u), upd_users users st))"

definition users_patch :: "api_deps \<Rightarrow> surroundings \<Rightarrow> handler" where
  "users_patch dp su request params ap st = guarded ap ''user:manage'' empty_resource st
     (let i = param params ''id''; body = rq_body request
      in if crud_get (st_users st) i = None then respond_error 404 ''not_found'' st
         else if \<not> isObject body then validation_failed st
         else (case hash_of dp su (opt_str (member body ''password'')) of
                 Inl e \<Rightarrow> (Inl e, st)
               | Inr h \<Rightarrow> write_user i
                   (\<lambda>u. patch_hash h (patch_status body (patch_displayName body (u\<lparr>lu_updatedAt := su_nowIso su\<rparr>))))
                   (\<lambda>u. ok_response 200 (JObj [(''user'', publicUser u)])) st))"

definition users_delete :: "api_deps \<Rightarrow> handler" where
  "users_delete dp request params ap st = guarded ap ''user:manage'' empty_resource st
     (let i = param params ''id''
      in if crud_get (st_users st) i = None then respond_error 404 ''not_found'' st
         else (Inr no_content, invalidate_az dp (Some i) (upd_users (crud_delete i (st_users st)) st)))"

definition scope_members :: "string \<Rightarrow> (string \<times> json) list" where
  "scope_members scope = (let s = parseScope scope
     in filter (\<lambda>(k, v). v \<noteq> JUndef) [(''tenantId'', opt_json (si_tenantId s)), (''environment'', opt_json (si_environment s)),
          (''pipelineId'', opt_json (si_pipelineId s))])"

definition grant_json :: "RbacGrantRow \<Rightarrow> json" where
  "grant_json g = JObj ([(''id'', JStr (rg_id g)), (''role'', JStr (rg_role g)), (''scope'', JStr (rg_scope g))] @ scope_members (rg_scope g))"

definition user_grants_list :: handler where
  "user_grants_list request params ap st = guarded ap ''user:manage'' empty_resource st
     (let i = param params ''id''
      in if crud_get (st_users st) i = None then respond_error 404 ''not_found'' st
         else (Inr (ok_response 200 (JObj [(''grants'', JArr (map grant_json (rbac_listGrantsForUser (st_rbac st) i)))])), st))"

definition user_grant_add :: "api_deps \<Rightarrow> surroundings \<Rightarrow> handler" where
  "user_grant_add dp su request params ap st =
     (let i = param params ''id''; body = rq_body request
      in if crud_get (st_users st) i = None then respond_error 404 ''not_found'' st
         else (case opt_str (member body ''role'') of
                 None \<Rightarrow> validation_failed st
               | Some role \<Rightarrow>
                   let scope = scopeToString (scopeInputFromBody body)
                   in guarded ap ''user:manage'' (scopeResource scope) st
                        (let (created, rb) = addGrant \<lparr>rg_id = su_uuids su 0, rg_userId = i, rg_role = role, rg_scope = scope,
                               rg_createdAt = su_nowIso su\<rparr> (st_rbac st)
                         in (Inr (ok_response 201 (JObj [(''grant'', grant_json created)])),
                             invalidate_az dp (Some i) (upd_rbac rb st)))))"

definition user_grant_remove :: "api_deps \<Rightarrow> handler" where
  "user_grant_remove dp request params ap st =
     (let i = param params ''id''
      in if crud_get (st_users st) i = None then respond_error 404 ''not_found'' st
         else (case find (\<lambda>g. rg_id g = param params ''grantId'') (rbac_listGrantsForUser (st_rbac st) i) of
                 None \<Rightarrow> respond_error 404 ''not_found'' st
               | Some target \<Rightarrow>
                   guarded ap ''user:manage'' (scopeResource (rg_scope target)) st
                     (Inr no_content, invalidate_az dp (Some i) (upd_rbac (removeGrant (param params ''grantId'') (st_rbac st)) st))))"

section \<open>Signing in and the own account\<close>

definition post_login :: "api_deps \<Rightarrow> surroundings \<Rightarrow> handler" where
  "post_login dp su request params ap st =
     (case dp_accounts dp of
        None \<Rightarrow> respond_error 501 ''auth_not_configured'' st
      | Some d \<Rightarrow>
          (case (opt_str (member (rq_body request) ''email''), opt_str (member (rq_body request) ''password'')) of
             (Some email, Some password) \<Rightarrow>
               (case loginLocal d su email password (st_accounts st) of
                  Inl Invalid_credentials \<Rightarrow> respond_error 401 ''invalid_credentials'' st
                | Inl Account_disabled \<Rightarrow> respond_error 403 ''account_disabled'' st
                | Inl e \<Rightarrow> (Inl Route_failed, st)
                | Inr out \<Rightarrow> (Inr (ok_response 200 (JObj [(''token'', JStr (oc_token out)), (''user'', publicUser (oc_user out))])), st))
           | _ \<Rightarrow> validation_failed st))"

definition post_signup :: "api_deps \<Rightarrow> surroundings \<Rightarrow> handler" where
  "post_signup dp su request params ap st =
     (case dp_accounts dp of
        None \<Rightarrow> respond_error 501 ''auth_not_configured'' st
      | Some d \<Rightarrow>
          (case (opt_str (member (rq_body request) ''email''), opt_str (member (rq_body request) ''password'')) of
             (Some email, Some password) \<Rightarrow>
               (let (r, acc) = signupLocal d su email password (opt_str (member (rq_body request) ''displayName'')) (st_accounts st);
                    st' = st\<lparr>st_accounts := acc\<rparr>
                in case r of
                     Inl Signup_disabled \<Rightarrow> respond_error 403 ''signup_disabled'' st'
                   | Inl Email_in_use \<Rightarrow> respond_error 409 ''email_in_use'' st'
                   | Inl WeakPasswordError \<Rightarrow> respond_error 422 ''weak_password'' st'
                   | Inl (Repository_error e) \<Rightarrow> (Inl (repo_exception e), st')
                   | Inl e \<Rightarrow> (Inl Route_failed, st')
                   | Inr out \<Rightarrow> (Inr (ok_response 201 (JObj [(''token'', JStr (oc_token out)), (''user'', publicUser (oc_user out))])), st'))
           | _ \<Rightarrow> validation_failed st))"

definition post_logout :: "api_deps \<Rightarrow> surroundings \<Rightarrow> handler" where
  "post_logout dp su request params ap st =
     (let raw = Option.bind (map_of (rq_headers request) ''authorization'') (\<lambda>vs. case vs of [] \<Rightarrow> None | v # _ \<Rightarrow> Some v)
      in case raw of
           Some h \<Rightarrow>
             if starts_with ''Bearer '' h
             then (case dp_sessions dp of
                     Some ss \<Rightarrow> (let token = trim (drop 7 h)
                        in (Inr no_content, if token \<noteq> [] then st\<lparr>st_revoked := session_revoke ss (su_nowMs su) token (st_revoked st)\<rparr> else st))
                   | None \<Rightarrow> (Inr no_content, st))
             else (Inr no_content, st)
         | None \<Rightarrow> (Inr no_content, st))"

text \<open>The grants the principal is shown: its stored grants, or its roles at its tenant.\<close>

definition shown_grants :: "auth_principal \<Rightarrow> rbac_policies \<Rightarrow> (string \<times> string) list" where
  "shown_grants p rb =
     (if au_type p = PK_user \<and> au_roles p = []
      then map (\<lambda>g. (rg_role g, rg_scope g)) (rbac_listGrantsForUser rb (au_id p))
      else let scope = (if str_truthy (au_tenantId p) then ''t/'' @ the (au_tenantId p) else ''*'')
           in map (\<lambda>role. (role, scope)) (au_roles p))"

definition get_me :: handler where
  "get_me request params ap st =
     (let p = ap_principal ap; catalog = effectiveCatalog (st_rbac st);
          user = (if au_type p = PK_user then crud_get (st_users st) (au_id p) else None);
          grants = shown_grants p (st_rbac st);
          permissions = js_set (concat (map (\<lambda>(role, scope). nullish (map_of catalog role) []) grants))
      in (Inr (ok_response 200 (JObj [
            (''principal'', JObj [(''id'', JStr (au_id p)), (''type'', JStr (kind_str (au_type p))), (''tenantId'', null_json (au_tenantId p))]),
            (''user'', case user of None \<Rightarrow> JNull | Some u \<Rightarrow> publicUser u),
            (''grants'', JArr (map (\<lambda>(role, scope). JObj [(''role'', JStr role), (''scope'', JStr scope)]) grants)),
            (''permissions'', JArr (map JStr permissions))])), st))"

definition patch_me :: "surroundings \<Rightarrow> handler" where
  "patch_me su request params ap st =
     (let p = ap_principal ap
      in if au_type p \<noteq> PK_user then respond_error 403 ''forbidden'' st
         else if crud_get (st_users st) (au_id p) = None then respond_error 404 ''not_found'' st
         else if \<not> isObject (rq_body request) then validation_failed st
         else write_user (au_id p) (\<lambda>u. patch_displayName (rq_body request) (u\<lparr>lu_updatedAt := su_nowIso su\<rparr>))
                (\<lambda>u. ok_response 200 (JObj [(''user'', publicUser u)])) st)"

definition post_password :: "api_deps \<Rightarrow> surroundings \<Rightarrow> handler" where
  "post_password dp su request params ap st =
     (let p = ap_principal ap; body = rq_body request
      in if au_type p \<noteq> PK_user then respond_error 403 ''forbidden'' st
         else (case crud_get (st_users st) (au_id p) of
                 None \<Rightarrow> respond_error 404 ''not_found'' st
               | Some user \<Rightarrow>
                   (case opt_str (member body ''newPassword'') of
                      None \<Rightarrow> validation_failed st
                    | Some newPassword \<Rightarrow>
                        if length newPassword < 8 then validation_failed st
                        else if str_truthy (lu_passwordHash user) \<and>
                          \<not> password_verify (dp_scrypt dp) (nullish (opt_str (member body ''currentPassword'')) []) (lu_passwordHash user)
                        then respond_error 403 ''invalid_credentials'' st
                        else (case password_hash (dp_scrypt dp) (dp_params dp) (su_salt su) newPassword of
                                Inl WeakPasswordError \<Rightarrow> validation_failed st
                              | Inl e \<Rightarrow> (Inl Route_failed, st)
                              | Inr h \<Rightarrow> write_user (au_id p) (\<lambda>u. u\<lparr>lu_passwordHash := Some h, lu_updatedAt := su_nowIso su\<rparr>)
                                           (\<lambda>u. ok_response 200 (JObj [(''ok'', JBool True)])) st))))"

section \<open>Single sign-on\<close>

definition ssoPerIpLimiter :: RateLimitConfig where
  "ssoPerIpLimiter = \<lparr>rl_capacity = 10, rl_refillPerSec = 1\<rparr>"

text \<open>\<open>ssoRateLimit\<close> before the rest of a handler.\<close>

definition sso_limited ::
  "surroundings \<Rightarrow> AppRequest \<Rightarrow> api_state \<Rightarrow> (api_state \<Rightarrow> (route_error + AppResponse) \<times> api_state) \<Rightarrow>
   (route_error + AppResponse) \<times> api_state"
where
  "sso_limited su request st k =
     (let ip = nullish (clientIp (rq_headers request)) ''unknown'';
          (decision, bs) = consume ssoPerIpLimiter (''sso:'' @ ip) (su_nowMs su) (st_ssoBuckets st);
          st' = st\<lparr>st_ssoBuckets := bs\<rparr>
      in if dc_allowed decision then k st'
         else (Inr \<lparr>rsp_status = 429,
                 rsp_body = JObj [(''error'', JStr ''rate_limited''), (''scope'', JStr ''ip''), (''retryAfterSec'', jint (dc_retryAfterSec decision))],
                 rsp_headers = [(''retry-after'', int_str (dc_retryAfterSec decision))]\<rparr>, st'))"

definition SSO_STATE_TTL_MS :: int where
  "SSO_STATE_TTL_MS = 600000"

definition findIdp :: "IdentityProviderRow rows \<Rightarrow> string \<Rightarrow> IdentityProviderRow option" where
  "findIdp rs slug = find (\<lambda>r. ip_slug r = slug) (crud_list rs)"

definition sso_providers :: handler where
  "sso_providers request params ap st = (Inr (ok_response 200 (JObj [(''providers'', JArr (map
     (\<lambda>p. JObj [(''slug'', JStr (ip_slug p)), (''kind'', JStr (ip_kind p)), (''displayName'', JStr (ip_displayName p))])
     (filter ip_enabled (crud_list (st_idps st)))))])), st)"

definition requestOrigin :: "AppRequest \<Rightarrow> string" where
  "requestOrigin request =
     (let proto = nullish (headerValue (rq_headers request) ''x-forwarded-proto'') ''http'';
          host = nullish (nullish_opt (headerValue (rq_headers request) ''x-forwarded-host'') (headerValue (rq_headers request) ''host''))
            ''localhost:3001''
      in proto @ ''://'' @ host)"

fun js_String :: "json \<Rightarrow> string" where
  "js_String JUndef = ''undefined''"
| "js_String JNull = ''null''"
| "js_String (JBool b) = (if b then ''true'' else ''false'')"
| "js_String (JNum n) = num_str n"
| "js_String (JStr s) = s"
| "js_String (JArr vs) = js_join '','' (map (\<lambda>v. if v = JUndef \<or> v = JNull then [] else js_String v) vs)"
| "js_String (JObj kvs) = ''[object Object]''"

definition callback_url :: "AppRequest \<Rightarrow> IdentityProviderRow \<Rightarrow> string" where
  "callback_url request row =
     (let v = obj_get (ip_config row) ''callbackUrl''; s = js_String (if v = JUndef \<or> v = JNull then JStr [] else v)
      in if s \<noteq> [] then s else requestOrigin request @ ''/api/auth/sso/'' @ ip_slug row @ ''/callback'')"

definition sso_start :: "api_deps \<Rightarrow> surroundings \<Rightarrow> handler" where
  "sso_start dp su request params ap st = sso_limited su request st (\<lambda>st1.
     (case findIdp (st_idps st1) (param params ''slug'') of
        None \<Rightarrow> respond_error 404 ''provider_not_found'' st1
      | Some row \<Rightarrow>
          if \<not> ip_enabled row then respond_error 404 ''provider_not_found'' st1
          else
            let redirectUri = callback_url request row; state = su_uuids su 0; nonce = su_uuids su 1;
                pending = \<lparr>ps_slug = ip_slug row, ps_nonce = nonce, ps_redirectUri = redirectUri, ps_at = su_nowMs su\<rparr>
            in (Inr \<lparr>rsp_status = 302, rsp_body = JUndef, rsp_headers = [(''location'', dp_authorizationUrl dp row redirectUri state nonce)]\<rparr>,
                st1\<lparr>st_sso := sso_set (su_nowMs su) state pending SSO_STATE_TTL_MS (st_sso st1)\<rparr>)))"

definition upper_char :: "char \<Rightarrow> char" where
  "upper_char c = (if is_lower c then char_of ((of_char c :: nat) - 32) else c)"

definition encodeURIComponent :: "string \<Rightarrow> string" where
  "encodeURIComponent s = concat (map (\<lambda>c.
     if is_alnum c \<or> c \<in> set ''-_.!~*()'' \<or> c = CHR 0x27 then [c]
     else concat (map (\<lambda>b. CHR ''%'' # map upper_char (byte_hex b)) (utf8_char c))) s)"

text \<open>\<open>base\<close> is the environment variable \<open>WEB_BASE_URL\<close>, or \<open>/\<close>.\<close>

definition webRedirect :: "string \<Rightarrow> string \<Rightarrow> AppResponse" where
  "webRedirect base token = \<lparr>rsp_status = 302, rsp_body = JUndef,
     rsp_headers = [(''location'', base @ (if CHR ''#'' \<in> set base then ''&'' else ''#'') @ ''access_token='' @ encodeURIComponent token)]\<rparr>"

definition completeSso ::
  "api_deps \<Rightarrow> surroundings \<Rightarrow> string option \<Rightarrow> string option \<Rightarrow> string option \<Rightarrow> api_state \<Rightarrow> (route_error + AppResponse) \<times> api_state"
where
  "completeSso dp su code saml state st =
     (case dp_accounts dp of
        None \<Rightarrow> respond_error 501 ''auth_not_configured'' st
      | Some d \<Rightarrow>
          let (pending, sso) = (if str_truthy state then sso_get (su_nowMs su) (the state) (st_sso st) else (None, st_sso st));
              st1 = st\<lparr>st_sso := sso\<rparr>
          in case pending of
               None \<Rightarrow> respond_error 400 ''sso_state_invalid'' st1
             | Some pnd \<Rightarrow>
                 if su_nowMs su - ps_at pnd > SSO_STATE_TTL_MS then respond_error 400 ''sso_state_invalid'' st1
                 else
                   let st2 = st1\<lparr>st_sso := sso_delete (the state) sso\<rparr>
                   in case findIdp (st_idps st2) (ps_slug pnd) of
                        None \<Rightarrow> respond_error 404 ''provider_not_found'' st2
                      | Some row \<Rightarrow>
                          if \<not> ip_enabled row then respond_error 404 ''provider_not_found'' st2
                          else if \<not> str_truthy code \<and> \<not> str_truthy saml then respond_error 400 ''missing_credentials'' st2
                          else (case dp_callback dp row pnd code saml of
                                  None \<Rightarrow> respond_error 401 ''sso_failed'' st2
                                | Some idn \<Rightarrow>
                                    (let (r, acc) = loginSso d su (ps_slug pnd) idn (st_accounts st2); st3 = st2\<lparr>st_accounts := acc\<rparr>
                                     in case r of
                                          Inr out \<Rightarrow> (Inr (webRedirect (dp_webBase dp) (oc_token out)), st3)
                                        | Inl Account_disabled \<Rightarrow> respond_error 403 ''account_disabled'' st3
                                        | Inl (Repository_error e) \<Rightarrow> (Inl (repo_exception e), st3)
                                        | Inl e \<Rightarrow> (Inl Route_failed, st3))))"

definition sso_callback_get :: "api_deps \<Rightarrow> surroundings \<Rightarrow> handler" where
  "sso_callback_get dp su request params ap st = sso_limited su request st
     (completeSso dp su (map_of (rq_query request) ''code'') None (map_of (rq_query request) ''state''))"

definition sso_callback_post :: "api_deps \<Rightarrow> surroundings \<Rightarrow> handler" where
  "sso_callback_post dp su request params ap st = sso_limited su request st
     (let body = rq_body request; saml = opt_str (member body ''SAMLResponse'')
      in completeSso dp su (nullish_opt (opt_str (member body ''code'')) (map_of (rq_query request) ''code'')) saml
           (nullish_opt (map_of (rq_query request) ''state'') (if saml = None then None else opt_str (member body ''RelayState''))))"

section \<open>Roles\<close>

definition ALL_ROLES :: "string list" where
  "ALL_ROLES = map fst DEFAULT_ROLE_PERMISSIONS"

definition findRole :: "RoleRow rows \<Rightarrow> string \<Rightarrow> RoleRow option" where
  "findRole rs name = find (\<lambda>r. ro_name r = name) (crud_list rs)"

definition roles_list :: handler where
  "roles_list request params ap st = guarded ap ''role:manage'' empty_resource st
     (let byRole = fold (\<lambda>row m. AList.update (rp_role row) (nullish (map_of m (rp_role row)) [] @ [rp_permission row]) m)
            (rb_rolePerms (st_rbac st)) [];
          custom = crud_list (st_roles st);
          names = js_set (ALL_ROLES @ map fst byRole @ map ro_name custom);
          role_json = (\<lambda>name. JObj [(''name'', JStr name), (''builtin'', JBool (name \<in> set ALL_ROLES)),
            (''description'', null_json (Option.bind (find (\<lambda>r. ro_name r = name) custom) ro_description)),
            (''permissions'', JArr (map JStr (nullish (map_of byRole name) (role_permissions name))))])
      in (Inr (ok_response 200 (JObj [(''roles'', JArr (map role_json names)), (''allPermissions'', JArr (map JStr ALL_PERMISSIONS))])), st))"

definition roles_create :: "surroundings \<Rightarrow> handler" where
  "roles_create su request params ap st = guarded ap ''role:manage'' empty_resource st
     (case opt_str (member (rq_body request) ''name'') of
        None \<Rightarrow> validation_failed st
      | Some name \<Rightarrow>
          if trim name = [] then validation_failed st
          else if findRole (st_roles st) name \<noteq> None then respond_error 409 ''conflict'' st
          else (case crud_create ro_id ''role'' \<lparr>ro_id = su_uuids su 0, ro_name = trim name,
                        ro_description = opt_str (member (rq_body request) ''description'')\<rparr> (st_roles st) of
                  Inl e \<Rightarrow> (Inl (repo_exception e), st)
                | Inr (r, rs) \<Rightarrow> (Inr (ok_response 201 (JObj [(''role'', JObj [(''id'', JStr (ro_id r)), (''name'', JStr (ro_name r)),
                      (''description'', null_json (ro_description r))])])), st\<lparr>st_roles := rs\<rparr>)))"

definition roles_set_permissions :: "api_deps \<Rightarrow> handler" where
  "roles_set_permissions dp request params ap st = guarded ap ''role:manage'' empty_resource st
     (case member (rq_body request) ''permissions'' of
        JArr vs \<Rightarrow>
          (let perms = List.map_filter opt_str vs; name = param params ''name''
           in (Inr (ok_response 200 (JObj [(''role'', JStr name), (''permissions'', JArr (map JStr perms))])),
               invalidate_az dp None (upd_rbac (setRolePermissions name perms (st_rbac st)) st)))
      | _ \<Rightarrow> validation_failed st)"

definition roles_delete :: "api_deps \<Rightarrow> handler" where
  "roles_delete dp request params ap st = guarded ap ''role:manage'' empty_resource st
     (let name = param params ''name''
      in if name \<in> set ALL_ROLES then respond_error 409 ''conflict'' st
         else (case findRole (st_roles st) name of
                 None \<Rightarrow> respond_error 404 ''not_found'' st
               | Some existing \<Rightarrow>
                   let heldBy = filter (\<lambda>g. rg_role g = name) (rb_grants (st_rbac st))
                   in if \<not> parseForce request \<and> heldBy \<noteq> [] then (Inr (hasDependents [(''grants'', length heldBy)]), st)
                      else let rb = setRolePermissions name [] (fold (\<lambda>g. removeGrant (rg_id g)) heldBy (st_rbac st))
                        in (Inr no_content, invalidate_az dp None ((upd_rbac rb st)\<lparr>st_roles := crud_delete (ro_id existing) (st_roles st)\<rparr>))))"

section \<open>API keys\<close>

definition publicApiKey :: "api_deps \<Rightarrow> int \<Rightarrow> ApiKeyRecord \<Rightarrow> json" where
  "publicApiKey dp now r =
     (let expired = key_expired (dp_date_ms dp) now r
      in JObj [(''id'', JStr (ak_id r)), (''name'', JStr (ak_name r)), (''prefix'', JStr (ak_prefix r)),
        (''roles'', JArr (map JStr (ak_roles r))), (''tenantId'', null_json (ak_tenantId r)), (''environmentId'', null_json (ak_environmentId r)),
        (''scope'', JStr (scopeToString (no_scope\<lparr>si_tenantId := ak_tenantId r, si_environment := ak_environmentId r\<rparr>))),
        (''createdAt'', JStr (ak_createdAt r)), (''lastUsedAt'', null_json (ak_lastUsedAt r)), (''revokedAt'', null_json (ak_revokedAt r)),
        (''expiresAt'', null_json (ak_expiresAt r)),
        (''status'', JStr (if str_truthy (ak_revokedAt r) then ''revoked'' else if expired then ''expired'' else ''active''))])"

definition keys_list :: "api_deps \<Rightarrow> surroundings \<Rightarrow> handler" where
  "keys_list dp su request params ap st =
     (let p = ap_principal ap
      in if au_type p \<noteq> PK_user then respond_error 403 ''forbidden'' st
         else (Inr (ok_response 200 (JObj [(''apiKeys'', JArr (map (publicApiKey dp (su_nowMs su))
                (sort_by (\<lambda>a b. dp_collate dp (ak_createdAt b) (ak_createdAt a)) (listByPrincipal (st_keys st) (au_id p)))))])), st))"

text \<open>\<open>expiresAt\<close> of the body: \<open>Inl ()\<close> is a rejected one.\<close>

definition key_expiry :: "api_deps \<Rightarrow> int \<Rightarrow> json \<Rightarrow> unit + string option" where
  "key_expiry dp now v =
     (case v of
        JUndef \<Rightarrow> Inr None
      | JNull \<Rightarrow> Inr None
      | JStr s \<Rightarrow> (case dp_date_ms dp s of
                     None \<Rightarrow> Inl ()
                   | Some t \<Rightarrow> if t \<le> now then Inl () else Inr (Some (dp_iso dp t)))
      | _ \<Rightarrow> Inl ())"

text \<open>The cap: the first permission of the role the creator lacks.\<close>

fun enforce_all :: "api_principal \<Rightarrow> Resource \<Rightarrow> string list \<Rightarrow> string option" where
  "enforce_all ap r [] = None"
| "enforce_all ap r (permission # ps) =
     (case enforce (ap_authorize ap) (ap_principal ap) permission r of
        Inl (Missing_permission p) \<Rightarrow> Some p
      | Inr _ \<Rightarrow> enforce_all ap r ps)"

definition keys_create :: "api_deps \<Rightarrow> surroundings \<Rightarrow> handler" where
  "keys_create dp su request params ap st =
     (let p = ap_principal ap; body = rq_body request
      in if au_type p \<noteq> PK_user then respond_error 403 ''forbidden'' st
         else (case (opt_str (member body ''name''), opt_str (member body ''role'')) of
           (Some name, Some role) \<Rightarrow>
             if trim name = [] \<or> role = [] then validation_failed st
             else
               let tenantId = (if str_truthy (opt_str (member body ''tenantId'')) then opt_str (member body ''tenantId'') else None);
                   environmentId = (if str_truthy (opt_str (member body ''environmentId''))
                     then map_option trim (opt_str (member body ''environmentId'')) else None);
                   catalog = effectiveCatalog (st_rbac st)
               in (case key_expiry dp (su_nowMs su) (member body ''expiresAt'') of
                     Inl _ \<Rightarrow> validation_failed st
                   | Inr expiresAt \<Rightarrow>
                       (case map_of catalog role of
                          None \<Rightarrow> validation_failed st
                        | Some permissions \<Rightarrow>
                            if tenantId \<noteq> None \<and> the tenantId \<notin> set (st_tenants st) then validation_failed st
                            else if str_truthy environmentId \<and>
                              (tenantId = None \<or> (the tenantId, the environmentId) \<notin> set (st_environments st)) then validation_failed st
                            else (case enforce_all ap
                                     (scopeResource (scopeToString (no_scope\<lparr>si_tenantId := tenantId, si_environment := environmentId\<rparr>))) permissions of
                                    Some missing \<Rightarrow> (Inl (Route_forbidden missing), st)
                                  | None \<Rightarrow>
                                      (let ((i, plaintext, rec), keys) = key_issue (dp_sha256 dp) (su_bytes su 0) (su_bytes su 1) (su_bytes su 2)
                                             (su_nowIso su) \<lparr>ik_principalId = au_id p, ik_tenantId = tenantId, ik_environmentId = environmentId,
                                               ik_name = trim name, ik_roles = [role], ik_expiresAt = expiresAt\<rparr> (st_keys st)
                                       in (Inr (ok_response 201 (JObj [(''apiKey'', publicApiKey dp (su_nowMs su) rec), (''plaintext'', JStr plaintext)])),
                                           st\<lparr>st_keys := keys\<rparr>)))))
         | _ \<Rightarrow> validation_failed st))"

definition keys_delete :: "surroundings \<Rightarrow> handler" where
  "keys_delete su request params ap st =
     (let p = ap_principal ap
      in if au_type p \<noteq> PK_user then respond_error 403 ''forbidden'' st
         else (case find (\<lambda>k. ak_id k = param params ''id'') (listByPrincipal (st_keys st) (au_id p)) of
                 None \<Rightarrow> respond_error 404 ''not_found'' st
               | Some target \<Rightarrow> (Inr no_content, st\<lparr>st_keys := key_revoke (su_nowIso su) (ak_id target) (st_keys st)\<rparr>)))"

section \<open>Settings and identity providers\<close>

fun mode_str :: "SignupMode \<Rightarrow> string" where
  "mode_str Admin_only = ''admin_only''"
| "mode_str Open_default_role = ''open_default_role''"
| "mode_str Open_no_access = ''open_no_access''"

definition settings_json :: "AuthSettings \<Rightarrow> json" where
  "settings_json s = JObj [(''signupMode'', JStr (mode_str (as_signupMode s))), (''defaultRole'', null_json (as_defaultRole s)),
     (''updatedAt'', JStr (as_updatedAt s))]"

definition get_settings :: handler where
  "get_settings request params ap st = guarded ap ''auth:settings'' empty_resource st
     (Inr (ok_response 200 (JObj [(''settings'', settings_json (ac_settings (st_accounts st)))])), st)"

definition put_settings :: "surroundings \<Rightarrow> handler" where
  "put_settings su request params ap st = guarded ap ''auth:settings'' empty_resource st
     (let body = rq_body request
      in case find (\<lambda>m. member body ''signupMode'' = JStr (mode_str m)) [Admin_only, Open_default_role, Open_no_access] of
           None \<Rightarrow> validation_failed st
         | Some mode \<Rightarrow>
             (let saved = settings_set (su_nowIso su)
                    \<lparr>as_signupMode = mode, as_defaultRole = opt_str (member body ''defaultRole''), as_updatedAt = su_nowIso su\<rparr>
              in (Inr (ok_response 200 (JObj [(''settings'', settings_json saved)])),
                  st\<lparr>st_accounts := (st_accounts st)\<lparr>ac_settings := saved\<rparr>\<rparr>)))"

definition idp_secrets :: "string list" where
  "idp_secrets = [''clientSecret'', ''spPrivateKey'', ''privateKey'']"

definition redact_config :: "(string \<times> json) list \<Rightarrow> (string \<times> json) list" where
  "redact_config cfg = map (\<lambda>(k, v). (k, if k \<in> set idp_secrets then JStr ''REDACTED'' else v)) cfg"

definition publicIdp :: "IdentityProviderRow \<Rightarrow> json" where
  "publicIdp p = JObj [(''id'', JStr (ip_id p)), (''slug'', JStr (ip_slug p)), (''kind'', JStr (ip_kind p)),
     (''displayName'', JStr (ip_displayName p)), (''enabled'', JBool (ip_enabled p)), (''config'', JObj (redact_config (ip_config p)))]"

definition idps_list :: handler where
  "idps_list request params ap st = guarded ap ''idp:manage'' empty_resource st
     (Inr (ok_response 200 (JObj [(''providers'', JArr (map publicIdp (crud_list (st_idps st))))])), st)"

fun members :: "json \<Rightarrow> (string \<times> json) list" where
  "members (JObj kvs) = kvs"
| "members v = []"

definition idps_create :: "surroundings \<Rightarrow> handler" where
  "idps_create su request params ap st = guarded ap ''idp:manage'' empty_resource st
     (let body = rq_body request
      in case (opt_str (member body ''slug''), opt_str (member body ''kind''), opt_str (member body ''displayName'')) of
           (Some slug, Some kind, Some displayName) \<Rightarrow>
             if kind \<noteq> ''oidc'' \<and> kind \<noteq> ''saml'' then validation_failed st
             else if findIdp (st_idps st) slug \<noteq> None then respond_error 409 ''conflict'' st
             else (case crud_create ip_id ''identity_provider'' \<lparr>ip_id = nullish (opt_str (member body ''id'')) (su_uuids su 0), ip_slug = slug,
                         ip_kind = kind, ip_displayName = displayName, ip_enabled = (member body ''enabled'' \<noteq> JBool False),
                         ip_config = members (member body ''config''), ip_createdAt = su_nowIso su, ip_updatedAt = su_nowIso su\<rparr> (st_idps st) of
                     Inl e \<Rightarrow> (Inl (repo_exception e), st)
                   | Inr (r, rs) \<Rightarrow> (Inr (ok_response 201 (JObj [(''provider'', publicIdp r)])), st\<lparr>st_idps := rs\<rparr>))
         | _ \<Rightarrow> validation_failed st)"

text \<open>A member with the placeholder leaves the stored one as it is.\<close>

definition merge_config :: "(string \<times> json) list \<Rightarrow> (string \<times> json) list \<Rightarrow> (string \<times> json) list" where
  "merge_config stored given = fold (\<lambda>(k, v) cfg. if v = JStr ''REDACTED'' then cfg else obj_set k v cfg) given stored"

definition patch_idp :: "json \<Rightarrow> string \<Rightarrow> IdentityProviderRow \<Rightarrow> IdentityProviderRow" where
  "patch_idp body now r =
     (let r1 = r\<lparr>ip_updatedAt := now\<rparr>;
          r2 = (case member body ''displayName'' of JStr s \<Rightarrow> r1\<lparr>ip_displayName := s\<rparr> | _ \<Rightarrow> r1);
          r3 = (case member body ''enabled'' of JBool b \<Rightarrow> r2\<lparr>ip_enabled := b\<rparr> | _ \<Rightarrow> r2)
      in (case member body ''config'' of JObj kvs \<Rightarrow> r3\<lparr>ip_config := merge_config (ip_config r) kvs\<rparr> | _ \<Rightarrow> r3))"

definition idps_update :: "surroundings \<Rightarrow> handler" where
  "idps_update su request params ap st = guarded ap ''idp:manage'' empty_resource st
     (let i = param params ''id''
      in if crud_get (st_idps st) i = None then respond_error 404 ''not_found'' st
         else if \<not> isObject (rq_body request) then validation_failed st
         else (case crud_update (\<lambda>i r. r\<lparr>ip_id := i\<rparr>) ''identity_provider'' i (patch_idp (rq_body request) (su_nowIso su)) (st_idps st) of
                 Inl e \<Rightarrow> (Inl (repo_exception e), st)
               | Inr (r, rs) \<Rightarrow> (Inr (ok_response 200 (JObj [(''provider'', publicIdp r)])), st\<lparr>st_idps := rs\<rparr>)))"

definition idps_delete :: handler where
  "idps_delete request params ap st = guarded ap ''idp:manage'' empty_resource st
     (let i = param params ''id''
      in if crud_get (st_idps st) i = None then respond_error 404 ''not_found'' st
         else (Inr no_content, st\<lparr>st_idps := crud_delete i (st_idps st)\<rparr>))"

end
