(* ===== verification/Account_Api.thy ===== *)
theory Account_Api
  imports Account_Routes
begin

text \<open>
  The account and access part of the HTTP API as one system: its route table in the order
  \<open>apps/api/src/app.ts\<close> registers it, the resolver of credentials the server wires
  (\<open>apps/api/src/server.ts\<close>), requests through the frame of \<open>Api_Core\<close>, and the properties of
  histories of requests.
\<close>

section \<open>The route table\<close>

definition account_routes :: "api_deps \<Rightarrow> surroundings \<Rightarrow> (string \<times> string \<times> handler) list" where
  "account_routes dp su = [
     (''POST'', ''/api/auth/login'', post_login dp su),
     (''POST'', ''/api/auth/signup'', post_signup dp su),
     (''POST'', ''/api/auth/logout'', post_logout dp su),
     (''GET'', ''/api/auth/me'', get_me),
     (''PATCH'', ''/api/auth/me'', patch_me su),
     (''POST'', ''/api/auth/password'', post_password dp su),
     (''GET'', ''/api/api-keys'', keys_list dp su),
     (''POST'', ''/api/api-keys'', keys_create dp su),
     (''DELETE'', ''/api/api-keys/:id'', keys_delete su),
     (''GET'', ''/api/auth/providers'', sso_providers),
     (''GET'', ''/api/auth/sso/:slug/start'', sso_start dp su),
     (''GET'', ''/api/auth/sso/:slug/callback'', sso_callback_get dp su),
     (''POST'', ''/api/auth/sso/:slug/callback'', sso_callback_post dp su),
     (''GET'', ''/api/users'', users_list),
     (''POST'', ''/api/users'', users_create dp su),
     (''PATCH'', ''/api/users/:id'', users_patch dp su),
     (''DELETE'', ''/api/users/:id'', users_delete dp),
     (''GET'', ''/api/users/:id/grants'', user_grants_list),
     (''POST'', ''/api/users/:id/grants'', user_grant_add dp su),
     (''DELETE'', ''/api/users/:id/grants/:grantId'', user_grant_remove dp),
     (''GET'', ''/api/roles'', roles_list),
     (''POST'', ''/api/roles'', roles_create su),
     (''PUT'', ''/api/roles/:name/permissions'', roles_set_permissions dp),
     (''DELETE'', ''/api/roles/:name'', roles_delete dp),
     (''GET'', ''/api/identity-providers'', idps_list),
     (''POST'', ''/api/identity-providers'', idps_create su),
     (''PUT'', ''/api/identity-providers/:id'', idps_update su),
     (''DELETE'', ''/api/identity-providers/:id'', idps_delete),
     (''GET'', ''/api/auth/settings'', get_settings),
     (''PUT'', ''/api/auth/settings'', put_settings su)]"

definition account_api :: "api_deps \<Rightarrow> surroundings \<Rightarrow> api_state api_handler list" where
  "account_api dp su = map (\<lambda>(mth, pattern, run).
     \<lparr>ah_route = \<lparr>rt_method = mth, rt_segments = compile pattern\<rparr>, ah_run = run\<rparr>) (account_routes dp su)"

section \<open>Credentials\<close>

text \<open>
  What the server tells the key service of the owner of a key: with Postgres the account and its grants, with the
  in-memory repositories nothing (\<open>dp_keyHooks\<close>).
\<close>

definition verify_hooks :: "api_deps \<Rightarrow> api_state \<Rightarrow> ApiKeyVerifyHooks" where
  "verify_hooks dp st = (if \<not> dp_keyHooks dp then \<lparr>hk_accountStatus = None, hk_currentRoles = None\<rparr> else \<lparr>hk_accountStatus = Some (\<lambda>i. map_option lu_status (crud_get (st_users st) i)),
     hk_currentRoles = Some (\<lambda>i. js_set (map rg_role (rbac_listGrantsForUser (st_rbac st) i)))\<rparr>)"

definition resolve_session :: "session_service \<Rightarrow> surroundings \<Rightarrow> string \<Rightarrow> api_state \<Rightarrow> (auth_error + auth_principal) \<times> api_state" where
  "resolve_session ss su credential st =
     (let (r, store) = session_verify ss (su_nowMs su) credential (st_revoked st) in (r, st\<lparr>st_revoked := store\<rparr>))"

definition resolve_key :: "api_deps \<Rightarrow> surroundings \<Rightarrow> string \<Rightarrow> api_state \<Rightarrow> (auth_error + auth_principal) \<times> api_state" where
  "resolve_key dp su credential st =
     (let (r, keys) = key_verify (dp_sha256 dp) (dp_date_ms dp) (verify_hooks dp st) (su_nowMs su) (su_nowIso su) credential (st_keys st)
      in (r, st\<lparr>st_keys := keys\<rparr>))"

definition resolve_request ::
  "session_service \<Rightarrow> api_deps \<Rightarrow> surroundings \<Rightarrow> headers \<Rightarrow> api_state \<Rightarrow> (auth_error + auth_principal) \<times> api_state"
where
  "resolve_request ss dp su hs =
     resolve_with (\<lambda>st. (Inl UnauthorizedError, st)) (Some (resolve_session ss su)) (Some (resolve_key dp su)) None hs"

section \<open>Serving a request\<close>

text \<open>
  The server as a state transformer.  \<open>sv_intercept\<close> is the gate of the platform plugins; the
  authorizer is wired.
\<close>

record server =
  sv_sessions :: session_service
  sv_deps :: api_deps
  sv_production :: bool
  sv_intercept :: "nat \<Rightarrow> AppRequest \<Rightarrow> (string, string) jsmap \<Rightarrow> api_principal \<Rightarrow> AppResponse option"

definition stored_policies :: "api_state \<Rightarrow> PolicyStore" where
  "stored_policies st = policy_store (st_rbac st)"

definition server_config :: "server \<Rightarrow> ApiConfig" where
  "server_config sv = \<lparr>cf_production = sv_production sv, cf_engine = BuiltinPolicyEngine, cf_wired = True\<rparr>"

definition api_env_of :: "server \<Rightarrow> surroundings \<Rightarrow> api_state api_env" where
  "api_env_of sv su = \<lparr>
     ae_config = server_config sv,
     ae_store = (\<lambda>st. Some (stored_policies st)), ae_az = st_az, ae_set_az = (\<lambda>az st. st\<lparr>st_az := az\<rparr>),
     ae_resolve = resolve_request (sv_sessions sv) (sv_deps sv) su, ae_intercept = sv_intercept sv\<rparr>"

definition serve :: "server \<Rightarrow> surroundings \<Rightarrow> AppRequest \<Rightarrow> api_state \<Rightarrow> (unit + AppResponse) \<times> api_state" where
  "serve sv su request st = handle (api_env_of sv su) (account_api (sv_deps sv) su) request st"

section \<open>Frames\<close>

definition keeps_policies :: "api_state \<Rightarrow> api_state \<Rightarrow> bool" where
  "keeps_policies st st' \<longleftrightarrow> st_rbac st' = st_rbac st \<and> st_az st' = st_az st"

text \<open>The caches of the authorizer hold what the policy store answers.\<close>

definition coherent_state :: "api_state \<Rightarrow> bool" where
  "coherent_state st \<longleftrightarrow> coherent (stored_policies st) (st_az st)"

lemma keeps_coherent: "keeps_policies st st' \<Longrightarrow> coherent_state st \<Longrightarrow> coherent_state st'"
  by (simp add: keeps_policies_def coherent_state_def stored_policies_def)

lemma keeps_policies_simps [simp]:
  "keeps_policies st st"
  "keeps_policies st (st\<lparr>st_keys := k\<rparr>)" "keeps_policies st (st\<lparr>st_revoked := v\<rparr>)" "keeps_policies st (st\<lparr>st_sso := s\<rparr>)"
  "keeps_policies st (st\<lparr>st_idps := i\<rparr>)" "keeps_policies st (st\<lparr>st_roles := r\<rparr>)" "keeps_policies st (st\<lparr>st_ssoBuckets := b\<rparr>)"
  "keeps_policies st (upd_users users st)"
  "keeps_policies st (st\<lparr>st_accounts := (st_accounts st)\<lparr>ac_settings := c\<rparr>\<rparr>)"
  by (simp_all add: keeps_policies_def upd_users_def)

section \<open>Writes to the policies\<close>

definition grant_ids :: "api_state \<Rightarrow> string list" where
  "grant_ids st = map rg_id (rb_grants (st_rbac st))"

text \<open>What every request preserves: coherent caches, and grants with ids of their own.\<close>

definition api_inv :: "api_state \<Rightarrow> bool" where
  "api_inv st \<longleftrightarrow> coherent_state st \<and> distinct (grant_ids st)"

definition fresh_grant :: "surroundings \<Rightarrow> api_state \<Rightarrow> bool" where
  "fresh_grant su st \<longleftrightarrow> su_uuids su 0 \<notin> set (grant_ids st) \<and> su_uuids su 1 \<notin> set (grant_ids st)"

definition fresh_user :: "surroundings \<Rightarrow> api_state \<Rightarrow> bool" where
  "fresh_user su st \<longleftrightarrow> map_of (az_grantCache (st_az st)) (su_uuids su 0) = None"

lemma keeps_inv: "keeps_policies st st' \<Longrightarrow> api_inv st \<Longrightarrow> api_inv st'"
  by (simp add: api_inv_def keeps_coherent) (simp add: keeps_policies_def grant_ids_def)

lemma writes_only_refl [simp]: "writes_only u store store" "writes_only None store store'"
  by (simp_all add: writes_only_def)

lemma writes_only_addGrant: "writes_only (Some (rg_userId row)) (policy_store rb) (policy_store (snd (addGrant row rb)))"
  by (auto simp: writes_only_def policy_store_def addGrant_def rbac_listGrantsForUser_def split: option.splits)

lemma writes_only_removeGrant:
  assumes "distinct (map rg_id (rb_grants rb))" "g \<in> set (rbac_listGrantsForUser rb u)"
  shows "writes_only (Some u) (policy_store rb) (policy_store (removeGrant (rg_id g) rb))"
proof -
  have own: "rg_userId h = u" if "h \<in> set (rb_grants rb)" "rg_id h = rg_id g" for h
    using assms that by (auto simp: rbac_listGrantsForUser_def distinct_map dest: inj_onD)
  have same: "rbac_listGrantsForUser (removeGrant (rg_id g) rb) v = rbac_listGrantsForUser rb v" if "v \<noteq> u" for v
  proof -
    have "filter (\<lambda>h. rg_userId h = v) (filter (\<lambda>h. rg_id h \<noteq> rg_id g) (rb_grants rb)) = filter (\<lambda>h. rg_userId h = v) (rb_grants rb)"
      unfolding filter_filter by (rule filter_cong) (use own that in auto)
    then show ?thesis by (simp add: rbac_listGrantsForUser_def removeGrant_def)
  qed
  show ?thesis by (auto simp: writes_only_def policy_store_def same)
qed

lemma addGrant_ids:
  "distinct (map rg_id (rb_grants rb)) \<Longrightarrow> rg_id row \<notin> rg_id ` set (rb_grants rb) \<Longrightarrow>
   distinct (map rg_id (rb_grants (snd (addGrant row rb))))"
  by (auto simp: addGrant_def split: option.split)

lemma setRolePermissions_grants [simp]: "rb_grants (setRolePermissions role ps rb) = rb_grants rb"
  by (simp add: setRolePermissions_def)

lemma removeGrant_ids: "distinct (map rg_id (rb_grants rb)) \<Longrightarrow> distinct (map rg_id (rb_grants (removeGrant i rb)))"
  by (simp add: removeGrant_def distinct_map_filter)

lemma removeGrants_ids:
  "distinct (map rg_id (rb_grants rb)) \<Longrightarrow> distinct (map rg_id (rb_grants (fold (\<lambda>g. removeGrant (rg_id g)) gs rb)))"
  by (induction gs arbitrary: rb) (simp_all add: removeGrant_ids)

text \<open>A write followed by its invalidation.\<close>

lemma write_inv:
  assumes "api_inv st" "dp_wired dp" "writes_only u (policy_store (st_rbac st)) (policy_store rb)"
    "distinct (map rg_id (rb_grants rb))" "st_rbac st' = rb" "st_az st' = st_az st"
  shows "api_inv (invalidate_az dp u st')"
proof -
  have "coherent (policy_store rb) (invalidate u (st_az st))"
    by (rule invalidate_coherent [OF _ assms(3)]) (use assms(1) in \<open>simp add: api_inv_def coherent_state_def stored_policies_def\<close>)
  with assms show ?thesis
    by (simp add: api_inv_def invalidate_az_def coherent_state_def stored_policies_def grant_ids_def)
qed

lemma upd_simps [simp]:
  "st_rbac (upd_rbac rb st) = rb" "st_az (upd_rbac rb st) = st_az st" "st_rbac (upd_users us st) = st_rbac st"
  "st_az (upd_users us st) = st_az st"
  by (simp_all add: upd_rbac_def upd_users_def)

lemma guarded_inv: "api_inv st \<Longrightarrow> (api_inv (snd k)) \<Longrightarrow> api_inv (snd (guarded ap permission r st k))"
  by (auto simp: guarded_def split: sum.split AuthorizationError.split)

lemma guarded_keeps: "keeps_policies st (snd k) \<Longrightarrow> keeps_policies st (snd (guarded ap permission r st k))"
  by (auto simp: guarded_def split: sum.split AuthorizationError.split)

section \<open>Handlers that leave the policies alone\<close>

lemma write_user_keeps [simp]: "keeps_policies st (snd (write_user i patch response st))"
  by (simp add: write_user_def split: sum.split prod.split)

lemma respond_simps [simp]:
  "snd (respond_error status code st) = st" "snd (validation_failed st) = st"
  by (simp_all add: respond_error_def validation_failed_def)

text \<open>One rule for each construct of a handler.\<close>

named_theorems keeps

lemma keeps_constructs [keeps]:
  "keeps_policies st (snd x) \<Longrightarrow> keeps_policies st (snd y) \<Longrightarrow> keeps_policies st (snd (if b then x else y))"
  "keeps_policies st (snd n) \<Longrightarrow> (\<And>v. keeps_policies st (snd (f v))) \<Longrightarrow> keeps_policies st (snd (case a of None \<Rightarrow> n | Some v \<Rightarrow> f v))"
  "(\<And>e. keeps_policies st (snd (g e))) \<Longrightarrow> (\<And>v. keeps_policies st (snd (h v))) \<Longrightarrow>
     keeps_policies st (snd (case c of Inl e \<Rightarrow> g e | Inr v \<Rightarrow> h v))"
  "(\<And>x y. keeps_policies st (snd (p x y))) \<Longrightarrow> keeps_policies st (snd (case d of (x, y) \<Rightarrow> p x y))"
  "(\<And>v. keeps_policies st (snd (f v))) \<Longrightarrow> keeps_policies st (snd (let v = w in f v))"
  by (simp_all split: option.split sum.split prod.split)

lemmas [keeps] = guarded_keeps write_user_keeps

lemma users_keep:
  "keeps_policies st (snd (users_list request params ap st))"
  "keeps_policies st (snd (users_create dp su request params ap st))"
  "keeps_policies st (snd (users_patch dp su request params ap st))"
  "keeps_policies st (snd (user_grants_list request params ap st))"
  unfolding users_list_def users_create_def users_patch_def user_grants_list_def
  by ((intro keeps)?, simp_all)+

lemma session_keep:
  "keeps_policies st (snd (post_login dp su request params ap st))"
  "keeps_policies st (snd (post_logout dp su request params ap st))"
  "keeps_policies st (snd (get_me request params ap st))"
  "keeps_policies st (snd (patch_me su request params ap st))"
  "keeps_policies st (snd (post_password dp su request params ap st))"
proof -
  show "keeps_policies st (snd (post_login dp su request params ap st))"
    unfolding post_login_def by (intro keeps) (simp_all split: account_error.split)
  show "keeps_policies st (snd (post_password dp su request params ap st))"
    unfolding post_password_def by (intro keeps) (simp_all split: account_error.split)
  show "keeps_policies st (snd (post_logout dp su request params ap st))"
    unfolding post_logout_def by (intro keeps) simp_all
  show "keeps_policies st (snd (get_me request params ap st))"
    unfolding get_me_def by (intro keeps) simp_all
  show "keeps_policies st (snd (patch_me su request params ap st))"
    unfolding patch_me_def by (intro keeps) simp_all
qed

lemma keys_keep:
  "keeps_policies st (snd (keys_list dp su request params ap st))"
  "keeps_policies st (snd (keys_create dp su request params ap st))"
  "keeps_policies st (snd (keys_delete su request params ap st))"
proof -
  show "keeps_policies st (snd (keys_create dp su request params ap st))"
    unfolding keys_create_def by (intro keeps) (simp_all split: prod.split)
  show "keeps_policies st (snd (keys_delete su request params ap st))"
    unfolding keys_delete_def by (intro keeps) simp_all
qed (simp add: keys_list_def Let_def)

lemma settings_keep:
  "keeps_policies st (snd (roles_list request params ap st))"
  "keeps_policies st (snd (roles_create su request params ap st))"
  "keeps_policies st (snd (get_settings request params ap st))"
  "keeps_policies st (snd (put_settings su request params ap st))"
  "keeps_policies st (snd (idps_list request params ap st))"
  "keeps_policies st (snd (idps_create su request params ap st))"
  "keeps_policies st (snd (idps_update su request params ap st))"
  "keeps_policies st (snd (idps_delete request params ap st))"
  unfolding roles_list_def roles_create_def get_settings_def put_settings_def idps_list_def idps_create_def idps_update_def idps_delete_def
  by ((intro keeps)?, simp_all)+

lemma sso_keep:
  "keeps_policies st (snd (sso_providers request params ap st))"
  "keeps_policies st (snd (sso_start dp su request params ap st))"
  by (simp_all add: sso_providers_def sso_start_def sso_limited_def keeps_policies_def Let_def split: prod.split option.split)

section \<open>Handlers that write the policies\<close>

lemma user_grant_add_inv:
  assumes "api_inv st" "dp_wired dp" "fresh_grant su st"
  shows "api_inv (snd (user_grant_add dp su request params ap st))"
proof -
  have "api_inv (invalidate_az dp (Some i) (upd_rbac rb st))"
    if "addGrant \<lparr>rg_id = su_uuids su 0, rg_userId = i, rg_role = role, rg_scope = scope, rg_createdAt = now\<rparr> (st_rbac st) = (created, rb)"
    for i role scope now created rb
  proof (rule write_inv [OF assms(1,2)])
    show "writes_only (Some i) (policy_store (st_rbac st)) (policy_store rb)"
      using writes_only_addGrant [of "\<lparr>rg_id = su_uuids su 0, rg_userId = i, rg_role = role, rg_scope = scope, rg_createdAt = now\<rparr>" "st_rbac st"]
      by (simp add: that)
    show "distinct (map rg_id (rb_grants rb))"
      using addGrant_ids [of "st_rbac st" "\<lparr>rg_id = su_uuids su 0, rg_userId = i, rg_role = role, rg_scope = scope, rg_createdAt = now\<rparr>"] assms(1,3)
      by (simp add: that api_inv_def fresh_grant_def grant_ids_def)
  qed simp_all
  with assms(1) show ?thesis
    by (auto simp: user_grant_add_def Let_def intro!: guarded_inv split: option.split prod.split)
qed

lemma user_grant_remove_inv:
  assumes "api_inv st" "dp_wired dp"
  shows "api_inv (snd (user_grant_remove dp request params ap st))"
proof -
  have "api_inv (invalidate_az dp (Some i) (upd_rbac (removeGrant k (st_rbac st)) st))"
    if "find (\<lambda>g. rg_id g = k) (rbac_listGrantsForUser (st_rbac st) i) = Some g" for i k g
  proof (rule write_inv [OF assms])
    from that have "g \<in> set (rbac_listGrantsForUser (st_rbac st) i)" "k = rg_id g" by (auto simp: find_Some_iff)
    then show "writes_only (Some i) (policy_store (st_rbac st)) (policy_store (removeGrant k (st_rbac st)))"
      using assms(1) writes_only_removeGrant by (simp add: api_inv_def grant_ids_def)
    show "distinct (map rg_id (rb_grants (removeGrant k (st_rbac st))))"
      using assms(1) by (simp add: api_inv_def grant_ids_def removeGrant_ids)
  qed simp_all
  with assms(1) show ?thesis
    by (auto simp: user_grant_remove_def Let_def intro!: guarded_inv split: option.split)
qed

lemma users_delete_inv:
  assumes "api_inv st" "dp_wired dp"
  shows "api_inv (snd (users_delete dp request params ap st))"
proof -
  have "api_inv (invalidate_az dp u (upd_users us st))" for u us
    by (rule write_inv [OF assms writes_only_refl(1)]) (use assms(1) in \<open>simp_all add: api_inv_def grant_ids_def\<close>)
  with assms(1) show ?thesis by (auto simp: users_delete_def Let_def intro!: guarded_inv)
qed

lemma roles_set_permissions_inv:
  assumes "api_inv st" "dp_wired dp"
  shows "api_inv (snd (roles_set_permissions dp request params ap st))"
proof -
  have "api_inv (invalidate_az dp None (upd_rbac (setRolePermissions role ps (st_rbac st)) st))" for role ps
    by (rule write_inv [OF assms writes_only_refl(2)]) (use assms(1) in \<open>simp_all add: api_inv_def grant_ids_def\<close>)
  with assms(1) show ?thesis
    by (auto simp: roles_set_permissions_def Let_def intro!: guarded_inv split: json.split)
qed

lemma roles_delete_inv:
  assumes "api_inv st" "dp_wired dp"
  shows "api_inv (snd (roles_delete dp request params ap st))"
proof -
  have w: "api_inv (invalidate_az dp None ((upd_rbac (setRolePermissions role ps (fold (\<lambda>g. removeGrant (rg_id g)) gs (st_rbac st))) st)\<lparr>st_roles := rs\<rparr>))"
    for role ps gs rs
    by (rule write_inv [OF assms writes_only_refl(2)]) (use assms(1) in \<open>simp_all add: api_inv_def grant_ids_def removeGrants_ids\<close>)
  have w0: "api_inv (invalidate_az dp None ((upd_rbac (setRolePermissions role ps (st_rbac st)) st)\<lparr>st_roles := rs\<rparr>))"
    for role ps rs using w [of rs role ps "[]"] by simp
  with w assms(1) show ?thesis
    by (auto simp: roles_delete_def Let_def intro!: guarded_inv split: option.split)
qed

text \<open>A signup is a write without an invalidation: it needs none, because nothing is cached for the new account.\<close>

lemma default_grant_rbac:
  "rb_rolePerms (ac_rbac (default_grant g u now st)) = rb_rolePerms (ac_rbac st)"
  "distinct (map rg_id (rb_grants (ac_rbac st))) \<Longrightarrow> g \<notin> rg_id ` set (rb_grants (ac_rbac st)) \<Longrightarrow>
   distinct (map rg_id (rb_grants (ac_rbac (default_grant g u now st))))"
  by (simp_all add: default_grant_def addGrant_ids) (simp add: addGrant_def split: option.split)

lemma created_inv:
  assumes "api_inv st" "fresh_grant su st" "fresh_user su st" "created_only su (st_accounts st) acc" "st_accounts st' = acc"
    "st_az st' = st_az st"
  shows "api_inv st'"
  using assms(4)
proof (cases rule: created_only_cases)
  case kept
  with assms show ?thesis by (auto simp: keeps_policies_def intro!: keeps_inv [OF _ assms(1)])
next
  case (new u now)
  have perms: "listRolePermissions (stored_policies st') = listRolePermissions (stored_policies st)"
    by (simp add: stored_policies_def policy_store_def assms(5) new(3) default_grant_rbac)
  then have cat: "live_catalog (stored_policies st') = live_catalog (stored_policies st)"
    by (simp add: live_catalog_def loadCatalog_def new_authorizer_def catalog_rows_def)
  have grants: "live_grants (stored_policies st') i = live_grants (stored_policies st) i" if "i \<noteq> su_uuids su 0" for i
    using that by (simp add: live_grants_def stored_policies_def policy_store_def assms(5) new(3) default_grant_other)
  have "coherent_state st'"
    using assms(1,3) unfolding api_inv_def coherent_state_def coherent_def fresh_user_def cat assms(6)
    by (metis grants option.distinct(1))
  moreover have "distinct (grant_ids st')"
    using assms(1,2) by (simp add: grant_ids_def api_inv_def fresh_grant_def assms(5) new(3) default_grant_rbac)
  ultimately show ?thesis by (simp add: api_inv_def)
qed

lemma inv_constructs:
  "api_inv (snd x) \<Longrightarrow> api_inv (snd y) \<Longrightarrow> api_inv (snd (if b then x else y))"
  "(a = None \<Longrightarrow> api_inv (snd n)) \<Longrightarrow> (\<And>v. a = Some v \<Longrightarrow> api_inv (snd (f v))) \<Longrightarrow>
     api_inv (snd (case a of None \<Rightarrow> n | Some v \<Rightarrow> f v))"
  "(\<And>e. c = Inl e \<Longrightarrow> api_inv (snd (g e))) \<Longrightarrow> (\<And>v. c = Inr v \<Longrightarrow> api_inv (snd (h v))) \<Longrightarrow>
     api_inv (snd (case c of Inl e \<Rightarrow> g e | Inr v \<Rightarrow> h v))"
  "api_inv (snd x) \<Longrightarrow> api_inv (snd y) \<Longrightarrow> api_inv (snd (case b of True \<Rightarrow> x | False \<Rightarrow> y))"
  "(\<And>x y. d = (x, y) \<Longrightarrow> api_inv (snd (p x y))) \<Longrightarrow> api_inv (snd (case d of (x, y) \<Rightarrow> p x y))"
  "(\<And>v. v = w \<Longrightarrow> api_inv (snd (f' v))) \<Longrightarrow> api_inv (snd (let v = w in f' v))"
  by (simp_all split: option.split sum.split prod.split bool.split)

lemma post_signup_inv:
  assumes "api_inv st" "fresh_grant su st" "fresh_user su st"
  shows "api_inv (snd (post_signup dp su request params ap st))"
proof -
  have signup: "api_inv (st\<lparr>st_accounts := acc\<rparr>)" if "signupLocal d su email password name (st_accounts st) = (r, acc)" for d email password name r acc
    by (rule created_inv [OF assms signupLocal_created [OF that]]) simp_all
  show ?thesis
    unfolding post_signup_def by (intro inv_constructs) (use assms(1) in \<open>auto intro: signup [OF sym] split: account_error.split\<close>)
qed

lemma completeSso_inv:
  assumes "api_inv st" "fresh_grant su st" "fresh_user su st"
  shows "api_inv (snd (completeSso dp su code saml state st))"
proof -
  have keep: "api_inv (st\<lparr>st_sso := sso\<rparr>)" for sso by (rule keeps_inv [OF _ assms(1)]) simp
  have login: "api_inv (st\<lparr>st_sso := sso, st_accounts := acc\<rparr>)"
    if "loginSso d su slug idn (st_accounts st) = (r, acc)" for d slug idn r acc sso
    by (rule created_inv [OF assms loginSso_created [OF that]]) simp_all
  show ?thesis
    unfolding completeSso_def by (intro inv_constructs) (use assms(1) in \<open>auto simp: keep intro: login [OF sym] split: account_error.split\<close>)
qed

lemma sso_callback_inv:
  assumes "api_inv st" "fresh_grant su st" "fresh_user su st"
  shows "api_inv (snd (sso_callback_get dp su request params ap st))" "api_inv (snd (sso_callback_post dp su request params ap st))"
proof -
  have "api_inv (st\<lparr>st_ssoBuckets := bs\<rparr>)" "fresh_grant su (st\<lparr>st_ssoBuckets := bs\<rparr>)" "fresh_user su (st\<lparr>st_ssoBuckets := bs\<rparr>)" for bs
    using assms keeps_inv [OF keeps_policies_simps(7) assms(1)] by (simp_all add: fresh_grant_def grant_ids_def fresh_user_def)
  then have limited: "api_inv (snd (sso_limited su request st (completeSso dp su code saml state)))" for code saml state
    by (simp add: sso_limited_def Let_def completeSso_inv split: prod.split)
  show "api_inv (snd (sso_callback_get dp su request params ap st))" "api_inv (snd (sso_callback_post dp su request params ap st))"
    by (simp_all only: sso_callback_get_def sso_callback_post_def Let_def limited)
qed

section \<open>Every handler\<close>

lemmas route_inv = users_keep [THEN keeps_inv] session_keep [THEN keeps_inv] keys_keep [THEN keeps_inv]
  settings_keep [THEN keeps_inv] sso_keep [THEN keeps_inv] user_grant_add_inv user_grant_remove_inv users_delete_inv
  roles_set_permissions_inv roles_delete_inv post_signup_inv sso_callback_inv

lemma handler_inv:
  assumes inv: "api_inv st" and "dp_wired dp" "fresh_grant su st" "fresh_user su st" "h \<in> set (account_api dp su)"
  shows "api_inv (snd (ah_run h request params ap st))"
proof -
  have "list_all (\<lambda>(mth, pattern, run). api_inv (snd (run request params ap st))) (account_routes dp su)"
    unfolding account_routes_def list.pred_inject prod.case
    by (intro conjI list.pred_inject(1) TrueI; (rule route_inv; rule assms)?)
  with assms(5) show ?thesis by (auto simp: account_api_def list_all_iff)
qed

section \<open>Every request\<close>

lemma resolve_keeps: "keeps_policies st (snd (resolve_request ss dp su hs st))"
  by (simp add: resolve_request_def resolve_with_def resolve_session_def resolve_key_def Let_def split: prod.split)

lemma attach_coherent:
  assumes "coherent store az" "cf_engine cfg = BuiltinPolicyEngine"
  shows "coherent store (snd (attach_closure cfg (Some store) hs p az))"
proof -
  have "coherent store (snd (authorizeClosure BuiltinPolicyEngine (Some store) d q az))" for d q by (rule closure_coherent [OF assms(1)])
  then show ?thesis
    using grantsFor_coherent(1) assms(1) by (auto simp: attach_closure_def assms(2) Let_def split_beta)
qed

lemma closure_cache:
  assumes "map_of (az_grantCache az) k = None" "ap_id q \<noteq> k"
  shows "map_of (az_grantCache (snd (authorizeClosure BuiltinPolicyEngine store d q az))) k = None"
    "map_of (az_grantCache (snd (grantsFor store q az))) k = None"
proof -
  have g: "map_of (az_grantCache (snd (grantsFor store q a))) k = None" if "map_of (az_grantCache a) k = None" for a
    using that assms(2) by (simp add: grantsFor_def grants_fill_def Let_def update_conv split: option.split)
  have o: "map_of (az_grantCache (snd (ownerLiveGrants store (ap_id q) a))) k = None" if "map_of (az_grantCache a) k = None" for a
    using that assms(2) by (simp add: ownerLiveGrants_def Let_def update_conv split: option.split)
  have "map_of (az_grantCache (snd (loadCatalog store az))) k = None"
    using assms(1) by (simp add: loadCatalog_def Let_def split: option.split)
  then show "map_of (az_grantCache (snd (authorizeClosure BuiltinPolicyEngine store d q az))) k = None"
    by (simp add: builtin.closure_state Let_def g o)
  show "map_of (az_grantCache (snd (grantsFor store q az))) k = None" by (rule g [OF assms(1)])
qed

lemma attach_cache:
  assumes "map_of (az_grantCache az) k = None" "au_id p \<noteq> k" "cf_engine cfg = BuiltinPolicyEngine"
  shows "map_of (az_grantCache (snd (attach_closure cfg store hs p az))) k = None"
proof -
  have q: "ap_id (authorizable p) \<noteq> k" using assms(2) by (simp add: authorizable_def)
  then show ?thesis
    using closure_cache(1) [OF assms(1) q] closure_cache(2) [OF _ q] assms(1)
    by (simp add: attach_closure_def assms(3) Let_def split_beta)
qed

text \<open>The random identifiers of a request are new: no account, grant or cached decision has one of them.\<close>

definition fresh_ids :: "server \<Rightarrow> surroundings \<Rightarrow> AppRequest \<Rightarrow> api_state \<Rightarrow> bool" where
  "fresh_ids sv su request st \<longleftrightarrow> fresh_grant su st \<and> fresh_user su st \<and>
     (\<forall>p. fst (resolve_request (sv_sessions sv) (sv_deps sv) su (rq_headers request) st) = Inr p \<longrightarrow> au_id p \<noteq> su_uuids su 0)"

lemma find_route_bound: "find_route n routes mth path = Inr (Some (i, params)) \<Longrightarrow> n \<le> i \<and> i < n + length routes"
  by (induction n routes mth path rule: find_route.induct) (auto split: sum.splits option.splits)

lemma run_handler_state: "snd (run_handler h request params ap s) = snd (ah_run h request params ap s)"
  by (simp add: run_handler_def split: prod.split sum.split)

lemma serve_inv:
  assumes inv: "api_inv st" and wired: "dp_wired (sv_deps sv)" and fresh: "fresh_ids sv su request st"
  shows "api_inv (snd (serve sv su request st))"
proof -
  let ?hs = "account_api (sv_deps sv) su" and ?env = "api_env_of sv su"
  have run: "api_inv s'"
    if "run_handler (?hs ! i) request params ap s = (out, s')" "api_inv s" "fresh_grant su s" "fresh_user su s"
      "find_route 0 (map ah_route ?hs) (rq_method request) (compile (rq_path request)) = Inr (Some (i, params))" for i params ap s out s'
    using handler_inv [OF that(2) wired that(3,4), of "?hs ! i" request params ap] find_route_bound [OF that(5)] that(1)
    by (metis add_0 length_map nth_mem run_handler_state snd_conv)
  obtain resolved s0 where r: "resolve_request (sv_sessions sv) (sv_deps sv) su (rq_headers request) st = (resolved, s0)" by fastforce
  have k: "st_rbac s0 = st_rbac st" "st_az s0 = st_az st"
    using resolve_keeps [of st "sv_sessions sv" "sv_deps sv" su "rq_headers request"] by (simp_all add: r keeps_policies_def)
  have authd: "api_inv (s0\<lparr>st_az := az\<rparr>) \<and> (\<forall>ap. out = Inr ap \<longrightarrow> fresh_grant su (s0\<lparr>st_az := az\<rparr>) \<and> fresh_user su (s0\<lparr>st_az := az\<rparr>))"
    if a: "authenticate (ae_config ?env) (Some (stored_policies s0)) resolved (rq_headers request) (st_az s0) = (out, az)" for out az
  proof -
    have coh: "coherent (stored_policies s0) (st_az s0)" using inv by (simp add: api_inv_def coherent_state_def stored_policies_def k)
    have eng: "cf_engine (ae_config ?env) = BuiltinPolicyEngine" by (simp add: api_env_of_def server_config_def)
    have "coherent (stored_policies s0) az"
      using a coh attach_coherent [OF coh eng] by (auto simp: authenticate_def split_beta split: sum.splits if_splits)
    moreover have "map_of (az_grantCache az) (su_uuids su 0) = None" if "out = Inr ap" for ap
    proof -
      from a that obtain p where p: "resolved = Inr p" "az = snd (attach_closure (ae_config ?env) (Some (stored_policies s0)) (rq_headers request) p (st_az s0))"
        by (auto simp: authenticate_def split_beta split: sum.splits if_splits)
      show ?thesis unfolding p(2)
        by (rule attach_cache [OF _ _ eng]) (use fresh p(1) r in \<open>simp_all add: fresh_ids_def fresh_user_def k\<close>)
    qed
    ultimately show ?thesis
      using inv fresh by (simp add: api_inv_def coherent_state_def stored_policies_def grant_ids_def fresh_ids_def fresh_grant_def fresh_user_def k)
  qed
  have env: "ae_resolve ?env = resolve_request (sv_sessions sv) (sv_deps sv) su" "ae_az ?env = st_az"
    "ae_set_az ?env = (\<lambda>az st. st\<lparr>st_az := az\<rparr>)" "ae_store ?env = (\<lambda>st. Some (stored_policies st))"
    by (simp_all add: api_env_of_def)
  have here: "fresh_grant su st" "fresh_user su st" using fresh by (simp_all add: fresh_ids_def)
  show ?thesis
    unfolding serve_def handle_def env
    by (intro inv_constructs) (auto simp: r inv here dest: authd intro: run [OF sym inv here] run [OF sym conjunct1 [OF authd]])
qed

section \<open>Histories of requests\<close>

text \<open>
  Any sequence of requests to the account API, from any stored contents and cold caches.
\<close>

inductive served :: "server \<Rightarrow> api_state \<Rightarrow> bool" for sv where
  sv_start: "st_az st = new_authorizer \<Longrightarrow> distinct (grant_ids st) \<Longrightarrow> served sv st"
| sv_request: "served sv st \<Longrightarrow> fresh_ids sv su request st \<Longrightarrow> served sv (snd (serve sv su request st))"

lemma served_inv: "served sv st \<Longrightarrow> dp_wired (sv_deps sv) \<Longrightarrow> api_inv st"
proof (induction rule: served.induct)
  case (sv_start st)
  then show ?case by (simp add: api_inv_def coherent_state_def coherent_def new_authorizer_def)
qed (rule serve_inv)

section \<open>What a session user may do\<close>

text \<open>The principal and the state the handler of a request of \<open>p\<close> gets.\<close>

definition as_user :: "server \<Rightarrow> headers \<Rightarrow> auth_principal \<Rightarrow> api_state \<Rightarrow> api_principal \<times> api_state" where
  "as_user sv hs p st =
     (let (ap, az) = attach_closure (server_config sv) (Some (stored_policies st)) hs p (st_az st) in (ap, st\<lparr>st_az := az\<rparr>))"

text \<open>The specification: a stored grant covers the scope, and its role has the permission.\<close>

definition entitled :: "api_state \<Rightarrow> string \<Rightarrow> string \<Rightarrow> string \<Rightarrow> bool" where
  "entitled st u permission scope \<longleftrightarrow>
     (\<exists>g \<in> set (rbac_listGrantsForUser (st_rbac st) u). scopeCovers (rg_scope g) scope \<and>
        role_grants (effectiveCatalog (st_rbac st)) (rg_role g) permission)"

definition session_user :: "auth_principal \<Rightarrow> bool" where
  "session_user p \<longleftrightarrow> au_type p = PK_user \<and> au_roles p = []"

definition asked_scope :: "headers \<Rightarrow> auth_principal \<Rightarrow> Resource \<Rightarrow> string" where
  "asked_scope hs p r = render (request_of (default_tenant hs p) (authorizable p) r)"

lemma live_catalog_stored: "live_catalog (stored_policies st) = effectiveCatalog (st_rbac st)"
  by (simp add: live_catalog_def loadCatalog_def new_authorizer_def catalog_rows_def stored_policies_def policy_store_def
      effectiveCatalog_def Let_def)

lemma allowed_stored:
  "allowed (live_grants (stored_policies st) u) (live_catalog (stored_policies st)) permission scope \<longleftrightarrow> entitled st u permission scope"
  unfolding live_catalog_stored entitled_def allowed_def by (auto simp: live_grants_def stored_policies_def policy_store_def)

lemma as_user_closure:
  assumes "api_inv st" "session_user p" "as_user sv hs p st = (ap, st1)"
  shows "ap_authorize ap = Some (fst (authorizeClosure BuiltinPolicyEngine (Some (stored_policies st)) (default_tenant hs p)
      (authorizable p) (st_az st)))"
  using assms by (auto simp: as_user_def attach_closure_def server_config_def session_user_def Let_def split_beta)

lemma as_user_state: "as_user sv hs p st = (ap, st1) \<Longrightarrow> \<exists>az. st1 = st\<lparr>st_az := az\<rparr>"
  by (auto simp: as_user_def split: prod.splits)

lemma enforce_entitled:
  assumes "api_inv st" "session_user p" "as_user sv hs p st = (ap, st1)"
  shows "enforce (ap_authorize ap) (ap_principal ap) permission r =
    (if entitled st (au_id p) permission (asked_scope hs p r) then Inr () else Inl (Missing_permission permission))"
proof -
  let ?d = "fst (authorizeClosure BuiltinPolicyEngine (Some (stored_policies st)) (default_tenant hs p) (authorizable p) (st_az st))"
  have "?d permission r \<longleftrightarrow> entitled st (ap_id (authorizable p)) permission (asked_scope hs p r)"
    using user_decision [of "stored_policies st" "st_az st" "authorizable p" "default_tenant hs p" permission r] assms(1,2)
    by (simp add: allowed_stored api_inv_def coherent_state_def session_user_def authorizable_def asked_scope_def)
  then show ?thesis
    by (simp add: enforce_def as_user_closure [OF assms] authorizable_def)
qed

lemma guarded_entitled:
  assumes "api_inv st" "session_user p" "as_user sv hs p st = (ap, st1)"
  shows "guarded ap permission r s k =
    (if entitled st (au_id p) permission (asked_scope hs p r) then k else (Inl (Route_forbidden permission), s))"
  by (simp add: guarded_def enforce_entitled [OF assms])

text \<open>A request that names no tenant is decided at the tenant of its header.\<close>

lemma uuid_chars: "isUuid t \<Longrightarrow> c \<in> set t \<Longrightarrow> c = CHR ''-'' \<or> hex_val c \<noteq> None"
proof -
  assume u: "isUuid t" and "c \<in> set t"
  then obtain i where i: "i < length t" "t ! i = c" by (auto simp: in_set_conv_nth)
  from u have "length t = 36" "\<forall>i \<in> set [0..<36]. if i \<in> {8, 13, 18, 23} then t ! i = CHR ''-'' else hex_val (t ! i) \<noteq> None"
    unfolding isUuid_def list_all_iff by blast+
  with i(1) have "if i \<in> {8, 13, 18, 23} then t ! i = CHR ''-'' else hex_val (t ! i) \<noteq> None"
    by (metis atLeastLessThan_iff le0 set_upt)
  with i(2) show ?thesis by (metis (full_types))
qed

lemma uuid_tenant:
  assumes "isUuid t"
  shows "trim t = t" "tenant_ok t"
proof -
  have ws: "\<not> is_ws c" "c \<noteq> CHR ''/''" if "c \<in> set t" for c
    using uuid_chars [OF assms that] by (auto simp: is_ws_def hex_val_def is_digit_def is_lower_def split: if_splits)
  show "trim t = t" by (rule trim_no_ws) (use ws(1) in blast)
  show "tenant_ok t" using ws(2) assms by (auto simp: tenant_ok_def isUuid_def)
qed

lemma asked_default:
  assumes "headerValue hs ''x-tenant-id'' = Some t" "isUuid t"
  shows "asked_scope hs p empty_resource = ''t/'' @ t"
proof -
  have "t \<noteq> []" using assms(2) by (auto simp: isUuid_def)
  with assms have "default_tenant hs p = Some t" by (simp add: default_tenant_def Let_def)
  then show ?thesis using uuid_tenant [OF assms(2)]
    by (simp add: asked_scope_def request_of_def scope_of_def empty_resource_def tenant_ok_def)
qed

lemma tenant_grant_entitled:
  assumes "headerValue hs ''x-tenant-id'' = Some t" "isUuid t" "g \<in> set (rbac_listGrantsForUser (st_rbac st) u)"
    "rg_scope g = ''t/'' @ t" "role_grants (effectiveCatalog (st_rbac st)) (rg_role g) permission"
  shows "entitled st u permission (asked_scope hs p empty_resource)"
  unfolding entitled_def asked_default [OF assms(1,2)]
  by (rule bexI [OF _ assms(3)]) (use assms in \<open>simp add: scopeCovers_def Let_def\<close>)

end
