(* ===== verification/Access_Control.thy ===== *)
theory Access_Control
  imports Account_Api
begin

text \<open>
  The properties of the account API: what a session user is allowed in every history of requests,
  who may add a grant, what the routes let an administrator of one tenant do, what an API key may
  be minted with, and what disabling an account stops.
\<close>

section \<open>An example\<close>

definition some_uuid :: string where
  "some_uuid = ''00000000-0000-4000-8000-000000000001''"

definition some_api_deps :: api_deps where
  "some_api_deps = \<lparr>dp_accounts = Some some_deps, dp_scrypt = ad_scrypt some_deps, dp_params = ad_params some_deps,
     dp_sessions = Some some_service, dp_sha256 = ss_sha256 some_service, dp_wired = True, dp_keyHooks = True, dp_callback = (\<lambda>row pnd code saml. None),
     dp_authorizationUrl = (\<lambda>row uri state nonce. uri), dp_webBase = ''/'', dp_date_ms = (\<lambda>s. None), dp_iso = (\<lambda>t. []),
     dp_collate = (\<lambda>a b. True)\<rparr>"

definition some_server :: server where
  "some_server = \<lparr>sv_sessions = some_service, sv_deps = some_api_deps, sv_production = True, sv_intercept = (\<lambda>i request params ap. None)\<rparr>"

text \<open>Two accounts: \<open>ann\<close> administers one tenant, \<open>root\<close> the platform.\<close>

definition some_user :: "string \<Rightarrow> string \<Rightarrow> LocalUser" where
  "some_user i email = \<lparr>lu_id = i, lu_email = email, lu_displayName = None, lu_passwordHash = None, lu_status = ''active'',
     lu_createdAt = ''t'', lu_updatedAt = ''t''\<rparr>"

definition ann_grant :: RbacGrantRow where
  "ann_grant = \<lparr>rg_id = ''g1'', rg_userId = ''ann'', rg_role = ''tenant_admin'', rg_scope = ''t/'' @ some_uuid, rg_createdAt = ''t''\<rparr>"

definition two_accounts :: api_state where
  "two_accounts = \<lparr>st_accounts = \<lparr>ac_users = [(''ann'', some_user ''ann'' ''ann@x''), (''root'', some_user ''root'' ''root@x'')],
       ac_identities = [], ac_rbac = \<lparr>
         rb_rolePerms = [\<lparr>rp_role = ''tenant_admin'', rp_permission = ''user:manage''\<rparr>, \<lparr>rp_role = ''platform_admin'', rp_permission = ''*''\<rparr>],
         rb_grants = [ann_grant]\<rparr>, ac_settings = initial_settings\<rparr>,
     st_az = new_authorizer, st_keys = [], st_revoked = Sync_store [], st_sso = [], st_idps = [], st_roles = [], st_tenants = [some_uuid],
     st_environments = [], st_ssoBuckets = []\<rparr>"

definition ann :: auth_principal where
  "ann = \<lparr>au_id = ''ann'', au_type = PK_user, au_tenantId = None, au_environment = None, au_roles = []\<rparr>"

definition ann_request :: "json \<Rightarrow> AppRequest" where
  "ann_request body = \<lparr>rq_method = [], rq_path = [], rq_headers = [(''x-tenant-id'', [some_uuid])], rq_query = [], rq_body = body\<rparr>"

lemma ann_facts [simp]:
  "session_user ann" "au_id ann = ''ann''" "rq_headers (ann_request body) = [(''x-tenant-id'', [some_uuid])]" "rq_body (ann_request body) = body"
  "headerValue [(''x-tenant-id'', [some_uuid])] ''x-tenant-id'' = Some some_uuid"
  by (simp_all add: ann_def session_user_def ann_request_def headerValue_def)

lemma some_uuid_ok [simp]: "isUuid some_uuid"
  unfolding isUuid_def some_uuid_def by code_simp

lemma two_accounts_facts [simp]:
  "served some_server two_accounts" "sv_deps some_server = some_api_deps" "dp_wired some_api_deps"
  "rbac_listGrantsForUser (st_rbac two_accounts) ''ann'' = [ann_grant]" "rg_scope ann_grant = ''t/'' @ some_uuid"
  "rg_role ann_grant = ''tenant_admin''" "st_users two_accounts = [(''ann'', some_user ''ann'' ''ann@x''), (''root'', some_user ''root'' ''root@x'')]"
  by (auto simp: served.sv_start two_accounts_def grant_ids_def some_server_def some_api_deps_def rbac_listGrantsForUser_def ann_grant_def
      intro!: served.sv_start)

lemma two_accounts_roles [simp]:
  "role_grants (effectiveCatalog (st_rbac two_accounts)) ''tenant_admin'' ''user:manage''"
  "role_grants (effectiveCatalog (st_rbac two_accounts)) ''platform_admin'' permission"
  by (simp_all add: two_accounts_def effectiveCatalog_def role_grants_buildCatalog)

section \<open>Decisions\<close>

text \<open>C10: In every history of requests to the account API a session user is let through by \<open>enforce\<close> exactly when a grant
  stored now covers the scope it asks for and its role has the permission now: every grant, revocation and change of a
  role by a route takes effect at the next request, although grants and roles are cached.\<close>

theorem requests_decided_live:
  assumes "served sv st" "dp_wired (sv_deps sv)" "session_user p" "as_user sv hs p st = (ap, st1)"
  shows "enforce (ap_authorize ap) (ap_principal ap) permission r =
    (if \<exists>g \<in> set (rbac_listGrantsForUser (st_rbac st) (au_id p)). scopeCovers (rg_scope g) (asked_scope hs p r) \<and>
          role_grants (effectiveCatalog (st_rbac st)) (rg_role g) permission
     then Inr () else Inl (Missing_permission permission))"
  using enforce_entitled [OF served_inv [OF assms(1,2)] assms(3,4)] unfolding entitled_def .

theorem requests_decided_live_witness:
  "enforce (ap_authorize (fst (as_user some_server [(''x-tenant-id'', [some_uuid])] ann two_accounts)))
      (ap_principal (fst (as_user some_server [(''x-tenant-id'', [some_uuid])] ann two_accounts))) ''user:manage'' empty_resource = Inr () \<and>
   enforce (ap_authorize (fst (as_user some_server [(''x-tenant-id'', [some_uuid])] ann two_accounts)))
      (ap_principal (fst (as_user some_server [(''x-tenant-id'', [some_uuid])] ann two_accounts))) ''role:manage'' empty_resource =
     Inl (Missing_permission ''role:manage'')"
proof -
  have wired: "dp_wired (sv_deps some_server)" by simp
  have "\<not> role_grants (effectiveCatalog (st_rbac two_accounts)) ''tenant_admin'' ''role:manage''"
    by (simp add: two_accounts_def effectiveCatalog_def role_grants_buildCatalog)
  moreover have "asked_scope [(''x-tenant-id'', [some_uuid])] ann empty_resource = ''t/'' @ some_uuid" by (rule asked_default) simp_all
  moreover have "scopeCovers (''t/'' @ some_uuid) (''t/'' @ some_uuid)" by (simp add: scopeCovers_def)
  ultimately show ?thesis
    unfolding requests_decided_live [OF two_accounts_facts(1) wired ann_facts(1) surjective_pairing] by simp
qed

section \<open>Grants\<close>

lemma grant_add_entitled:
  assumes "api_inv st" "session_user p" "as_user sv (rq_headers request) p st = (ap, st1)"
    and "member (rq_body request) ''role'' = JStr role" "crud_get (st_users st) i \<noteq> None"
    and "entitled st (au_id p) ''user:manage'' (asked_scope (rq_headers request) p
      (scopeResource (scopeToString (scopeInputFromBody (rq_body request)))))"
  shows "\<exists>resp st2. user_grant_add dp su request [(''id'', i)] ap st1 = (Inr resp, st2) \<and> rsp_status resp = 201 \<and>
    st_rbac st2 = snd (addGrant \<lparr>rg_id = su_uuids su 0, rg_userId = i, rg_role = role,
      rg_scope = scopeToString (scopeInputFromBody (rq_body request)), rg_createdAt = su_nowIso su\<rparr> (st_rbac st)) \<and>
    st_az st2 = (if dp_wired dp then invalidate (Some i) (st_az st1) else st_az st1)"
proof -
  from as_user_state [OF assms(3)] obtain az where st1: "st1 = st\<lparr>st_az := az\<rparr>" by blast
  from assms(5) obtain u where u: "crud_get (st_users st) i = Some u" by blast
  show ?thesis using assms(4,6)
    by (simp add: u user_grant_add_def Let_def param_def guarded_entitled [OF assms(1-3)] st1 ok_response_def split_beta
        invalidate_az_def upd_rbac_def)
qed

lemma addGrant_has:
  "\<exists>g \<in> set (rbac_listGrantsForUser (snd (addGrant row rb)) (rg_userId row)). rg_role g = rg_role row \<and> rg_scope g = rg_scope row"
  by (auto simp: addGrant_def rbac_listGrantsForUser_def dest: find_SomeD split: option.split)

lemma addGrant_subset: "set (rbac_listGrantsForUser (snd (addGrant row rb)) u) \<subseteq> insert row (set (rbac_listGrantsForUser rb u))"
  by (auto simp: addGrant_def rbac_listGrantsForUser_def split: option.splits)

lemma addGrant_perms [simp]: "rb_rolePerms (snd (addGrant row rb)) = rb_rolePerms rb"
  by (simp add: addGrant_def split: option.split)

text \<open>C12: The administrator of one tenant, who holds \<open>user:manage\<close> there and nothing elsewhere, gives any role at the global
  scope to any account, its own included: a grant without a scope is global, and the check of a request without a tenant is
  made at the tenant the caller names in a header.  From then on the account has every permission of the role everywhere.\<close>

theorem tenant_admin_escalates:
  assumes "served sv st" "dp_wired (sv_deps sv)" "session_user p" "as_user sv (rq_headers request) p st = (ap, st1)"
    and "headerValue (rq_headers request) ''x-tenant-id'' = Some t" "isUuid t"
    and "g \<in> set (rbac_listGrantsForUser (st_rbac st) (au_id p))" "rg_scope g = ''t/'' @ t"
      "role_grants (effectiveCatalog (st_rbac st)) (rg_role g) ''user:manage''"
    and "crud_get (st_users st) i \<noteq> None" "rq_body request = JObj [(''role'', JStr role)]"
  shows "\<exists>resp st2. user_grant_add (sv_deps sv) su request [(''id'', i)] ap st1 = (Inr resp, st2) \<and> rsp_status resp = 201 \<and>
    (\<forall>permission scope. role_grants (effectiveCatalog (st_rbac st)) role permission \<longrightarrow> entitled st2 i permission scope)"
proof -
  have body: "member (rq_body request) ''role'' = JStr role" "scopeToString (scopeInputFromBody (rq_body request)) = ''*''"
    using assms(11) by (simp_all add: member_def obj_get_def scopeInputFromBody_def scopeToString_def)
  have res: "scopeResource ''*'' = empty_resource"
    by (simp add: scopeResource_def empty_resource_def parseScope_def)
  have ent: "entitled st (au_id p) ''user:manage'' (asked_scope (rq_headers request) p
      (scopeResource (scopeToString (scopeInputFromBody (rq_body request)))))"
    unfolding body(2) res by (rule tenant_grant_entitled [OF assms(5-9)])
  from grant_add_entitled [OF served_inv [OF assms(1,2)] assms(3,4) body(1) assms(10) ent, of "sv_deps sv" su]
  obtain resp st2 where out: "user_grant_add (sv_deps sv) su request [(''id'', i)] ap st1 = (Inr resp, st2)" "rsp_status resp = 201"
    "st_rbac st2 = snd (addGrant \<lparr>rg_id = su_uuids su 0, rg_userId = i, rg_role = role, rg_scope = ''*'', rg_createdAt = su_nowIso su\<rparr> (st_rbac st))"
    unfolding body(2) by blast
  from addGrant_has [of "\<lparr>rg_id = su_uuids su 0, rg_userId = i, rg_role = role, rg_scope = ''*'', rg_createdAt = su_nowIso su\<rparr>" "st_rbac st"]
  obtain h where h: "h \<in> set (rbac_listGrantsForUser (st_rbac st2) i)" "rg_role h = role" "rg_scope h = ''*''"
    by (auto simp: out(3))
  have "effectiveCatalog (st_rbac st2) = effectiveCatalog (st_rbac st)" by (simp add: effectiveCatalog_def out(3))
  then have "entitled st2 i permission scope" if "role_grants (effectiveCatalog (st_rbac st)) role permission" for permission scope
    using that h unfolding entitled_def by (intro bexI [OF _ h(1)]) (simp add: scopeCovers_def)
  with out show ?thesis by blast
qed

theorem tenant_admin_escalates_witness:
  "\<exists>resp st2. user_grant_add some_api_deps some_surroundings (ann_request (JObj [(''role'', JStr ''platform_admin'')])) [(''id'', ''ann'')]
      (fst (as_user some_server [(''x-tenant-id'', [some_uuid])] ann two_accounts))
      (snd (as_user some_server [(''x-tenant-id'', [some_uuid])] ann two_accounts)) = (Inr resp, st2) \<and>
     entitled st2 ''ann'' ''tenant:delete'' ''*''"
  using tenant_admin_escalates [of some_server two_accounts ann "ann_request (JObj [(''role'', JStr ''platform_admin'')])" _ _ some_uuid
      ann_grant "''ann''" "''platform_admin''" some_surroundings, OF _ _ _ surjective_pairing]
  by (simp add: crud_get_def) blast

text \<open>A scope that names a tenant is the scope asked for.\<close>

lemma asked_named:
  assumes "scope_of inp \<noteq> S_global" "scope_ok (scope_of inp)"
  shows "asked_scope hs p (scopeResource (scopeToString inp)) = scopeToString inp"
proof -
  have i: "parseScope (scopeToString inp) = input_of (scope_of inp)"
    unfolding scopeToString_render by (rule parseScope_render [OF assms(2)])
  obtain t where "si_tenantId (input_of (scope_of inp)) = Some t" using assms(1) by (cases "scope_of inp") simp_all
  then have "request_of (default_tenant hs p) (authorizable p) (scopeResource (scopeToString inp)) = scope_of (input_of (scope_of inp))"
    by (simp add: request_of_def scopeResource_def Let_def i) (cases "scope_of inp"; simp)
  then show ?thesis by (simp add: asked_scope_def scope_of_input_of_scope_of scopeToString_render)
qed

text \<open>C11: Whether a grant is added at a scope that names a tenant is decided by the grants of the caller stored now: without
  \<open>user:manage\<close> at a scope that covers it the request is refused and changes nothing.  Otherwise the account gets exactly this
  grant, at the end of the list and unless it has it already, the cache of its grants is dropped, and nothing else in
  the state changes.\<close>

theorem grant_within_own_scope:
  assumes "served sv st" "dp_wired (sv_deps sv)" "session_user p" "as_user sv (rq_headers request) p st = (ap, st1)"
    and "scope_of (scopeInputFromBody (rq_body request)) \<noteq> S_global" "scope_ok (scope_of (scopeInputFromBody (rq_body request)))"
    and "crud_get (st_users st) i \<noteq> None" "member (rq_body request) ''role'' = JStr role"
  shows "if entitled st (au_id p) ''user:manage'' (scopeToString (scopeInputFromBody (rq_body request)))
    then (\<exists>resp rb. user_grant_add (sv_deps sv) su request [(''id'', i)] ap st1 = (Inr resp, upd_rbac rb (st1\<lparr>st_az := invalidate (Some i) (st_az st1)\<rparr>)) \<and>
       rsp_status resp = 201 \<and> rb_rolePerms rb = rb_rolePerms (st_rbac st) \<and>
       rb_grants rb = rb_grants (st_rbac st) @
         (if \<exists>g \<in> set (rb_grants (st_rbac st)). rg_userId g = i \<and> rg_role g = role \<and> rg_scope g = scopeToString (scopeInputFromBody (rq_body request))
          then [] else [\<lparr>rg_id = su_uuids su 0, rg_userId = i, rg_role = role,
            rg_scope = scopeToString (scopeInputFromBody (rq_body request)), rg_createdAt = su_nowIso su\<rparr>]))
    else user_grant_add (sv_deps sv) su request [(''id'', i)] ap st1 = (Inl (Route_forbidden ''user:manage''), st1)"
proof -
  let ?scope = "scopeToString (scopeInputFromBody (rq_body request))"
  let ?row = "\<lparr>rg_id = su_uuids su 0, rg_userId = i, rg_role = role, rg_scope = ?scope, rg_createdAt = su_nowIso su\<rparr>"
  from as_user_state [OF assms(4)] obtain az where st1: "st1 = st\<lparr>st_az := az\<rparr>" by blast
  have rbac: "st_rbac st1 = st_rbac st" "st_users st1 = st_users st" by (simp_all add: st1)
  have e: "enforce (ap_authorize ap) (ap_principal ap) ''user:manage'' (scopeResource ?scope) =
      (if entitled st (au_id p) ''user:manage'' ?scope then Inr () else Inl (Missing_permission ''user:manage''))"
    using enforce_entitled [OF served_inv [OF assms(1,2)] assms(3,4)] by (simp add: asked_named [OF assms(5,6)])
  have step: "user_grant_add (sv_deps sv) su request [(''id'', i)] ap st1 =
      (if entitled st (au_id p) ''user:manage'' ?scope
       then (Inr (ok_response 201 (JObj [(''grant'', grant_json (fst (addGrant ?row (st_rbac st))))])),
         upd_rbac (snd (addGrant ?row (st_rbac st))) (st1\<lparr>st_az := invalidate (Some i) (st_az st1)\<rparr>))
       else (Inl (Route_forbidden ''user:manage''), st1))"
    using assms(2,7,8) by (auto simp: user_grant_add_def Let_def param_def rbac guarded_def e invalidate_az_def upd_rbac_def split_beta)
  have grants: "rb_grants (snd (addGrant ?row (st_rbac st))) = rb_grants (st_rbac st) @
      (if \<exists>g \<in> set (rb_grants (st_rbac st)). rg_userId g = i \<and> rg_role g = role \<and> rg_scope g = ?scope then [] else [?row])"
    by (auto simp: addGrant_def find_None_iff find_Some_iff split: option.split)
  show ?thesis
  proof (cases "entitled st (au_id p) ''user:manage'' ?scope")
    case True
    show ?thesis unfolding step if_P [OF True]
      by (intro exI conjI, rule refl) (simp_all only: grants addGrant_perms, simp add: ok_response_def)
  qed (simp add: step)
qed

theorem grant_within_own_scope_witness:
  "\<exists>resp st2. user_grant_add some_api_deps some_surroundings
      (ann_request (JObj [(''role'', JStr ''viewer''), (''tenantId'', JStr some_uuid)])) [(''id'', ''root'')]
      (fst (as_user some_server [(''x-tenant-id'', [some_uuid])] ann two_accounts))
      (snd (as_user some_server [(''x-tenant-id'', [some_uuid])] ann two_accounts)) = (Inr resp, st2) \<and>
     rbac_listGrantsForUser (st_rbac st2) ''ann'' = [ann_grant]"
proof -
  let ?request = "ann_request (JObj [(''role'', JStr ''viewer''), (''tenantId'', JStr some_uuid)])"
  obtain ap st1 where au: "as_user some_server (rq_headers ?request) ann two_accounts = (ap, st1)" by fastforce
  have wired: "dp_wired (sv_deps some_server)" by simp
  note inv = served_inv [OF two_accounts_facts(1) wired]
  have inp: "scopeInputFromBody (rq_body ?request) = \<lparr>si_tenantId = Some some_uuid, si_environment = None, si_pipelineId = None\<rparr>"
    by (simp add: scopeInputFromBody_def member_def obj_get_def)
  have sc: "scope_of (scopeInputFromBody (rq_body ?request)) = S_tenant some_uuid"
    unfolding inp by (simp add: scope_of_def uuid_tenant [OF some_uuid_ok]) (simp add: some_uuid_def)
  then have ok: "scope_of (scopeInputFromBody (rq_body ?request)) \<noteq> S_global" "scope_ok (scope_of (scopeInputFromBody (rq_body ?request)))"
    using uuid_tenant(2) [OF some_uuid_ok] by simp_all
  have sct: "scopeToString (scopeInputFromBody (rq_body ?request)) = ''t/'' @ some_uuid" unfolding scopeToString_render sc by simp
  have role: "member (rq_body ?request) ''role'' = JStr ''viewer''" by (simp add: member_def obj_get_def)
  have user: "crud_get (st_users two_accounts) ''root'' \<noteq> None" by (simp add: crud_get_def)
  have ent: "entitled two_accounts (au_id ann) ''user:manage'' (scopeToString (scopeInputFromBody (rq_body ?request)))"
    unfolding sct by (simp add: entitled_def) (simp add: scopeCovers_def)
  have gs: "rb_grants (st_rbac two_accounts) = [ann_grant]" and ann: "rg_userId ann_grant = ''ann''"
    by (simp_all add: two_accounts_def ann_grant_def)
  from grant_within_own_scope [OF two_accounts_facts(1) wired ann_facts(1) au ok user role, of some_surroundings, unfolded if_P [OF ent]]
  obtain resp rb where r: "user_grant_add (sv_deps some_server) some_surroundings ?request [(''id'', ''root'')] ap st1 =
      (Inr resp, upd_rbac rb (st1\<lparr>st_az := invalidate (Some ''root'') (st_az st1)\<rparr>))"
    and g: "rb_grants rb = [ann_grant] @ [\<lparr>rg_id = su_uuids some_surroundings 0, rg_userId = ''root'', rg_role = ''viewer'',
      rg_scope = ''t/'' @ some_uuid, rg_createdAt = su_nowIso some_surroundings\<rparr>]"
    unfolding sct gs by (force simp: ann)
  have "rbac_listGrantsForUser rb ''ann'' = [ann_grant]"
    by (simp add: rbac_listGrantsForUser_def g ann)
  with r au show ?thesis by (auto simp: upd_rbac_def)
qed

section \<open>Passwords\<close>

lemma find_updated:
  "find P (map snd xs) = Some u \<Longrightarrow> \<forall>(k, v) \<in> set xs. k = lu_id v \<Longrightarrow> P w \<Longrightarrow> find P (map snd (AList.update (lu_id u) w xs)) = Some w"
  by (induction xs) (auto split: if_splits)

text \<open>C13: The administrator of one tenant sets the password of any account, that of a platform administrator included, and can
  then log in as it: the check of the request names no tenant and is made at the tenant the caller names in a header.\<close>

theorem tenant_admin_resets_password:
  assumes "served sv st" "dp_wired (sv_deps sv)" "session_user p" "as_user sv (rq_headers request) p st = (ap, st1)"
    and "headerValue (rq_headers request) ''x-tenant-id'' = Some t" "isUuid t"
    and "g \<in> set (rbac_listGrantsForUser (st_rbac st) (au_id p))" "rg_scope g = ''t/'' @ t"
      "role_grants (effectiveCatalog (st_rbac st)) (rg_role g) ''user:manage''"
    and "users_ok (st_users st)" "findByEmail (st_users st) (to_lower (trim email)) = Some victim" "lu_status victim = ''active''"
    and "rq_body request = JObj [(''password'', JStr password)]" "dp_accounts (sv_deps sv) = Some d"
    and "ad_scrypt d = dp_scrypt (sv_deps sv)" "scrypt_ok (dp_scrypt (sv_deps sv)) (dp_params (sv_deps sv))"
    and "password_hash (dp_scrypt (sv_deps sv)) (dp_params (sv_deps sv)) (su_salt su) password = Inr stored"
  shows "\<exists>resp st2 u. users_patch (sv_deps sv) su request [(''id'', lu_id victim)] ap st1 = (Inr resp, st2) \<and> rsp_status resp = 200 \<and>
    lu_id u = lu_id victim \<and> loginLocal d su' email password (st_accounts st2) = Inr (account_issue d su' u)"
proof -
  let ?dp = "sv_deps sv"
  from as_user_state [OF assms(4)] obtain az where st1: "st1 = st\<lparr>st_az := az\<rparr>" by blast
  note inv = served_inv [OF assms(1,2)]
  have v: "map_of (st_users st) (lu_id victim) = Some victim"
    using users_ok_member [OF assms(10)] findByEmail_Some [OF assms(11)] by blast
  define w where "w = victim\<lparr>lu_updatedAt := su_nowIso su, lu_passwordHash := Some stored\<rparr>"
  have body: "member (rq_body request) ''password'' = JStr password" "member (rq_body request) ''displayName'' = JUndef"
    "member (rq_body request) ''status'' = JUndef" "isObject (rq_body request)"
    using assms(13) by (simp_all add: member_def obj_get_def)
  have "password \<noteq> []" using assms(17) by (auto simp: password_hash_def)
  then have hash: "hash_of ?dp su (Some password) = Inr (Some stored)" using assms(17) by (simp add: hash_of_def)
  have patch: "user_update (lu_id victim) (\<lambda>u. patch_hash (Some stored) (patch_status (rq_body request)
      (patch_displayName (rq_body request) (u\<lparr>lu_updatedAt := su_nowIso su\<rparr>)))) (st_users st) =
      Inr (w, AList.update (lu_id victim) w (st_users st))"
    by (simp add: user_update_def crud_update_def v patch_hash_def patch_status_def patch_displayName_def body w_def Let_def)
  have out: "\<exists>resp. users_patch ?dp su request [(''id'', lu_id victim)] ap st1 =
      (Inr resp, upd_users (AList.update (lu_id victim) w (st_users st)) st1) \<and> rsp_status resp = 200"
    using tenant_grant_entitled [OF assms(5-9), of p] patch
    by (simp add: users_patch_def Let_def param_def guarded_entitled [OF inv assms(3,4)] crud_get_def st1 v body hash write_user_def
        ok_response_def)
  have "findByEmail (AList.update (lu_id victim) w (st_users st)) (to_lower (trim email)) = Some w"
    unfolding findByEmail_def crud_list_def
    by (rule find_updated) (use assms(10,11) findByEmail_Some [OF assms(11)] in \<open>auto simp: findByEmail_def crud_list_def users_ok_def w_def\<close>)
  then have "loginLocal d su' email password (st_accounts (upd_users (AList.update (lu_id victim) w (st_users st)) st1)) = Inr (account_issue d su' w)"
    using assms(12,15) password_hash_verify [OF assms(16,17), of password]
    by (simp add: loginLocal_def upd_users_def w_def assertActive_def)
  with out show ?thesis by (auto simp: w_def intro!: exI [of _ w])
qed

theorem tenant_admin_resets_password_witness:
  "\<exists>resp st2 u. users_patch some_api_deps some_surroundings (ann_request (JObj [(''password'', JStr ''password'')])) [(''id'', ''root'')]
      (fst (as_user some_server [(''x-tenant-id'', [some_uuid])] ann two_accounts))
      (snd (as_user some_server [(''x-tenant-id'', [some_uuid])] ann two_accounts)) = (Inr resp, st2) \<and> lu_id u = ''root'' \<and>
     loginLocal some_deps some_surroundings ''root@x'' ''password'' (st_accounts st2) = Inr (account_issue some_deps some_surroundings u)"
proof -
  have "to_lower (trim ''root@x'') = ''root@x''" by code_simp
  then have find: "findByEmail (st_users two_accounts) (to_lower (trim ''root@x'')) = Some (some_user ''root'' ''root@x'')"
    by (simp add: findByEmail_def crud_list_def some_user_def)
  have users: "users_ok (st_users two_accounts)" by (simp add: users_ok_def some_user_def)
  have deps: "dp_accounts (sv_deps some_server) = Some some_deps" "dp_scrypt (sv_deps some_server) = ad_scrypt some_deps"
    "dp_params (sv_deps some_server) = ad_params some_deps" by (simp_all add: some_api_deps_def)
  obtain stored where stored: "password_hash (dp_scrypt (sv_deps some_server)) (dp_params (sv_deps some_server)) (su_salt some_surroundings) ''password'' = Inr stored"
    by (simp add: password_hash_def some_api_deps_def some_deps_def)
  show ?thesis
    using tenant_admin_resets_password [of some_server two_accounts ann "ann_request (JObj [(''password'', JStr ''password'')])" _ _ some_uuid
        ann_grant "''root@x''" "some_user ''root'' ''root@x''" "''password''" some_deps some_surroundings stored some_surroundings,
        OF _ _ _ surjective_pairing _ _ _ _ _ users find] deps stored some_scrypt_ok
    by (simp add: some_user_def) blast
qed

section \<open>Disabled accounts\<close>

lemma users_patch_effect:
  assumes "users_patch dp su request [(''id'', i)] ap st = (Inr resp, st2)" "rsp_status resp = 200"
  obtains u h users where "map_of (st_users st) i \<noteq> None" "st2 = upd_users users st"
    "user_update i (\<lambda>u. patch_hash h (patch_status (rq_body request) (patch_displayName (rq_body request) (u\<lparr>lu_updatedAt := su_nowIso su\<rparr>))))
       (st_users st) = Inr (u, users)"
proof -
  from assms that show thesis
    by (auto simp: users_patch_def guarded_def Let_def param_def write_user_def crud_get_def respond_error_def validation_failed_def
        error_response_def split: sum.splits AuthorizationError.splits if_splits)
qed

lemma user_update_row:
  "user_update i patch users = Inr (u, users') \<Longrightarrow> map_of users' i = Some u \<and> (\<exists>e. lu_status u = lu_status (patch e))"
  by (auto simp: user_update_def crud_update_def Let_def split: option.splits)

text \<open>C16: Disabling an account stops its logins, by password and by single sign-on.  Its API keys stop where the server gives the
  key service its hooks, and are accepted as before where it does not, which is so with the in-memory repositories.  Its
  sessions do not stop: every session token is accepted as before, and the requests it makes are decided as before.\<close>

theorem disabling_keeps_sessions:
  assumes "users_patch dp su request [(''id'', i)] ap st = (Inr resp, st2)" "rsp_status resp = 200"
    and "member (rq_body request) ''status'' = JStr ''disabled''" "users_ok (st_users st)"
  shows "(\<forall>d su' email password out. loginLocal d su' email password (st_accounts st2) = Inr out \<longrightarrow> lu_id (oc_user out) \<noteq> i) \<and>
    (\<forall>d su' provider idn out accounts. loginSso d su' provider idn (st_accounts st2) = (Inr out, accounts) \<longrightarrow> lu_id (oc_user out) \<noteq> i) \<and>
    (\<forall>dp' su' credential p. dp_keyHooks dp' \<longrightarrow> fst (resolve_key dp' su' credential st2) = Inr p \<longrightarrow> au_id p \<noteq> i) \<and>
    (\<forall>dp' su' credential. \<not> dp_keyHooks dp' \<longrightarrow> fst (resolve_key dp' su' credential st2) = fst (resolve_key dp' su' credential st)) \<and>
    (\<forall>ss su' credential. fst (resolve_session ss su' credential st2) = fst (resolve_session ss su' credential st)) \<and>
    (\<forall>sv hs p. fst (as_user sv hs p st2) = fst (as_user sv hs p st))"
proof -
  from users_patch_effect [OF assms(1,2)] obtain u h users where eff: "map_of (st_users st) i \<noteq> None" "st2 = upd_users users st"
    and upd: "user_update i (\<lambda>u. patch_hash h (patch_status (rq_body request) (patch_displayName (rq_body request) (u\<lparr>lu_updatedAt := su_nowIso su\<rparr>))))
       (st_users st) = Inr (u, users)" .
  have status: "lu_status (patch_hash h (patch_status (rq_body request) v)) = ''disabled''" for v
    by (simp add: patch_hash_def patch_status_def assms(3) split: option.split)
  have row: "map_of users i = Some u" "lu_status u = ''disabled''"
    using user_update_row [OF upd] by (simp_all add: status)
  have ok: "users_ok users" by (rule users_ok_update [OF assms(4) upd])
  have st2: "st_users st2 = users" "st_revoked st2 = st_revoked st" "st_rbac st2 = st_rbac st" "st_az st2 = st_az st"
    "st_keys st2 = st_keys st"
    by (simp_all add: eff(2) upd_users_def)
  have "lu_id (oc_user out) \<noteq> i" if "loginLocal d su' email password (st_accounts st2) = Inr out" for d su' email password out
    using loginLocal_sound [of "st_accounts st2", OF _ that] ok row by (auto simp: st2 sound_session_def)
  moreover have "lu_id (oc_user out) \<noteq> i" if sso: "loginSso d su' provider idn (st_accounts st2) = (Inr out, accounts)" for d su' provider idn out accounts
  proof
    assume i: "lu_id (oc_user out) = i"
    have "same_user i (st_accounts st2) accounts"
      by (rule created_only_same_user [OF loginSso_created [OF sso]]) (simp add: st2 row)
    then have "map_of (ac_users accounts) i = Some u" by (simp add: same_user_def st2 row)
    moreover have "sound_session accounts out" using loginSso_sound [OF _ sso] ok by (simp add: st2)
    ultimately show False using row i by (auto simp: sound_session_def)
  qed
  moreover have "fst (resolve_key dp' su' credential st2) = fst (resolve_key dp' su' credential st)" if "\<not> dp_keyHooks dp'" for dp' su' credential
    using that by (simp add: resolve_key_def verify_hooks_def st2 split: prod.split)
  moreover have "au_id p \<noteq> i" if "dp_keyHooks dp'" "fst (resolve_key dp' su' credential st2) = Inr p" for dp' su' credential p
    using that row by (auto simp: resolve_key_def key_verify_def account_inactive_def verify_hooks_def crud_get_def st2 Let_def
        split: if_splits option.splits prod.splits)
  moreover have "fst (resolve_session ss su' credential st2) = fst (resolve_session ss su' credential st)" for ss su' credential
    by (simp add: resolve_session_def st2 split: prod.split)
  moreover have "fst (as_user sv hs p st2) = fst (as_user sv hs p st)" for sv hs p
    by (simp add: as_user_def st2 stored_policies_def split: prod.split)
  ultimately show ?thesis by blast
qed

lemma ann_manages:
  assumes "as_user some_server [(''x-tenant-id'', [some_uuid])] ann two_accounts = (ap, st1)"
  shows "guarded ap ''user:manage'' empty_resource s k = k"
proof -
  have wired: "dp_wired (sv_deps some_server)" by simp
  have "entitled two_accounts (au_id ann) ''user:manage'' (asked_scope [(''x-tenant-id'', [some_uuid])] ann empty_resource)"
    by (rule tenant_grant_entitled [of _ some_uuid ann_grant]) simp_all
  then show ?thesis by (simp add: guarded_entitled [OF served_inv [OF two_accounts_facts(1) wired] ann_facts(1) assms] del: ann_facts(2))
qed

theorem disabling_keeps_sessions_witness:
  "\<exists>st resp st2. users_patch some_api_deps some_surroundings (ann_request (JObj [(''status'', JStr ''disabled'')])) [(''id'', ''root'')]
      (fst (as_user some_server [(''x-tenant-id'', [some_uuid])] ann two_accounts)) st = (Inr resp, st2) \<and> rsp_status resp = 200 \<and>
     (\<forall>credential. fst (resolve_session some_service some_surroundings credential st2) = fst (resolve_session some_service some_surroundings credential st))"
proof -
  let ?request = "ann_request (JObj [(''status'', JStr ''disabled'')])"
  obtain ap st1 where au: "as_user some_server [(''x-tenant-id'', [some_uuid])] ann two_accounts = (ap, st1)" by fastforce
  from as_user_state [OF au] have st1: "st_users st1 = st_users two_accounts" by fastforce
  have body: "member (rq_body ?request) ''status'' = JStr ''disabled''" "member (rq_body ?request) ''displayName'' = JUndef"
    "member (rq_body ?request) ''password'' = JUndef" "isObject (rq_body ?request)"
    by (simp_all add: member_def obj_get_def)
  have "\<exists>resp st2. users_patch some_api_deps some_surroundings ?request [(''id'', ''root'')] ap st1 = (Inr resp, st2) \<and> rsp_status resp = 200"
    by (simp add: users_patch_def ann_manages [OF au] param_def crud_get_def st1 body hash_of_def write_user_def user_update_def
        crud_update_def ok_response_def Let_def del: ann_facts(4))
  then obtain resp st2 where r: "users_patch some_api_deps some_surroundings ?request [(''id'', ''root'')] ap st1 = (Inr resp, st2)"
    "rsp_status resp = 200" by blast
  have "users_ok (st_users st1)" unfolding st1 by (simp add: users_ok_def some_user_def)
  from disabling_keeps_sessions [OF r body(1) this] show ?thesis
    using r by (intro exI [of _ st1] exI [of _ resp] exI [of _ st2]) (simp add: au)
qed

section \<open>API keys\<close>

text \<open>How a handler came to its result: one rule for each construct.\<close>

lemma result_elims:
  "(if b then x else y) = z \<Longrightarrow> (b \<Longrightarrow> x = z \<Longrightarrow> P) \<Longrightarrow> (\<not> b \<Longrightarrow> y = z \<Longrightarrow> P) \<Longrightarrow> P"
  "(case a of None \<Rightarrow> n | Some v \<Rightarrow> f v) = z \<Longrightarrow> (a = None \<Longrightarrow> n = z \<Longrightarrow> P) \<Longrightarrow> (\<And>v. a = Some v \<Longrightarrow> f v = z \<Longrightarrow> P) \<Longrightarrow> P"
  "(case c of Inl e \<Rightarrow> g e | Inr u \<Rightarrow> h u) = z \<Longrightarrow> (\<And>e. c = Inl e \<Longrightarrow> g e = z \<Longrightarrow> P) \<Longrightarrow> (\<And>u. c = Inr u \<Longrightarrow> h u = z \<Longrightarrow> P) \<Longrightarrow> P"
  "(case d of (q, r) \<Rightarrow> p q r) = z \<Longrightarrow> (\<And>q r. d = (q, r) \<Longrightarrow> p q r = z \<Longrightarrow> P) \<Longrightarrow> P"
  "(case d' of (q, r) \<Rightarrow> p' q r) s = z \<Longrightarrow> (\<And>q r. d' = (q, r) \<Longrightarrow> p' q r s = z \<Longrightarrow> P) \<Longrightarrow> P"
  "(let v = w in f' v) = z \<Longrightarrow> (\<And>v. v = w \<Longrightarrow> f' v = z \<Longrightarrow> P) \<Longrightarrow> P"
  by (auto split: if_splits option.splits sum.splits prod.splits)

lemma refused [simp]:
  "respond_error status code st = (Inr resp, st2) \<longleftrightarrow> resp = error_response status code [] \<and> st2 = st"
  "validation_failed st = (Inr resp, st2) \<longleftrightarrow> resp = error_response 422 ''validation_failed'' [] \<and> st2 = st"
  by (auto simp: respond_error_def validation_failed_def)

lemma error_status [simp]: "rsp_status (error_response status code extra) = status"
  by (simp add: error_response_def)

lemma keys_create_issued:
  assumes "keys_create dp su request params ap st = (Inr resp, st2)" "rsp_status resp = 201"
  obtains tenant env name role expiry permissions i plaintext row keys where
    "key_issue (dp_sha256 dp) (su_bytes su 0) (su_bytes su 1) (su_bytes su 2) (su_nowIso su)
       \<lparr>ik_principalId = au_id (ap_principal ap), ik_tenantId = tenant, ik_environmentId = env, ik_name = name, ik_roles = [role],
        ik_expiresAt = expiry\<rparr> (st_keys st) = ((i, plaintext, row), keys)"
    "map_of (effectiveCatalog (st_rbac st)) role = Some permissions"
    "enforce_all ap (scopeResource (scopeToString (no_scope\<lparr>si_tenantId := tenant, si_environment := env\<rparr>))) permissions = None"
    "st2 = st\<lparr>st_keys := keys\<rparr>"
  using assms(1) unfolding keys_create_def
  by (elim result_elims; (simp add: assms(2); fail)?; (use assms(2) in \<open>auto simp: assms(2); fail\<close>)?)
    (hypsubst, rule that, assumption, assumption, assumption, simp)

text \<open>C14: A key is minted for the caller with one role of the catalog, and only when stored grants of the caller have every
  permission of that role at the scope asked for: the scope of the key when it names a tenant, but for a key that names
  none, and so is global, the scope of a request that names none, which is the tenant of the caller's header.\<close>

theorem key_minting_capped:
  assumes "served sv st" "dp_wired (sv_deps sv)" "session_user p" "as_user sv (rq_headers request) p st = (ap, st1)"
    and "keys_create dp su request params ap st1 = (Inr resp, st2)" "rsp_status resp = 201"
  shows "\<exists>row role permissions. st_keys st2 = key_create row (st_keys st) \<and> ak_principalId row = au_id p \<and> ak_roles row = [role] \<and>
    map_of (effectiveCatalog (st_rbac st)) role = Some permissions \<and>
    (\<forall>permission \<in> set permissions. entitled st (au_id p) permission (asked_scope (rq_headers request) p
       (scopeResource (scopeToString (no_scope\<lparr>si_tenantId := ak_tenantId row, si_environment := ak_environmentId row\<rparr>))))) \<and>
    (let named = scope_of (no_scope\<lparr>si_tenantId := ak_tenantId row, si_environment := ak_environmentId row\<rparr>);
         asked = asked_scope (rq_headers request) p (scopeResource (scopeToString (no_scope\<lparr>si_tenantId := ak_tenantId row, si_environment := ak_environmentId row\<rparr>)))
     in if named = S_global then asked = asked_scope (rq_headers request) p empty_resource else scope_ok named \<longrightarrow> asked = render named)"
proof -
  note inv = served_inv [OF assms(1,2)]
  from as_user_state [OF assms(4)] obtain az where st1: "st1 = st\<lparr>st_az := az\<rparr>" by blast
  have id: "au_id (ap_principal ap) = au_id p"
    using assms(4) by (auto simp: as_user_def attach_closure_def reflect_grants_def Let_def split: prod.splits if_splits)
  have cap: "enforce_all ap r ps = None \<longleftrightarrow> (\<forall>permission \<in> set ps. entitled st (au_id p) permission (asked_scope (rq_headers request) p r))" for r ps
    by (induction ps) (simp_all add: enforce_entitled [OF inv assms(3,4)])
  from keys_create_issued [OF assms(5,6)] obtain tenant env name role expiry permissions i plaintext row keys where
    keys: "key_issue (dp_sha256 dp) (su_bytes su 0) (su_bytes su 1) (su_bytes su 2) (su_nowIso su)
        \<lparr>ik_principalId = au_id (ap_principal ap), ik_tenantId = tenant, ik_environmentId = env, ik_name = name, ik_roles = [role],
         ik_expiresAt = expiry\<rparr> (st_keys st1) = ((i, plaintext, row), keys)"
    and role: "map_of (effectiveCatalog (st_rbac st1)) role = Some permissions"
    and capped: "enforce_all ap (scopeResource (scopeToString (no_scope\<lparr>si_tenantId := tenant, si_environment := env\<rparr>))) permissions = None"
    and st2: "st2 = st1\<lparr>st_keys := keys\<rparr>" .
  have scope: "let asked = asked_scope (rq_headers request) p (scopeResource (scopeToString inp))
     in if scope_of inp = S_global then asked = asked_scope (rq_headers request) p empty_resource else scope_ok (scope_of inp) \<longrightarrow> asked = render (scope_of inp)"
    for inp
    using asked_named [of inp] by (auto simp: scopeToString_render scopeResource_def empty_resource_def parseScope_def Let_def)
  show ?thesis
    using keys role capped [unfolded cap] scope by (auto simp: key_issue_def issued_record_def Let_def st1 st2 id)
qed

theorem key_minting_capped_witness:
  "\<exists>row st2. keys_create some_api_deps some_surroundings
      (ann_request (JObj [(''name'', JStr ''k''), (''role'', JStr ''tenant_admin''), (''tenantId'', JStr some_uuid)])) []
      (fst (as_user some_server [(''x-tenant-id'', [some_uuid])] ann two_accounts))
      (snd (as_user some_server [(''x-tenant-id'', [some_uuid])] ann two_accounts)) = (Inr row, st2) \<and>
    (\<exists>row. st_keys st2 = key_create row [] \<and> ak_principalId row = ''ann'')"
proof -
  let ?request = "ann_request (JObj [(''name'', JStr ''k''), (''role'', JStr ''tenant_admin''), (''tenantId'', JStr some_uuid)])"
  obtain ap st1 where au: "as_user some_server [(''x-tenant-id'', [some_uuid])] ann two_accounts = (ap, st1)" by fastforce
  then have au': "as_user some_server (rq_headers ?request) ann two_accounts = (ap, st1)" by simp
  from as_user_state [OF au] obtain az where st1: "st1 = two_accounts\<lparr>st_az := az\<rparr>" by blast
  have wired: "dp_wired (sv_deps some_server)" by simp
  note inv = served_inv [OF two_accounts_facts(1) wired]
  have type: "au_type (ap_principal ap) = PK_user" "au_id (ap_principal ap) = ''ann''"
    using au by (auto simp: as_user_def attach_closure_def reflect_grants_def ann_def Let_def split: prod.splits if_splits)
  have body: "member (rq_body ?request) ''name'' = JStr ''k''" "member (rq_body ?request) ''role'' = JStr ''tenant_admin''"
    "member (rq_body ?request) ''tenantId'' = JStr some_uuid" "member (rq_body ?request) ''environmentId'' = JUndef"
    "member (rq_body ?request) ''expiresAt'' = JUndef"
    by (simp_all add: member_def obj_get_def)
  have cat: "map_of (effectiveCatalog (st_rbac two_accounts)) ''tenant_admin'' = Some [''user:manage'']"
    by (simp add: two_accounts_def effectiveCatalog_def buildCatalog_def add_permission_def set_add_def)
  let ?inp = "\<lparr>si_tenantId = Some some_uuid, si_environment = None, si_pipelineId = None\<rparr>"
  have sc: "scope_of ?inp = S_tenant some_uuid" by (simp add: scope_of_def uuid_tenant [OF some_uuid_ok]) (simp add: some_uuid_def)
  then have ok: "scope_of ?inp \<noteq> S_global" "scope_ok (scope_of ?inp)" using uuid_tenant(2) [OF some_uuid_ok] by simp_all
  have str: "scopeToString ?inp = ''t/'' @ some_uuid" unfolding scopeToString_render sc by simp
  have "entitled two_accounts (au_id ann) ''user:manage'' (''t/'' @ some_uuid)" by (simp add: entitled_def) (simp add: scopeCovers_def)
  then have "enforce_all ap (scopeResource (scopeToString ?inp)) [''user:manage''] = None"
    by (simp add: enforce_entitled [OF inv ann_facts(1) au'] trans [OF asked_named [OF ok] str])
  moreover have "trim ''k'' = ''k''" "some_uuid \<noteq> []" by code_simp+
  moreover have "some_uuid \<in> set (st_tenants two_accounts)" by (simp add: two_accounts_def)
  ultimately have "\<exists>resp st2. keys_create some_api_deps some_surroundings ?request [] ap st1 = (Inr resp, st2) \<and> rsp_status resp = 201"
    by (simp add: keys_create_def type body key_expiry_def cat st1 key_issue_def ok_response_def Let_def del: ann_facts(4))
  then obtain resp st2 where r: "keys_create some_api_deps some_surroundings ?request [] ap st1 = (Inr resp, st2)" "rsp_status resp = 201" by blast
  have "st_keys two_accounts = []" by (simp add: two_accounts_def)
  with key_minting_capped [OF two_accounts_facts(1) wired ann_facts(1) au' r] r(1) au show ?thesis by auto
qed

end
