(* ===== verification/Public_Routes.thy ===== *)
theory Public_Routes
  imports Access_Control
begin

text \<open>
  Which handlers of the account API a request without credentials reaches: path matching
  (\<open>compile\<close> and \<open>matchRoute\<close> drop empty segments, the check for public paths in
  \<open>apps/api/src/app.ts\<close> does not) against the route table; and what the routes of identity
  providers show of their secrets.
\<close>

definition open_patterns :: "string list" where
  "open_patterns = [''/api/auth/login'', ''/api/auth/signup'', ''/api/auth/providers'', ''/api/auth/sso/:slug/start'',
     ''/api/auth/sso/:slug/callback'']"

lemma compiled:
  "map (\<lambda>(mth, pattern, run). compile pattern) (account_routes dp su) = [
     [''api'', ''auth'', ''login''], [''api'', ''auth'', ''signup''], [''api'', ''auth'', ''logout''], [''api'', ''auth'', ''me''],
     [''api'', ''auth'', ''me''], [''api'', ''auth'', ''password''], [''api'', ''api-keys''], [''api'', ''api-keys''],
     [''api'', ''api-keys'', '':id''], [''api'', ''auth'', ''providers''], [''api'', ''auth'', ''sso'', '':slug'', ''start''],
     [''api'', ''auth'', ''sso'', '':slug'', ''callback''], [''api'', ''auth'', ''sso'', '':slug'', ''callback''],
     [''api'', ''users''], [''api'', ''users''], [''api'', ''users'', '':id''], [''api'', ''users'', '':id''],
     [''api'', ''users'', '':id'', ''grants''], [''api'', ''users'', '':id'', ''grants''], [''api'', ''users'', '':id'', ''grants'', '':grantId''],
     [''api'', ''roles''], [''api'', ''roles''], [''api'', ''roles'', '':name'', ''permissions''], [''api'', ''roles'', '':name''],
     [''api'', ''identity-providers''], [''api'', ''identity-providers''], [''api'', ''identity-providers'', '':id''],
     [''api'', ''identity-providers'', '':id''], [''api'', ''auth'', ''settings''], [''api'', ''auth'', ''settings'']]"
  by (simp add: account_routes_def compile_def)

lemma match_literals:
  "match_segments segs ps params = Inr (Some out) \<Longrightarrow> length segs = length ps \<Longrightarrow> k < length segs \<Longrightarrow>
   \<not> starts_with '':'' (segs ! k) \<Longrightarrow> segs ! k = ps ! k"
proof (induction segs ps params arbitrary: k rule: match_segments.induct)
  case (1 seg segs p ps params)
  then show ?case by (cases k) (auto split: if_splits option.splits)
qed auto

lemma find_route_match:
  "find_route n rs mth path = Inr (Some (i, params)) \<Longrightarrow> matchRoute (rs ! (i - n)) mth path = Inr (Some params)"
proof (induction n rs mth path rule: find_route.induct)
  case (2 n r rs mth path)
  then show ?case
    using find_route_bound [of "Suc n" rs mth path i params] by (auto simp: nth_Cons' Suc_diff_Suc split: sum.splits option.splits)
qed simp

lemma route_literals:
  assumes "find_route 0 (map ah_route (account_api dp su)) mth (compile path) = Inr (Some (i, params))"
  shows "i < length (account_routes dp su) \<and> length (compile (fst (snd (account_routes dp su ! i)))) = length (compile path) \<and>
    (\<forall>k < length (compile path). \<not> starts_with '':'' (compile (fst (snd (account_routes dp su ! i))) ! k) \<longrightarrow>
       compile (fst (snd (account_routes dp su ! i))) ! k = compile path ! k)"
proof -
  have i: "i < length (account_routes dp su)" using find_route_bound [OF assms] by (simp add: account_api_def)
  have "map ah_route (account_api dp su) ! i = \<lparr>rt_method = fst (account_routes dp su ! i), rt_segments = compile (fst (snd (account_routes dp su ! i)))\<rparr>"
    using i by (simp add: account_api_def split_beta)
  with find_route_match [OF assms] have "matchRoute \<lparr>rt_method = fst (account_routes dp su ! i),
      rt_segments = compile (fst (snd (account_routes dp su ! i)))\<rparr> mth (compile path) = Inr (Some params)" by simp
  with i show ?thesis using match_literals by (auto simp: matchRoute_def split: if_splits)
qed

lemma compile_prefix:
  "starts_with ''/api/auth/sso/'' path \<Longrightarrow> \<exists>xs. compile path = ''api'' # ''auth'' # ''sso'' # xs"
  "starts_with ''/api/triggers/webhook/'' path \<Longrightarrow> \<exists>xs. compile path = ''api'' # ''triggers'' # ''webhook'' # xs"
proof -
  have d: "path = p @ drop (length p) path" if "starts_with p path" for p
    using that by (metis append_take_drop_id starts_with_def)
  show "\<exists>xs. compile path = ''api'' # ''auth'' # ''sso'' # xs" if "starts_with ''/api/auth/sso/'' path"
    by (subst d [OF that]) (simp add: compile_def)
  show "\<exists>xs. compile path = ''api'' # ''triggers'' # ''webhook'' # xs" if "starts_with ''/api/triggers/webhook/'' path"
    by (subst d [OF that]) (simp add: compile_def)
qed

text \<open>A public path reaches only the routes that are meant to be open.\<close>

lemma public_open:
  assumes "isPublic path" "find_route 0 (map ah_route (account_api dp su)) mth (compile path) = Inr (Some (i, params))"
  shows "fst (snd (account_routes dp su ! i)) \<in> set open_patterns"
proof -
  define segs where "segs = map (\<lambda>(mth, pattern, run). compile pattern) (account_routes dp su)"
  note r = route_literals [OF assms(2)]
  then have i: "i < length segs" "segs ! i = compile (fst (snd (account_routes dp su ! i)))" by (simp_all add: segs_def split_beta)
  have lits: "segs ! i ! k = compile path ! k" if "k < length (compile path)" "\<not> starts_with '':'' (segs ! i ! k)" for k
    using r that unfolding i(2) by blast
  have len: "length (segs ! i) = length (compile path)" using r unfolding i(2) by blast
  have opened: "list_all (\<lambda>(mth, pattern, run). compile pattern ! 1 = ''auth'' \<and> 2 < length (compile pattern) \<and>
      compile pattern ! 2 \<in> {''login'', ''signup'', ''providers'', ''sso''} \<longrightarrow> pattern \<in> set open_patterns) (account_routes dp su)"
    by (simp add: account_routes_def compile_def open_patterns_def)
  have head: "list_all (\<lambda>ss. 1 < length ss \<and> \<not> starts_with '':'' (ss ! 1) \<and> ss ! 1 \<noteq> ''triggers'' \<and> ss ! 1 \<noteq> ''internal'' \<and>
      (ss ! 1 = ''auth'' \<longrightarrow> 2 < length ss \<and> \<not> starts_with '':'' (ss ! 2))) segs"
    unfolding segs_def compiled by (simp add: starts_with_def)
  then have h: "1 < length (segs ! i)" "\<not> starts_with '':'' (segs ! i ! 1)" "segs ! i ! 1 \<noteq> ''triggers''" "segs ! i ! 1 \<noteq> ''internal''"
    "segs ! i ! 1 = ''auth'' \<Longrightarrow> 2 < length (segs ! i) \<and> \<not> starts_with '':'' (segs ! i ! 2)"
    using i(1) by (simp_all add: list_all_length)
  have one: "segs ! i ! 1 = compile path ! 1" by (rule lits) (use h len in simp_all)
  have exact: "compile ''/healthz'' = [''healthz'']" "compile ''/readyz'' = [''readyz'']"
    "compile ''/api/auth/login'' = [''api'', ''auth'', ''login'']" "compile ''/api/auth/signup'' = [''api'', ''auth'', ''signup'']"
    "compile ''/api/auth/providers'' = [''api'', ''auth'', ''providers'']"
    "compile ''/api/internal/connection-credentials/refresh'' = [''api'', ''internal'', ''connection-credentials'', ''refresh'']"
    by (simp_all add: compile_def)
  consider "compile path = [''healthz'']" | "compile path = [''readyz'']" | "compile path = [''api'', ''auth'', ''login'']"
    | "compile path = [''api'', ''auth'', ''signup'']" | "compile path = [''api'', ''auth'', ''providers'']"
    | "compile path = [''api'', ''internal'', ''connection-credentials'', ''refresh'']"
    | xs where "compile path = ''api'' # ''auth'' # ''sso'' # xs" | xs where "compile path = ''api'' # ''triggers'' # ''webhook'' # xs"
    using assms(1) exact compile_prefix [of path] unfolding isPublic_def by blast
  then have "compile path ! 1 = ''auth'' \<and> compile path ! 2 \<in> {''login'', ''signup'', ''providers'', ''sso''}"
    using one h len by cases auto
  moreover from this have "segs ! i ! 2 = compile path ! 2" using h(5) one by (intro lits) (use len in auto)
  ultimately have "segs ! i ! 1 = ''auth'' \<and> 2 < length (segs ! i) \<and> segs ! i ! 2 \<in> {''login'', ''signup'', ''providers'', ''sso''}"
    using one h(5) by simp
  moreover have "(\<lambda>(mth, pattern, run). compile pattern ! 1 = ''auth'' \<and> 2 < length (compile pattern) \<and>
      compile pattern ! 2 \<in> {''login'', ''signup'', ''providers'', ''sso''} \<longrightarrow> pattern \<in> set open_patterns) (account_routes dp su ! i)"
    by (rule mp [OF spec [OF opened [unfolded list_all_length]] conjunct1 [OF r]])
  ultimately show ?thesis unfolding i(2) split_beta by blast
qed

text \<open>Revocations that have expired are dropped whenever a revocation is looked up.\<close>

fun expired_dropped :: "int \<Rightarrow> revocation_store \<Rightarrow> revocation_store" where
  "expired_dropped now (Sync_store entries) = Sync_store (revocation_gc now entries)"
| "expired_dropped now store = store"

lemma refused_request:
  assumes "resolve_request ss dp su hs st = (Inl e, s0)"
  shows "s0 \<in> {st, st\<lparr>st_revoked := expired_dropped (su_nowMs su) (st_revoked st)\<rparr>}"
proof -
  have sv: "snd (session_verify ss now credential store) \<in> {store, expired_dropped now store}" for now credential store
    by (cases store) (simp_all add: session_verify_def revocation_isRevoked_def Let_def split: sum.split)
  have session: "snd (resolve_session ss su credential st) \<in> {st, st\<lparr>st_revoked := expired_dropped (su_nowMs su) (st_revoked st)\<rparr>}" for credential
  proof -
    have "snd (resolve_session ss su credential st) = st\<lparr>st_revoked := snd (session_verify ss (su_nowMs su) credential (st_revoked st))\<rparr>"
      by (simp add: resolve_session_def split_beta)
    then show ?thesis using sv [of "su_nowMs su" credential "st_revoked st"] by auto
  qed
  have key: "resolve_key dp su credential st = (Inl e, s0) \<Longrightarrow> s0 = st" for credential
    by (auto simp: resolve_key_def key_verify_def Let_def split: if_splits option.splits prod.splits)
  from assms show ?thesis
    unfolding resolve_request_def resolve_with_def Let_def option.case using session key by (smt (verit) prod.inject snd_conv insertI1)
qed

text \<open>C15: A request that reaches a handler of the account API without valid credentials is refused and changes nothing in
  its state, but for revocations that have expired, which may be dropped; the exceptions are login, signup, the list of
  identity providers and the two legs of single sign-on: no spelling of a path that is taken for public reaches
  another handler of this API.\<close>

theorem no_anonymous_access:
  assumes "find_route 0 (map ah_route (account_api (sv_deps sv) su)) (rq_method request) (compile (rq_path request)) = Inr (Some (i, params))"
    and "fst (snd (account_routes (sv_deps sv) su ! i)) \<notin> set open_patterns"
    and "resolve_request (sv_sessions sv) (sv_deps sv) su (rq_headers request) st = (Inl e, s0)"
  shows "serve sv su request st = (Inr (error_response 401 ''unauthorized'' []), s0) \<and>
    s0 \<in> {st, st\<lparr>st_revoked := expired_dropped (su_nowMs su) (st_revoked st)\<rparr>}"
proof -
  have "\<not> isPublic (rq_path request)" using public_open [OF _ assms(1)] assms(2) by blast
  then have "serve sv su request st = (Inr (error_response 401 ''unauthorized'' []), s0)"
    by (simp add: serve_def handle_def assms(1,3) Let_def authenticate_def) (simp add: api_env_of_def assms(3) authenticate_def)
  with refused_request [OF assms(3)] show ?thesis by blast
qed

theorem no_anonymous_access_witness:
  "serve some_server some_surroundings \<lparr>rq_method = ''GET'', rq_path = ''/api/users'', rq_headers = [], rq_query = [], rq_body = JUndef\<rparr>
     two_accounts = (Inr (error_response 401 ''unauthorized'' []), two_accounts)"
proof -
  let ?request = "\<lparr>rq_method = ''GET'', rq_path = ''/api/users'', rq_headers = [], rq_query = [], rq_body = JUndef\<rparr>"
  have "find_route 0 (map ah_route (account_api (sv_deps some_server) some_surroundings)) (rq_method ?request) (compile (rq_path ?request)) =
      Inr (Some (13, []))"
    by (simp add: account_api_def account_routes_def compile_def matchRoute_def starts_with_def)
  moreover have "fst (snd (account_routes (sv_deps some_server) some_surroundings ! 13)) \<notin> set open_patterns"
    by (simp add: account_routes_def open_patterns_def)
  moreover have "resolve_request (sv_sessions some_server) (sv_deps some_server) some_surroundings (rq_headers ?request) two_accounts =
      (Inl UnauthorizedError, two_accounts)"
    by (simp add: resolve_request_def resolve_with_def headerValue_def)
  ultimately show ?thesis using no_anonymous_access by blast
qed

section \<open>Identity providers\<close>

text \<open>
  The members of a provider's configuration that are secrets: the client secret of OpenID Connect and the private keys of
  SAML.  Two rows that differ in these only.
\<close>

definition secret_member :: "string \<Rightarrow> bool" where
  "secret_member k \<longleftrightarrow> k = ''clientSecret'' \<or> k = ''spPrivateKey'' \<or> k = ''privateKey''"

definition same_but_secrets :: "IdentityProviderRow \<Rightarrow> IdentityProviderRow \<Rightarrow> bool" where
  "same_but_secrets a b \<longleftrightarrow> a\<lparr>ip_config := []\<rparr> = b\<lparr>ip_config := []\<rparr> \<and>
     list_all2 (\<lambda>(k, v) (l, w). k = l \<and> (\<not> secret_member k \<longrightarrow> v = w)) (ip_config a) (ip_config b)"

lemma redact_same: "list_all2 (\<lambda>(k, v) (l, w). k = l \<and> (\<not> secret_member k \<longrightarrow> v = w)) xs ys \<Longrightarrow> redact_config xs = redact_config ys"
  by (induction rule: list_all2_induct) (auto simp: redact_config_def idp_secrets_def secret_member_def)

lemma publicIdp_same:
  assumes "same_but_secrets a b"
  shows "publicIdp a = publicIdp b"
proof -
  have "ip_id a = ip_id b" "ip_slug a = ip_slug b" "ip_kind a = ip_kind b" "ip_displayName a = ip_displayName b" "ip_enabled a = ip_enabled b"
    using assms by (cases a, cases b, simp add: same_but_secrets_def)+
  with redact_same [of "ip_config a" "ip_config b"] assms show ?thesis by (simp add: publicIdp_def same_but_secrets_def)
qed

lemma obj_set_same: "distinct (map fst cfg) \<Longrightarrow> (k, v) \<in> set cfg \<Longrightarrow> obj_set k v cfg = cfg"
proof -
  assume d: "distinct (map fst cfg)" and m: "(k, v) \<in> set cfg"
  have "AList.update k v cfg = cfg" using d m by (induction cfg) (auto simp: image_iff)
  then show ?thesis using m by (force simp: obj_set_def)
qed

lemma merge_redacted:
  assumes "distinct (map fst stored)"
  shows "merge_config stored (redact_config stored) = stored"
proof -
  have "fold (\<lambda>(k, v) cfg. if v = JStr ''REDACTED'' then cfg else obj_set k v cfg) (redact_config part) stored = stored"
    if "set part \<subseteq> set stored" for part
    using that by (induction part) (auto simp: redact_config_def obj_set_same [OF assms])
  then show ?thesis by (simp add: merge_config_def)
qed

text \<open>C29: What the routes show of identity providers does not depend on their secrets, and sending back the configuration that
  was shown leaves the stored one, secrets included, as it is.\<close>

theorem idp_secrets_safe:
  assumes "list_all2 same_but_secrets (crud_list (st_idps a)) (crud_list (st_idps b))"
    and "crud_get (st_idps a) i = Some row" "ip_id row = i" "distinct (map fst (ip_config row))"
    and "enforce (ap_authorize ap) (ap_principal ap) ''idp:manage'' empty_resource = Inr ()"
    and "rq_body request = JObj [(''config'', JObj (redact_config (ip_config row)))]"
  shows "fst (idps_list request' params ap a) = fst (idps_list request' params ap b) \<and>
    (\<exists>resp st2. idps_update su request [(''id'', i)] ap a = (Inr resp, st2) \<and> rsp_status resp = 200 \<and>
       crud_get (st_idps st2) i = Some (row\<lparr>ip_updatedAt := su_nowIso su\<rparr>))"
proof -
  have "map publicIdp (crud_list (st_idps a)) = map publicIdp (crud_list (st_idps b))"
    using assms(1) by (induction rule: list_all2_induct) (simp_all add: publicIdp_same)
  then have "fst (idps_list request' params ap a) = fst (idps_list request' params ap b)"
    by (simp add: idps_list_def guarded_def assms(5))
  moreover have "member (rq_body request) ''config'' = JObj (redact_config (ip_config row))" "member (rq_body request) ''displayName'' = JUndef"
    "member (rq_body request) ''enabled'' = JUndef" "isObject (rq_body request)"
    by (simp_all add: assms(6) member_def obj_get_def)
  then have "patch_idp (rq_body request) now row = row\<lparr>ip_updatedAt := now\<rparr>" for now
    by (cases row) (use merge_redacted [OF assms(4)] in \<open>simp add: patch_idp_def Let_def\<close>)
  then have "\<exists>resp st2. idps_update su request [(''id'', i)] ap a = (Inr resp, st2) \<and> rsp_status resp = 200 \<and>
       crud_get (st_idps st2) i = Some (row\<lparr>ip_updatedAt := su_nowIso su\<rparr>)"
    using assms(2,3) by (cases row) (simp add: idps_update_def guarded_def assms(5,6) param_def crud_get_def crud_update_def ok_response_def Let_def)
  ultimately show ?thesis by blast
qed

definition some_idp :: "string \<Rightarrow> IdentityProviderRow" where
  "some_idp secret = \<lparr>ip_id = ''i'', ip_slug = ''okta'', ip_kind = ''oidc'', ip_displayName = ''Okta'', ip_enabled = True,
     ip_config = [(''issuer'', JStr ''u''), (''clientSecret'', JStr secret)], ip_createdAt = ''t'', ip_updatedAt = ''t''\<rparr>"

theorem idp_secrets_safe_witness:
  "\<exists>ap. fst (idps_list (ann_request JUndef) [] ap (two_accounts\<lparr>st_idps := [(''i'', some_idp ''s1'')]\<rparr>)) =
      fst (idps_list (ann_request JUndef) [] ap (two_accounts\<lparr>st_idps := [(''i'', some_idp ''s2'')]\<rparr>)) \<and>
    (\<exists>resp st2. idps_update some_surroundings (ann_request (JObj [(''config'', JObj [(''issuer'', JStr ''u''), (''clientSecret'', JStr ''REDACTED'')])]))
        [(''id'', ''i'')] ap (two_accounts\<lparr>st_idps := [(''i'', some_idp ''s1'')]\<rparr>) = (Inr resp, st2) \<and>
      crud_get (st_idps st2) ''i'' = Some (some_idp ''s1''\<lparr>ip_updatedAt := su_nowIso some_surroundings\<rparr>))"
proof -
  let ?ap = "\<lparr>ap_principal = ann, ap_authorize = Some (\<lambda>p r. True)\<rparr>"
  let ?a = "two_accounts\<lparr>st_idps := [(''i'', some_idp ''s1'')]\<rparr>" and ?b = "two_accounts\<lparr>st_idps := [(''i'', some_idp ''s2'')]\<rparr>"
  have "list_all2 same_but_secrets (crud_list (st_idps ?a)) (crud_list (st_idps ?b))"
    "crud_get (st_idps ?a) ''i'' = Some (some_idp ''s1'')" "ip_id (some_idp ''s1'') = ''i''" "distinct (map fst (ip_config (some_idp ''s1'')))"
    "enforce (ap_authorize ?ap) (ap_principal ?ap) ''idp:manage'' empty_resource = Inr ()"
    "rq_body (ann_request (JObj [(''config'', JObj [(''issuer'', JStr ''u''), (''clientSecret'', JStr ''REDACTED'')])])) =
       JObj [(''config'', JObj (redact_config (ip_config (some_idp ''s1''))))]"
    by (simp_all add: crud_list_def crud_get_def some_idp_def same_but_secrets_def secret_member_def idp_secrets_def enforce_def redact_config_def)
  from idp_secrets_safe [OF this, of "ann_request JUndef" "[]" some_surroundings] show ?thesis by blast
qed

end
