(* ===== verification/Scheduler.thy ===== *)
theory Scheduler
  imports Account_Api
begin

text \<open>
  Schedules: the wrapper of the cron library (\<open>packages/cron/src/index.ts\<close>), the in-memory repository
  (\<open>packages/db/src/memory/pipelines.ts\<close>), the routes (\<open>apps/api/src/app/routes/schedules.ts\<close>) and the
  scheduler of the worker (\<open>apps/worker/src/scheduler.ts\<close>).  The cron library, the printing of dates
  and the queue behind the port are parameters; logs are left out.  The authorizer of a tick is the
  worker's own: the invalidations of the API reach the authorizer of the API process only.
\<close>

section \<open>The cron library\<close>

text \<open>Times are milliseconds.  \<open>cr_nextRun\<close> is the library's search for the next firing time.\<close>

record croner =
  cr_timezone_ok :: "string \<Rightarrow> bool"
  cr_pattern_ok :: "string \<Rightarrow> string \<Rightarrow> bool"
  cr_nextRun :: "string \<Rightarrow> string \<Rightarrow> int \<Rightarrow> int option"

datatype cron_error = CronParseError | CronError

definition cron_build :: "croner \<Rightarrow> string \<Rightarrow> string \<Rightarrow> cron_error + unit" where
  "cron_build cr expr timezone =
     (if timezone \<noteq> [] \<and> \<not> cr_timezone_ok cr timezone then Inl CronParseError
      else if \<not> cr_pattern_ok cr expr timezone then Inl CronParseError else Inr ())"

definition parseCron :: "croner \<Rightarrow> string \<Rightarrow> string \<Rightarrow> cron_error + unit" where
  "parseCron cr expr timezone = cron_build cr expr timezone"

definition nextAfter :: "croner \<Rightarrow> string \<Rightarrow> int \<Rightarrow> string \<Rightarrow> cron_error + int" where
  "nextAfter cr expr after timezone =
     (case cron_build cr expr timezone of
        Inl e \<Rightarrow> Inl e
      | Inr _ \<Rightarrow> (case cr_nextRun cr expr timezone after of None \<Rightarrow> Inl CronError | Some t \<Rightarrow> Inr t))"

fun next_runs :: "croner \<Rightarrow> string \<Rightarrow> string \<Rightarrow> nat \<Rightarrow> int \<Rightarrow> int list" where
  "next_runs cr expr timezone 0 cursor = []"
| "next_runs cr expr timezone (Suc n) cursor =
     (case cr_nextRun cr expr timezone cursor of
        None \<Rightarrow> []
      | Some t \<Rightarrow> t # next_runs cr expr timezone n t)"

definition nextRuns :: "croner \<Rightarrow> string \<Rightarrow> int \<Rightarrow> nat \<Rightarrow> string \<Rightarrow> cron_error + int list" where
  "nextRuns cr expr after count timezone =
     (case cron_build cr expr timezone of Inl e \<Rightarrow> Inl e | Inr _ \<Rightarrow> Inr (next_runs cr expr timezone count after))"

text \<open>What the library documents: the next firing time is after the given one.\<close>

definition croner_ok :: "croner \<Rightarrow> bool" where
  "croner_ok cr \<longleftrightarrow> (\<forall>expr timezone t u. cr_nextRun cr expr timezone t = Some u \<longrightarrow> t < u)"

section \<open>The repository\<close>

record ScheduleRow =
  sh_id :: string
  sh_tenantId :: "string option"
  sh_pipelineId :: "string option"
  sh_environment :: "string option"
  sh_activationLabel :: "string option"
  sh_cron :: string
  sh_timezone :: string
  sh_input :: json
  sh_enabled :: bool
  sh_lastRunAt :: "string option"
  sh_nextRunAt :: "string option"
  sh_createdAt :: string
  sh_createdBy :: "string option"
  sh_jobType :: "string option"
  sh_system :: bool
  sh_name :: "string option"
  sh_params :: json

type_synonym schedules = "ScheduleRow rows"

definition schedule_update :: "string \<Rightarrow> (ScheduleRow \<Rightarrow> ScheduleRow) \<Rightarrow> schedules \<Rightarrow> repo_error + ScheduleRow \<times> schedules" where
  "schedule_update = crud_update (\<lambda>i r. r\<lparr>sh_id := i\<rparr>) ''schedule''"

definition listEnabled :: "schedules \<Rightarrow> ScheduleRow list" where
  "listEnabled rs = filter sh_enabled (crud_list rs)"

definition is_due :: "string \<Rightarrow> ScheduleRow \<Rightarrow> bool" where
  "is_due nowIso row \<longleftrightarrow> sh_enabled row \<and> (case sh_nextRunAt row of None \<Rightarrow> False | Some next \<Rightarrow> next \<le> nowIso)"

definition listDue :: "string \<Rightarrow> schedules \<Rightarrow> ScheduleRow list" where
  "listDue nowIso rs = filter (is_due nowIso) (crud_list rs)"

definition markRun :: "string \<Rightarrow> string option \<Rightarrow> string option \<Rightarrow> schedules \<Rightarrow> repo_error + ScheduleRow \<times> schedules" where
  "markRun i lastRun nextRun = schedule_update i (\<lambda>r. r\<lparr>sh_lastRunAt := lastRun, sh_nextRunAt := nextRun\<rparr>)"

section \<open>The routes\<close>

text \<open>\<open>isodate\<close> prints a time.  A schedule of the API names a tenant, a pipeline and an environment.\<close>

definition schedule_json :: "ScheduleRow \<Rightarrow> json" where
  "schedule_json r = JObj (filter (\<lambda>(k, v). v \<noteq> JUndef) [(''id'', JStr (sh_id r)), (''tenantId'', null_json (sh_tenantId r)),
     (''pipelineId'', null_json (sh_pipelineId r)), (''environment'', null_json (sh_environment r)),
     (''activationLabel'', null_json (sh_activationLabel r)), (''cron'', JStr (sh_cron r)), (''timezone'', JStr (sh_timezone r)),
     (''input'', sh_input r), (''enabled'', JBool (sh_enabled r)), (''lastRunAt'', null_json (sh_lastRunAt r)),
     (''nextRunAt'', null_json (sh_nextRunAt r)), (''createdAt'', JStr (sh_createdAt r)), (''createdBy'', opt_json (sh_createdBy r)),
     (''jobType'', opt_json (sh_jobType r)), (''system'', if sh_system r then JBool True else JUndef), (''name'', opt_json (sh_name r)),
     (''params'', sh_params r)])"

datatype next_run = Next string | Bad_cron | Next_failed

definition scheduleNextRun :: "croner \<Rightarrow> (int \<Rightarrow> string) \<Rightarrow> int \<Rightarrow> string \<Rightarrow> string \<Rightarrow> next_run" where
  "scheduleNextRun cr isodate now expr timezone =
     (case parseCron cr expr timezone of
        Inl e \<Rightarrow> Bad_cron
      | Inr _ \<Rightarrow> (case nextAfter cr expr now timezone of Inl e \<Rightarrow> Next_failed | Inr t \<Rightarrow> Next (isodate t)))"

type_synonym schedule_handler = "AppRequest \<Rightarrow> (string, string) jsmap \<Rightarrow> api_principal \<Rightarrow> schedules \<Rightarrow> (route_error + AppResponse) \<times> schedules"

definition tenant_resource :: "string option \<Rightarrow> Resource" where
  "tenant_resource tenantId = \<lparr>rs_tenantId = tenantId, rs_pipelineId = None, rs_environment = None\<rparr>"

definition schedules_list :: schedule_handler where
  "schedules_list request params ap rs = guarded ap ''execution:view_logs'' empty_resource rs
     (let p = ap_principal ap; tenant = map_of (rq_query request) ''tenant''; pipeline = map_of (rq_query request) ''pipeline'';
          rows0 = crud_list rs;
          rows1 = (if ''platform_admin'' \<notin> set (au_roles p) \<and> str_truthy (au_tenantId p)
                   then filter (\<lambda>r. sh_tenantId r = au_tenantId p) rows0 else rows0);
          rows2 = (if str_truthy tenant then filter (\<lambda>r. sh_tenantId r = tenant) rows1 else rows1);
          rows3 = (if str_truthy pipeline then filter (\<lambda>r. sh_pipelineId r = pipeline) rows2 else rows2)
      in (Inr (ok_response 200 (JObj [(''schedules'', JArr (map schedule_json rows3))])), rs))"

definition schedules_create :: "croner \<Rightarrow> (int \<Rightarrow> string) \<Rightarrow> surroundings \<Rightarrow> schedule_handler" where
  "schedules_create cr isodate su request params ap rs =
     (let body = rq_body request
      in case (opt_str (member body ''tenantId''), opt_str (member body ''pipelineId''), opt_str (member body ''environment''),
               opt_str (member body ''cron'')) of
           (Some tenantId, Some pipelineId, Some environment, Some cron) \<Rightarrow>
             guarded ap ''config:edit_tenant'' (tenant_resource (Some tenantId)) rs
               (let tz = nullish (opt_str (member body ''timezone'')) ''UTC''
                in case scheduleNextRun cr isodate (su_nowMs su) cron tz of
                     Bad_cron \<Rightarrow> validation_failed rs
                   | Next_failed \<Rightarrow> (Inl Route_failed, rs)
                   | Next next \<Rightarrow>
                       (case crud_create sh_id ''schedule'' \<lparr>sh_id = nullish (opt_str (member body ''id'')) (su_uuids su 0),
                               sh_tenantId = Some tenantId, sh_pipelineId = Some pipelineId, sh_environment = Some environment,
                               sh_activationLabel = opt_str (member body ''activationLabel''), sh_cron = cron, sh_timezone = tz,
                               sh_input = (if isObject (member body ''input'') then member body ''input'' else JObj []),
                               sh_enabled = (member body ''enabled'' \<noteq> JBool False), sh_lastRunAt = None, sh_nextRunAt = Some next,
                               sh_createdAt = su_nowIso su, sh_createdBy = None, sh_jobType = None, sh_system = False, sh_name = None,
                               sh_params = JUndef\<rparr> rs of
                          Inl e \<Rightarrow> (Inl (repo_exception e), rs)
                        | Inr (r, rs') \<Rightarrow> (Inr (ok_response 201 (JObj [(''schedule'', schedule_json r)])), rs')))
         | _ \<Rightarrow> validation_failed rs)"

text \<open>Who may change a schedule.\<close>

definition schedule_guard ::
  "api_principal \<Rightarrow> ScheduleRow \<Rightarrow> schedules \<Rightarrow> (route_error + AppResponse) \<times> schedules \<Rightarrow> (route_error + AppResponse) \<times> schedules"
where
  "schedule_guard ap row rs k =
     (if sh_system row then guarded ap ''config:edit_global'' empty_resource rs k
      else guarded ap ''config:edit_tenant'' (tenant_resource (sh_tenantId row)) rs k)"

definition write_schedule :: "string \<Rightarrow> (ScheduleRow \<Rightarrow> ScheduleRow) \<Rightarrow> schedules \<Rightarrow> (route_error + AppResponse) \<times> schedules" where
  "write_schedule i patch rs =
     (case schedule_update i patch rs of
        Inl e \<Rightarrow> (Inl (repo_exception e), rs)
      | Inr (r, rs') \<Rightarrow> (Inr (ok_response 200 (JObj [(''schedule'', schedule_json r)])), rs'))"

definition has_member :: "json \<Rightarrow> string \<Rightarrow> bool" where
  "has_member body k \<longleftrightarrow> k \<in> fst ` set (members body)"

definition patch_schedule :: "json \<Rightarrow> ScheduleRow \<Rightarrow> ScheduleRow" where
  "patch_schedule body r0 =
     (let r1 = (case opt_str (member body ''environment'') of Some e \<Rightarrow> r0\<lparr>sh_environment := Some e\<rparr> | None \<Rightarrow> r0);
          r2 = (if has_member body ''activationLabel'' then r1\<lparr>sh_activationLabel := opt_str (member body ''activationLabel'')\<rparr> else r1);
          r3 = (case opt_str (member body ''timezone'') of Some z \<Rightarrow> r2\<lparr>sh_timezone := z\<rparr> | None \<Rightarrow> r2);
          r4 = (if isObject (member body ''input'') then r3\<lparr>sh_input := member body ''input''\<rparr> else r3)
      in (case member body ''enabled'' of JBool b \<Rightarrow> r4\<lparr>sh_enabled := b\<rparr> | _ \<Rightarrow> r4))"

definition schedules_put :: "croner \<Rightarrow> (int \<Rightarrow> string) \<Rightarrow> surroundings \<Rightarrow> schedule_handler" where
  "schedules_put cr isodate su request params ap rs =
     (let i = param params ''id''; body = rq_body request
      in case crud_get rs i of
           None \<Rightarrow> respond_error 404 ''not_found'' rs
         | Some before \<Rightarrow> schedule_guard ap before rs
             (if \<not> isObject body then validation_failed rs
              else (case opt_str (member body ''cron'') of
                      None \<Rightarrow> write_schedule i (patch_schedule body) rs
                    | Some cron \<Rightarrow>
                        (case scheduleNextRun cr isodate (su_nowMs su) cron (nullish (opt_str (member body ''timezone'')) (sh_timezone before)) of
                           Bad_cron \<Rightarrow> validation_failed rs
                         | Next_failed \<Rightarrow> (Inl Route_failed, rs)
                         | Next next \<Rightarrow> write_schedule i
                             (\<lambda>r. (patch_schedule body r)\<lparr>sh_cron := cron, sh_nextRunAt := Some next\<rparr>) rs))))"

definition schedules_toggle :: schedule_handler where
  "schedules_toggle request params ap rs =
     (let i = param params ''id''
      in case crud_get rs i of
           None \<Rightarrow> respond_error 404 ''not_found'' rs
         | Some before \<Rightarrow> schedule_guard ap before rs
             (case member (rq_body request) ''enabled'' of
                JBool b \<Rightarrow> write_schedule i (\<lambda>r. r\<lparr>sh_enabled := b\<rparr>) rs
              | _ \<Rightarrow> validation_failed rs))"

definition schedules_delete :: schedule_handler where
  "schedules_delete request params ap rs =
     (let i = param params ''id''
      in case crud_get rs i of
           None \<Rightarrow> respond_error 404 ''not_found'' rs
         | Some before \<Rightarrow>
             if sh_system before then respond_error 403 ''system_schedule_undeletable'' rs
             else guarded ap ''config:edit_tenant'' (tenant_resource (sh_tenantId before)) rs (Inr no_content, crud_delete i rs))"

section \<open>The scheduler\<close>

record EnqueuedBy =
  eb_principalId :: string
  eb_principalType :: PrincipalKind
  eb_tenantId :: "string option"
  eb_roles :: "string list"
  eb_requestId :: "string option"

record RunPipelineJob =
  rj_tenantId :: "string option"
  rj_pipelineId :: "string option"
  rj_environment :: "string option"
  rj_activationLabel :: "string option"
  rj_pipelineVersionId :: "string option"
  rj_version :: "string option"
  rj_input :: json
  rj_runtimeOverrides :: "(string \<times> json) list option"
  rj_requestId :: "string option"
  rj_executionId :: "string option"
  rj_deadlineMs :: "nat option"
  rj_source :: "string option"
  rj_enqueuedBy :: "EnqueuedBy option"

datatype job_payload = Run_pipeline RunPipelineJob | System_job json

record QueueJob =
  qj_id :: string
  qj_type :: string
  qj_payload :: job_payload

text \<open>
  \<open>sd_accepts\<close> is whether the queue takes a job, \<open>sd_leader\<close> the answer of the leader election, if one is
  wired, \<open>sd_authorizer\<close> whether an authorizer is wired, \<open>sd_uuid\<close> the identifiers drawn for jobs.
\<close>

record sched_deps =
  sd_croner :: croner
  sd_iso :: "int \<Rightarrow> string"
  sd_accepts :: "QueueJob \<Rightarrow> bool"
  sd_authorizer :: bool
  sd_leader :: "bool option"
  sd_uuid :: "nat \<Rightarrow> string"

record sched_state =
  sq_rows :: schedules
  sq_queue :: "QueueJob list"
  sq_az :: Authorizer

datatype tick_error = Queue_failed | Row_missing

definition object_or_empty :: "json \<Rightarrow> json" where
  "object_or_empty v = (if v = JUndef \<or> v = JNull then JObj [] else v)"

definition runPipelinePayload :: "ScheduleRow \<Rightarrow> RunPipelineJob" where
  "runPipelinePayload row = \<lparr>rj_tenantId = sh_tenantId row, rj_pipelineId = sh_pipelineId row, rj_environment = sh_environment row,
     rj_activationLabel = sh_activationLabel row, rj_pipelineVersionId = None, rj_version = None, rj_input = object_or_empty (sh_input row),
     rj_runtimeOverrides = None, rj_requestId = None, rj_executionId = None, rj_deadlineMs = None, rj_source = Some ''schedule'',
     rj_enqueuedBy = None\<rparr>"

definition job_type :: "ScheduleRow \<Rightarrow> string" where
  "job_type row = nullish (sh_jobType row) ''run_pipeline''"

text \<open>The creator as a principal, and what a run of the schedule needs.\<close>

definition creator :: "ScheduleRow \<Rightarrow> auth_principal" where
  "creator row = \<lparr>au_id = nullish (sh_createdBy row) [], au_type = PK_user, au_tenantId = sh_tenantId row, au_environment = None, au_roles = []\<rparr>"

definition run_resource :: "ScheduleRow \<Rightarrow> Resource" where
  "run_resource row = \<lparr>rs_tenantId = sh_tenantId row, rs_pipelineId = sh_pipelineId row, rs_environment = sh_environment row\<rparr>"

definition recheck :: "PolicyStore \<Rightarrow> ScheduleRow \<Rightarrow> Authorizer \<Rightarrow> (PermissionDeniedError + unit) \<times> Authorizer" where
  "recheck store row az =
     (let (closure, az') = authorizeClosure BuiltinPolicyEngine (Some store) (sh_tenantId row) (authorizable (creator row)) az
      in (require_permission (Some closure) (creator row) ''pipeline:run'' (run_resource row) None, az'))"

definition mark_schedule ::
  "ScheduleRow \<Rightarrow> string option \<Rightarrow> string \<Rightarrow> bool \<Rightarrow> sched_state \<Rightarrow> (tick_error + bool) \<times> sched_state"
where
  "mark_schedule row lastRun next fired st =
     (case markRun (sh_id row) lastRun (Some next) (sq_rows st) of
        Inl e \<Rightarrow> (Inl Row_missing, st)
      | Inr (r, rs) \<Rightarrow> (Inr fired, st\<lparr>sq_rows := rs\<rparr>))"

definition enqueue_schedule ::
  "sched_deps \<Rightarrow> int \<Rightarrow> string \<Rightarrow> ScheduleRow \<Rightarrow> QueueJob \<Rightarrow> sched_state \<Rightarrow> (tick_error + bool) \<times> sched_state"
where
  "enqueue_schedule sd now next row job st =
     (if \<not> sd_accepts sd job then (Inl Queue_failed, st)
      else mark_schedule row (Some (sd_iso sd now)) next True (st\<lparr>sq_queue := sq_queue st @ [job]\<rparr>))"

text \<open>One due schedule; the result tells whether it was enqueued.\<close>

definition fire :: "sched_deps \<Rightarrow> PolicyStore \<Rightarrow> int \<Rightarrow> nat \<Rightarrow> ScheduleRow \<Rightarrow> sched_state \<Rightarrow> (tick_error + bool) \<times> sched_state" where
  "fire sd store now n row st =
     (case nextAfter (sd_croner sd) (sh_cron row) now (sh_timezone row) of
        Inl e \<Rightarrow> (Inr False, st)
      | Inr t \<Rightarrow>
          let next = sd_iso sd t
          in if job_type row \<noteq> ''run_pipeline''
             then enqueue_schedule sd now next row
                    \<lparr>qj_id = sd_uuid sd n, qj_type = job_type row, qj_payload = System_job (object_or_empty (sh_params row))\<rparr> st
             else if sd_authorizer sd \<and> str_truthy (sh_createdBy row)
             then (case recheck store row (sq_az st) of
                     (Inl denied, az) \<Rightarrow> mark_schedule row (sh_lastRunAt row) next False (st\<lparr>sq_az := az\<rparr>)
                   | (Inr _, az) \<Rightarrow> enqueue_schedule sd now next row
                       \<lparr>qj_id = sd_uuid sd n, qj_type = ''run_pipeline'', qj_payload = Run_pipeline ((runPipelinePayload row)
                          \<lparr>rj_enqueuedBy := Some \<lparr>eb_principalId = au_id (creator row), eb_principalType = PK_user, eb_tenantId = sh_tenantId row,
                             eb_roles = [], eb_requestId = None\<rparr>\<rparr>)\<rparr> (st\<lparr>sq_az := az\<rparr>))
             else enqueue_schedule sd now next row
                    \<lparr>qj_id = sd_uuid sd n, qj_type = ''run_pipeline'', qj_payload = Run_pipeline (runPipelinePayload row)\<rparr> st)"

text \<open>The due schedules in turn: the exception that ends the tick, if any, and the number enqueued.\<close>

fun fire_all :: "sched_deps \<Rightarrow> PolicyStore \<Rightarrow> int \<Rightarrow> nat \<Rightarrow> ScheduleRow list \<Rightarrow> sched_state \<Rightarrow> (tick_error option \<times> nat) \<times> sched_state" where
  "fire_all sd store now n [] st = ((None, n), st)"
| "fire_all sd store now n (row # due) st =
     (case fire sd store now n row st of
        (Inl e, st') \<Rightarrow> ((Some e, n), st')
      | (Inr fired, st') \<Rightarrow> fire_all sd store now (if fired then Suc n else n) due st')"

definition tick :: "sched_deps \<Rightarrow> PolicyStore \<Rightarrow> int \<Rightarrow> sched_state \<Rightarrow> (tick_error option \<times> nat) \<times> sched_state" where
  "tick sd store now st =
     (if sd_leader sd = Some False then ((None, 0), st)
      else fire_all sd store now 0 (listDue (sd_iso sd now) (sq_rows st)) st)"

fun prime_all :: "sched_deps \<Rightarrow> int \<Rightarrow> nat \<Rightarrow> ScheduleRow list \<Rightarrow> sched_state \<Rightarrow> (tick_error option \<times> nat) \<times> sched_state" where
  "prime_all sd now n [] st = ((None, n), st)"
| "prime_all sd now n (row # rows) st =
     (if sh_nextRunAt row \<noteq> None then prime_all sd now n rows st
      else (case nextAfter (sd_croner sd) (sh_cron row) now (sh_timezone row) of
              Inl e \<Rightarrow> prime_all sd now n rows st
            | Inr t \<Rightarrow> (case mark_schedule row (sh_lastRunAt row) (sd_iso sd t) True st of
                         (Inl e, st') \<Rightarrow> ((Some e, n), st')
                       | (Inr _, st') \<Rightarrow> prime_all sd now (Suc n) rows st')))"

definition prime :: "sched_deps \<Rightarrow> int \<Rightarrow> sched_state \<Rightarrow> (tick_error option \<times> nat) \<times> sched_state" where
  "prime sd now st = prime_all sd now 0 (listEnabled (sq_rows st)) st"

section \<open>What a tick does\<close>

text \<open>The specification: which of the due schedules fire, and what becomes of a row.\<close>

definition creator_may_run :: "PolicyStore \<Rightarrow> ScheduleRow \<Rightarrow> bool" where
  "creator_may_run store row \<longleftrightarrow> (\<exists>g \<in> set (live_grants store (au_id (creator row))).
     scopeCovers (gr_scope g) (render (request_of (sh_tenantId row) (authorizable (creator row)) (run_resource row))) \<and>
     role_grants (live_catalog store) (gr_role g) ''pipeline:run'')"

definition permitted :: "sched_deps \<Rightarrow> PolicyStore \<Rightarrow> ScheduleRow \<Rightarrow> bool" where
  "permitted sd store row \<longleftrightarrow> job_type row = ''run_pipeline'' \<and> sd_authorizer sd \<and> str_truthy (sh_createdBy row) \<longrightarrow> creator_may_run store row"

definition fires :: "sched_deps \<Rightarrow> PolicyStore \<Rightarrow> int \<Rightarrow> ScheduleRow \<Rightarrow> bool" where
  "fires sd store now row \<longleftrightarrow>
     (\<exists>t. nextAfter (sd_croner sd) (sh_cron row) now (sh_timezone row) = Inr t) \<and> permitted sd store row"

definition after_fire :: "sched_deps \<Rightarrow> PolicyStore \<Rightarrow> int \<Rightarrow> ScheduleRow \<Rightarrow> ScheduleRow" where
  "after_fire sd store now row =
     (case nextAfter (sd_croner sd) (sh_cron row) now (sh_timezone row) of
        Inl e \<Rightarrow> row
      | Inr t \<Rightarrow> row\<lparr>sh_lastRunAt := (if permitted sd store row then Some (sd_iso sd now) else sh_lastRunAt row), sh_nextRunAt := Some (sd_iso sd t)\<rparr>)"

definition job_of :: "sched_deps \<Rightarrow> nat \<Rightarrow> ScheduleRow \<Rightarrow> QueueJob" where
  "job_of sd n row =
     (if job_type row \<noteq> ''run_pipeline''
      then \<lparr>qj_id = sd_uuid sd n, qj_type = job_type row, qj_payload = System_job (object_or_empty (sh_params row))\<rparr>
      else \<lparr>qj_id = sd_uuid sd n, qj_type = ''run_pipeline'', qj_payload = Run_pipeline ((runPipelinePayload row)
        \<lparr>rj_enqueuedBy := (if sd_authorizer sd \<and> str_truthy (sh_createdBy row)
           then Some \<lparr>eb_principalId = au_id (creator row), eb_principalType = PK_user, eb_tenantId = sh_tenantId row, eb_roles = [], eb_requestId = None\<rparr>
           else None)\<rparr>)\<rparr>)"

fun jobs_of :: "sched_deps \<Rightarrow> nat \<Rightarrow> ScheduleRow list \<Rightarrow> QueueJob list" where
  "jobs_of sd n [] = []"
| "jobs_of sd n (row # rows) = job_of sd n row # jobs_of sd (Suc n) rows"

lemma recheck_decision:
  assumes "coherent store az"
  shows "(fst (recheck store row az) = Inr ()) \<longleftrightarrow> creator_may_run store row" "coherent store (snd (recheck store row az))"
proof -
  have "fst (authorizeClosure BuiltinPolicyEngine (Some store) (sh_tenantId row) (authorizable (creator row)) az) ''pipeline:run'' (run_resource row) \<longleftrightarrow>
      creator_may_run store row"
    using user_decision [OF assms, of "authorizable (creator row)" "sh_tenantId row" "''pipeline:run''" "run_resource row"]
    by (simp add: creator_may_run_def allowed_def authorizable_def creator_def)
  then show "(fst (recheck store row az) = Inr ()) \<longleftrightarrow> creator_may_run store row"
    by (simp add: recheck_def split_beta require_permission_def Let_def)
  show "coherent store (snd (recheck store row az))"
    using closure_coherent [OF assms] by (simp add: recheck_def split_beta)
qed

lemma mark_schedule_ok:
  assumes "map_of (sq_rows st) (sh_id row) = Some row"
  shows "mark_schedule row lastRun next b st =
    (Inr b, st\<lparr>sq_rows := AList.update (sh_id row) (row\<lparr>sh_lastRunAt := lastRun, sh_nextRunAt := Some next\<rparr>) (sq_rows st)\<rparr>)"
proof -
  have "row\<lparr>sh_lastRunAt := lastRun, sh_nextRunAt := Some next, sh_id := sh_id row\<rparr> = row\<lparr>sh_lastRunAt := lastRun, sh_nextRunAt := Some next\<rparr>"
    by (cases row) simp
  then show ?thesis by (simp add: mark_schedule_def markRun_def schedule_update_def crud_update_def assms Let_def)
qed

lemma enqueue_schedule_ok:
  assumes "map_of (sq_rows st) (sh_id row) = Some row" "sd_accepts sd job"
  shows "enqueue_schedule sd now next row job st = (Inr True, st\<lparr>sq_queue := sq_queue st @ [job],
    sq_rows := AList.update (sh_id row) (row\<lparr>sh_lastRunAt := Some (sd_iso sd now), sh_nextRunAt := Some next\<rparr>) (sq_rows st)\<rparr>)"
  using assms by (simp add: enqueue_schedule_def mark_schedule_ok)

text \<open>The three ways a schedule with a next firing time is dealt with.\<close>

lemma payload_None [simp]: "(runPipelinePayload row)\<lparr>rj_enqueuedBy := None\<rparr> = runPipelinePayload row"
  by (simp add: runPipelinePayload_def)

lemma fire_unchecked:
  assumes "nextAfter (sd_croner sd) (sh_cron row) now (sh_timezone row) = Inr t"
    and "\<not> (job_type row = ''run_pipeline'' \<and> sd_authorizer sd \<and> str_truthy (sh_createdBy row))"
  shows "permitted sd store row" "fire sd store now n row st = enqueue_schedule sd now (sd_iso sd t) row (job_of sd n row) st"
proof -
  show "permitted sd store row" using assms(2) unfolding permitted_def by blast
  show "fire sd store now n row st = enqueue_schedule sd now (sd_iso sd t) row (job_of sd n row) st"
  proof (cases "job_type row = ''run_pipeline''")
    case True
    then have no: "\<not> (sd_authorizer sd \<and> str_truthy (sh_createdBy row))" using assms(2) by blast
    show ?thesis unfolding fire_def job_of_def assms(1) if_not_P [OF no] by (simp only: True sum.case Let_def not_True_eq_False if_False payload_None simp_thms)
  next
    case False
    then show ?thesis unfolding fire_def job_of_def assms(1) by (simp only: False sum.case Let_def not_False_eq_True if_True)
  qed
qed

lemma fire_rechecked:
  assumes "nextAfter (sd_croner sd) (sh_cron row) now (sh_timezone row) = Inr t"
    and "job_type row = ''run_pipeline''" "sd_authorizer sd \<and> str_truthy (sh_createdBy row)" "recheck store row (sq_az st) = (r, az)"
  shows "fire sd store now n row st =
    (if r = Inr () then enqueue_schedule sd now (sd_iso sd t) row (job_of sd n row) (st\<lparr>sq_az := az\<rparr>)
     else mark_schedule row (sh_lastRunAt row) (sd_iso sd t) False (st\<lparr>sq_az := az\<rparr>))"
proof -
  have f: "fire sd store now n row st = (case r of
      Inl denied \<Rightarrow> mark_schedule row (sh_lastRunAt row) (sd_iso sd t) False (st\<lparr>sq_az := az\<rparr>)
    | Inr _ \<Rightarrow> enqueue_schedule sd now (sd_iso sd t) row (job_of sd n row) (st\<lparr>sq_az := az\<rparr>))"
    unfolding fire_def job_of_def assms(1) if_P [OF assms(3)] assms(4)
    by (simp only: assms(2) sum.case prod.case Let_def not_True_eq_False if_False simp_thms)
  then show ?thesis by (cases r) simp_all
qed

lemma fire_checked:
  assumes "nextAfter (sd_croner sd) (sh_cron row) now (sh_timezone row) = Inr t"
    and "job_type row = ''run_pipeline''" "sd_authorizer sd \<and> str_truthy (sh_createdBy row)" "coherent store (sq_az st)"
  shows "\<exists>az. coherent store az \<and> permitted sd store row = creator_may_run store row \<and> fire sd store now n row st =
    (if creator_may_run store row then enqueue_schedule sd now (sd_iso sd t) row (job_of sd n row) (st\<lparr>sq_az := az\<rparr>)
     else mark_schedule row (sh_lastRunAt row) (sd_iso sd t) False (st\<lparr>sq_az := az\<rparr>))"
proof -
  obtain r az where r: "recheck store row (sq_az st) = (r, az)" by fastforce
  have "(r = Inr ()) \<longleftrightarrow> creator_may_run store row" "coherent store az"
    using recheck_decision [OF assms(4), of row] unfolding r by simp_all
  moreover have "permitted sd store row = creator_may_run store row" using assms(2,3) unfolding permitted_def by blast
  ultimately show ?thesis using fire_rechecked [OF assms(1-3) r] by (intro exI [of _ az]) simp
qed

lemma fire_effect:
  assumes "coherent store (sq_az st)" "map_of (sq_rows st) (sh_id row) = Some row" "\<And>job. sd_accepts sd job"
  shows "\<exists>az. coherent store az \<and> fire sd store now n row st = (Inr (fires sd store now row),
    \<lparr>sq_rows = (if \<exists>t. nextAfter (sd_croner sd) (sh_cron row) now (sh_timezone row) = Inr t
        then AList.update (sh_id row) (after_fire sd store now row) (sq_rows st) else sq_rows st),
     sq_queue = sq_queue st @ (if fires sd store now row then [job_of sd n row] else []), sq_az = az\<rparr>)"
proof (cases "nextAfter (sd_croner sd) (sh_cron row) now (sh_timezone row)")
  case (Inl e)
  then show ?thesis using assms(1) by (intro exI [of _ "sq_az st"]) (simp add: fire_def fires_def)
next
  case (Inr t)
  have af: "after_fire sd store now row = row\<lparr>sh_lastRunAt := (if permitted sd store row then Some (sd_iso sd now) else sh_lastRunAt row),
      sh_nextRunAt := Some (sd_iso sd t)\<rparr>" "fires sd store now row = permitted sd store row"
    by (simp_all add: after_fire_def fires_def Inr)
  show ?thesis
  proof (cases "job_type row = ''run_pipeline'' \<and> sd_authorizer sd \<and> str_truthy (sh_createdBy row)")
    case False
    show ?thesis using assms Inr fire_unchecked [OF Inr False]
      by (intro exI [of _ "sq_az st"]) (simp add: af enqueue_schedule_ok)
  next
    case True
    from fire_checked [OF Inr _ _ assms(1), of n] True obtain az where az: "coherent store az" "permitted sd store row = creator_may_run store row"
      "fire sd store now n row st = (if creator_may_run store row then enqueue_schedule sd now (sd_iso sd t) row (job_of sd n row) (st\<lparr>sq_az := az\<rparr>)
       else mark_schedule row (sh_lastRunAt row) (sd_iso sd t) False (st\<lparr>sq_az := az\<rparr>))" by blast
    show ?thesis using az assms(2,3) Inr
      by (intro exI [of _ az]) (simp add: af enqueue_schedule_ok mark_schedule_ok)
  qed
qed

text \<open>Whatever the queue answers, a job is that of a permitted row.\<close>

lemma mark_schedule_queue:
  "mark_schedule row lastRun next b st = (res, st') \<Longrightarrow> sq_queue st' = sq_queue st \<and> sq_az st' = sq_az st"
  by (auto simp: mark_schedule_def split: sum.splits)

lemma enqueue_schedule_queue:
  "enqueue_schedule sd now next row job st = (res, st') \<Longrightarrow>
     (sq_queue st' = sq_queue st \<or> sq_queue st' = sq_queue st @ [job]) \<and> sq_az st' = sq_az st"
  by (auto simp: enqueue_schedule_def split: if_splits dest: mark_schedule_queue)

definition checked :: "sched_deps \<Rightarrow> ScheduleRow \<Rightarrow> bool" where
  "checked sd row \<longleftrightarrow> job_type row = ''run_pipeline'' \<and> sd_authorizer sd \<and> str_truthy (sh_createdBy row)"

text \<open>Whether the creator may run the pipeline as the worker's authorizer sees it.\<close>

definition creator_seen_to_run :: "PolicyStore \<Rightarrow> Authorizer \<Rightarrow> ScheduleRow \<Rightarrow> bool" where
  "creator_seen_to_run store az row \<longleftrightarrow> (\<exists>g \<in> set (seen_grants store az (au_id (creator row))).
     scopeCovers (gr_scope g) (render (request_of (sh_tenantId row) (authorizable (creator row)) (run_resource row))) \<and>
     role_grants (seen_catalog store az) (gr_role g) ''pipeline:run'')"

definition same_view :: "PolicyStore \<Rightarrow> Authorizer \<Rightarrow> Authorizer \<Rightarrow> bool" where
  "same_view store az az' \<longleftrightarrow> seen_grants store az' = seen_grants store az \<and> seen_catalog store az' = seen_catalog store az"

lemma same_view_refl [simp]: "same_view store az az"
  by (simp add: same_view_def)

lemma recheck_seen:
  "(fst (recheck store row az) = Inr ()) \<longleftrightarrow> creator_seen_to_run store az row" "same_view store az (snd (recheck store row az))"
proof -
  have "fst (authorizeClosure BuiltinPolicyEngine (Some store) (sh_tenantId row) (authorizable (creator row)) az) ''pipeline:run'' (run_resource row) \<longleftrightarrow>
      creator_seen_to_run store az row"
    using user_decision_seen [of "authorizable (creator row)" store "sh_tenantId row" az "''pipeline:run''" "run_resource row"]
    by (simp add: creator_seen_to_run_def allowed_def authorizable_def creator_def)
  then show "(fst (recheck store row az) = Inr ()) \<longleftrightarrow> creator_seen_to_run store az row"
    by (simp add: recheck_def split_beta require_permission_def Let_def)
  show "same_view store az (snd (recheck store row az))"
    by (simp add: recheck_def split_beta same_view_def closure_seen)
qed

lemma fire_jobs:
  assumes "fire sd store now n row st = (res, st')"
  shows "same_view store (sq_az st) (sq_az st') \<and>
    (sq_queue st' = sq_queue st \<or>
     sq_queue st' = sq_queue st @ [job_of sd n row] \<and> (checked sd row \<longrightarrow> creator_seen_to_run store (sq_az st) row))"
proof (cases "nextAfter (sd_croner sd) (sh_cron row) now (sh_timezone row)")
  case (Inl e)
  then show ?thesis using assms by (simp add: fire_def)
next
  case (Inr t)
  show ?thesis
  proof (cases "checked sd row")
    case False
    from fire_unchecked [OF Inr] False assms have "enqueue_schedule sd now (sd_iso sd t) row (job_of sd n row) st = (res, st')"
      unfolding checked_def by metis
    from enqueue_schedule_queue [OF this] False show ?thesis by auto
  next
    case True
    obtain r az where r: "recheck store row (sq_az st) = (r, az)" by fastforce
    have dec: "(r = Inr ()) \<longleftrightarrow> creator_seen_to_run store (sq_az st) row" "same_view store (sq_az st) az"
      using recheck_seen [where store = store and row = row and az = "sq_az st"] unfolding r by simp_all
    note f = fire_rechecked [OF Inr _ _ r, of n, unfolded assms]
    show ?thesis
    proof (cases "r = Inr ()")
      case yes: True
      then have "enqueue_schedule sd now (sd_iso sd t) row (job_of sd n row) (st\<lparr>sq_az := az\<rparr>) = (res, st')"
        using f True by (simp add: checked_def)
      from enqueue_schedule_queue [OF this] yes dec show ?thesis by auto
    next
      case no: False
      then have "mark_schedule row (sh_lastRunAt row) (sd_iso sd t) False (st\<lparr>sq_az := az\<rparr>) = (res, st')"
        using f True by (simp add: checked_def)
      from mark_schedule_queue [OF this] dec show ?thesis by auto
    qed
  qed
qed

lemma fire_all_jobs:
  assumes "fire_all sd store now n due st = (res, st')"
  shows "same_view store (sq_az st) (sq_az st') \<and> (\<exists>jobs. sq_queue st' = sq_queue st @ jobs \<and>
    (\<forall>job \<in> set jobs. \<exists>row \<in> set due. (\<exists>m. job = job_of sd m row) \<and> (checked sd row \<longrightarrow> creator_seen_to_run store (sq_az st) row)))"
  using assms
proof (induction due arbitrary: n st)
  case (Cons row due)
  obtain r st1 where f: "fire sd store now n row st = (r, st1)" by (cases "fire sd store now n row st")
  note one = fire_jobs [OF f]
  then have view: "creator_seen_to_run store (sq_az st1) q = creator_seen_to_run store (sq_az st) q" for q
    by (simp add: creator_seen_to_run_def same_view_def)
  show ?case
  proof (cases r)
    case (Inl e)
    then show ?thesis using Cons.prems f one by auto
  next
    case (Inr fired)
    then have "fire_all sd store now (if fired then Suc n else n) due st1 = (res, st')" using Cons.prems f by simp
    from Cons.IH [OF this] obtain jobs where "same_view store (sq_az st1) (sq_az st')" "sq_queue st' = sq_queue st1 @ jobs"
      "\<forall>job \<in> set jobs. \<exists>row \<in> set due. (\<exists>m. job = job_of sd m row) \<and> (checked sd row \<longrightarrow> creator_seen_to_run store (sq_az st) row)"
      unfolding view by auto
    then show ?thesis using one unfolding same_view_def by fastforce
  qed
qed simp

text \<open>With the catalog and the creator's grants cached, the store is not read.\<close>

definition cached_for :: "Authorizer \<Rightarrow> ScheduleRow \<Rightarrow> bool" where
  "cached_for az row \<longleftrightarrow> az_catalog az \<noteq> None \<and> map_of (az_grantCache az) (au_id (creator row)) \<noteq> None"

lemma recheck_cached:
  "cached_for az row \<Longrightarrow> recheck store' row az = recheck store row az \<and> snd (recheck store row az) = az"
  by (auto simp: cached_for_def recheck_def authorizeClosure_def loadCatalog_def grantsFor_def authorizable_def creator_def Let_def
      split: option.splits)

lemma fire_cached:
  assumes "checked sd row \<Longrightarrow> cached_for (sq_az st) row"
  shows "fire sd store' now n row st = fire sd store now n row st \<and> sq_az (snd (fire sd store now n row st)) = sq_az st"
proof (cases "nextAfter (sd_croner sd) (sh_cron row) now (sh_timezone row)")
  case (Inl e)
  then show ?thesis by (simp add: fire_def)
next
  case (Inr t)
  have queued: "sq_az (snd (enqueue_schedule sd now nx row job s)) = sq_az s" "sq_az (snd (mark_schedule row l nx b s)) = sq_az s" for nx job l b s
    using enqueue_schedule_queue [OF surjective_pairing] mark_schedule_queue [OF surjective_pairing] by blast+
  show ?thesis
  proof (cases "checked sd row")
    case False
    with fire_unchecked [OF Inr] queued show ?thesis unfolding checked_def by auto
  next
    case True
    then have c: "job_type row = ''run_pipeline''" "sd_authorizer sd \<and> str_truthy (sh_createdBy row)" by (simp_all add: checked_def)
    obtain r where r: "recheck store row (sq_az st) = (r, sq_az st)" "recheck store' row (sq_az st) = (r, sq_az st)"
      using recheck_cached [OF assms [OF True]] by (metis prod.collapse)
    show ?thesis unfolding fire_rechecked [OF Inr c r(1)] fire_rechecked [OF Inr c r(2)] by (simp add: queued)
  qed
qed

lemma fire_all_cached:
  "\<forall>row \<in> set due. checked sd row \<longrightarrow> cached_for (sq_az st) row \<Longrightarrow> fire_all sd store' now n due st = fire_all sd store now n due st"
proof (induction due arbitrary: n st)
  case (Cons row due)
  obtain r st1 where f: "fire sd store now n row st = (r, st1)" by fastforce
  have "checked sd row \<Longrightarrow> cached_for (sq_az st) row" using Cons.prems by simp
  from fire_cached [where sd = sd and store' = store' and now = now and n = n and store = store, OF this]
  have same: "fire sd store' now n row st = (r, st1)" "sq_az st1 = sq_az st" unfolding f by simp_all
  with Cons.IH [of st1] Cons.prems f show ?case by (cases r) simp_all
qed simp

text \<open>The life of a worker: ticks over whatever is stored then, and any other change of rows and queue.\<close>

inductive worker_later :: "sched_state \<Rightarrow> sched_state \<Rightarrow> bool" for st0 where
  wl_start: "worker_later st0 st0"
| wl_tick: "worker_later st0 st \<Longrightarrow> worker_later st0 (snd (tick sd store now st))"
| wl_write: "worker_later st0 st \<Longrightarrow> worker_later st0 (st\<lparr>sq_rows := rows, sq_queue := queue\<rparr>)"

lemma closure_keeps:
  "map_of (az_grantCache az) u = Some gs \<Longrightarrow> map_of (az_grantCache (snd (authorizeClosure BuiltinPolicyEngine (Some store) d p az))) u = Some gs"
  "az_catalog az = Some cat \<Longrightarrow> az_catalog (snd (authorizeClosure BuiltinPolicyEngine (Some store) d p az)) = Some cat"
  by (auto simp: builtin.closure_state Let_def loadCatalog_def grantsFor_def grants_fill_def ownerLiveGrants_def split: option.split)

lemma fire_keeps:
  "map_of (az_grantCache (sq_az st)) u = Some gs \<Longrightarrow> map_of (az_grantCache (sq_az (snd (fire sd store now n row st)))) u = Some gs"
  "az_catalog (sq_az st) = Some cat \<Longrightarrow> az_catalog (sq_az (snd (fire sd store now n row st))) = Some cat"
proof -
  have queued: "sq_az (snd (enqueue_schedule sd now nx row job s)) = sq_az s" "sq_az (snd (mark_schedule row l nx b s)) = sq_az s" for nx job l b s
    using enqueue_schedule_queue [OF surjective_pairing] mark_schedule_queue [OF surjective_pairing] by blast+
  have "sq_az (snd (fire sd store now n row st)) \<in> {sq_az st, snd (recheck store row (sq_az st))}"
    by (auto simp: fire_def Let_def queued split: sum.split prod.split)
  then show "map_of (az_grantCache (sq_az st)) u = Some gs \<Longrightarrow> map_of (az_grantCache (sq_az (snd (fire sd store now n row st)))) u = Some gs"
    "az_catalog (sq_az st) = Some cat \<Longrightarrow> az_catalog (sq_az (snd (fire sd store now n row st))) = Some cat"
    using closure_keeps by (auto simp: recheck_def split_beta)
qed

lemma tick_keeps:
  "map_of (az_grantCache (sq_az st)) u = Some gs \<Longrightarrow> map_of (az_grantCache (sq_az (snd (tick sd store now st)))) u = Some gs"
  "az_catalog (sq_az st) = Some cat \<Longrightarrow> az_catalog (sq_az (snd (tick sd store now st))) = Some cat"
proof -
  have "P (sq_az st) \<Longrightarrow> P (sq_az (snd (fire_all sd store now n due st)))"
    if step: "\<And>st n row. P (sq_az st) \<Longrightarrow> P (sq_az (snd (fire sd store now n row st)))" for P n due
  proof (induction due arbitrary: n st)
    case (Cons row due)
    from step [OF Cons.prems, of n row] Cons.IH show ?case by (auto split: prod.split sum.split)
  qed simp
  note all = this
  show "map_of (az_grantCache (sq_az st)) u = Some gs \<Longrightarrow> map_of (az_grantCache (sq_az (snd (tick sd store now st)))) u = Some gs"
    using all [where P = "\<lambda>az. map_of (az_grantCache az) u = Some gs"] fire_keeps(1) by (simp add: tick_def)
  show "az_catalog (sq_az st) = Some cat \<Longrightarrow> az_catalog (sq_az (snd (tick sd store now st))) = Some cat"
    using all [where P = "\<lambda>az. az_catalog az = Some cat"] fire_keeps(2) by (simp add: tick_def)
qed

lemma worker_later_keeps:
  assumes "worker_later st0 st"
  shows "map_of (az_grantCache (sq_az st0)) u = Some gs \<Longrightarrow> map_of (az_grantCache (sq_az st)) u = Some gs"
    and "az_catalog (sq_az st0) = Some cat \<Longrightarrow> az_catalog (sq_az st) = Some cat"
  using assms by (induction rule: worker_later.induct) (simp_all add: tick_keeps)

text \<open>Every schedule is stored once, under its own identifier.\<close>

definition schedules_ok :: "schedules \<Rightarrow> bool" where
  "schedules_ok rs \<longleftrightarrow> distinct (map fst rs) \<and> (\<forall>(k, r) \<in> set rs. k = sh_id r)"

lemma schedules_ok_lookup: "schedules_ok rs \<Longrightarrow> map_of rs k = Some r \<Longrightarrow> sh_id r = k"
  by (auto simp: schedules_ok_def dest: map_of_SomeD)

lemma schedules_ok_member: "schedules_ok rs \<Longrightarrow> r \<in> set (crud_list rs) \<Longrightarrow> map_of rs (sh_id r) = Some r"
  by (auto simp: schedules_ok_def crud_list_def)

lemma schedules_ok_distinct: "schedules_ok rs \<Longrightarrow> distinct (map sh_id (crud_list rs))"
proof -
  assume ok: "schedules_ok rs"
  then have "map sh_id (crud_list rs) = map fst rs" by (auto simp: schedules_ok_def crud_list_def)
  then show ?thesis using ok by (simp add: schedules_ok_def)
qed

lemma schedules_ok_update:
  assumes "schedules_ok rs" "sh_id r = k"
  shows "schedules_ok (AList.update k r rs)"
  using assms by (auto simp: schedules_ok_def distinct_update dest: update_set)

text \<open>The rows after the due ones have been dealt with, where nothing fails.\<close>

definition advance_row :: "sched_deps \<Rightarrow> PolicyStore \<Rightarrow> int \<Rightarrow> ScheduleRow \<Rightarrow> schedules \<Rightarrow> schedules" where
  "advance_row sd store now row rs =
     (if \<exists>t. nextAfter (sd_croner sd) (sh_cron row) now (sh_timezone row) = Inr t
      then AList.update (sh_id row) (after_fire sd store now row) rs else rs)"

fun advance :: "sched_deps \<Rightarrow> PolicyStore \<Rightarrow> int \<Rightarrow> ScheduleRow list \<Rightarrow> schedules \<Rightarrow> schedules" where
  "advance sd store now [] rs = rs"
| "advance sd store now (row # due) rs = advance sd store now due (advance_row sd store now row rs)"

lemma after_fire_id [simp]: "sh_id (after_fire sd store now row) = sh_id row"
  by (simp add: after_fire_def split: sum.splits)

lemma advance_row_lookup:
  "map_of rs (sh_id row) = Some row \<Longrightarrow>
     map_of (advance_row sd store now row rs) j = (if j = sh_id row then Some (after_fire sd store now row) else map_of rs j)"
  by (auto simp: advance_row_def after_fire_def split: sum.splits)

lemma advance_row_registered:
  assumes "distinct (map sh_id (row # due))" "\<forall>r \<in> set (row # due). map_of rs (sh_id r) = Some r" "r \<in> set due"
  shows "map_of (advance_row sd store now row rs) (sh_id r) = Some r"
proof -
  have "sh_id row \<notin> sh_id ` set due" using assms(1) by simp
  then have "sh_id r \<noteq> sh_id row" using assms(3) by (metis image_eqI)
  then show ?thesis using assms(2,3) by (simp add: advance_row_lookup)
qed

lemma fire_all_effect:
  assumes "coherent store (sq_az st)" "\<And>job. sd_accepts sd job" "distinct (map sh_id due)"
    and "\<forall>row \<in> set due. map_of (sq_rows st) (sh_id row) = Some row"
  shows "\<exists>az. coherent store az \<and> fire_all sd store now n due st =
    ((None, n + length (filter (fires sd store now) due)),
     \<lparr>sq_rows = advance sd store now due (sq_rows st), sq_queue = sq_queue st @ jobs_of sd n (filter (fires sd store now) due), sq_az = az\<rparr>)"
  using assms(1,3,4)
proof (induction due arbitrary: n st)
  case Nil
  then show ?case by auto
next
  case (Cons row due)
  let ?q = "sq_queue st @ (if fires sd store now row then [job_of sd n row] else [])"
  have "map_of (sq_rows st) (sh_id row) = Some row" using Cons.prems(3) by simp
  from fire_effect [where sd = sd and n = n and now = now, OF Cons.prems(1) this assms(2)]
  obtain az where az: "coherent store az"
    and f: "fire sd store now n row st =
      (Inr (fires sd store now row), \<lparr>sq_rows = advance_row sd store now row (sq_rows st), sq_queue = ?q, sq_az = az\<rparr>)"
    unfolding advance_row_def [symmetric] by blast
  have keep: "\<forall>r \<in> set due. map_of (advance_row sd store now row (sq_rows st)) (sh_id r) = Some r"
    by (intro ballI advance_row_registered [OF Cons.prems(2,3)])
  have "distinct (map sh_id due)" using Cons.prems(2) by simp
  from Cons.IH [of "\<lparr>sq_rows = advance_row sd store now row (sq_rows st), sq_queue = ?q, sq_az = az\<rparr>"
      "if fires sd store now row then Suc n else n"] az this keep
  show ?case by (cases "fires sd store now row") (simp_all add: f)
qed

lemma advance_row_ok: "schedules_ok rs \<Longrightarrow> schedules_ok (advance_row sd store now row rs)"
  by (simp add: advance_row_def schedules_ok_update)

lemma advance_lookup:
  assumes "schedules_ok rs" "distinct (map sh_id due)" "\<forall>row \<in> set due. map_of rs (sh_id row) = Some row"
  shows "schedules_ok (advance sd store now due rs)"
    and "map_of (advance sd store now due rs) k =
      map_option (\<lambda>r. if r \<in> set due then after_fire sd store now r else r) (map_of rs k)"
proof -
  have "schedules_ok (advance sd store now due rs) \<and> map_of (advance sd store now due rs) k =
      map_option (\<lambda>r. if r \<in> set due then after_fire sd store now r else r) (map_of rs k)"
    using assms
  proof (induction due arbitrary: rs)
    case Nil
    then show ?case by (simp add: option.map_ident)
  next
    case (Cons row due)
    have row: "map_of rs (sh_id row) = Some row" using Cons.prems(3) by simp
    have keep: "\<forall>r \<in> set due. map_of (advance_row sd store now row rs) (sh_id r) = Some r"
      by (intro ballI advance_row_registered [OF Cons.prems(2,3)])
    have "distinct (map sh_id due)" using Cons.prems(2) by simp
    note ih = Cons.IH [OF advance_row_ok [OF Cons.prems(1)] this keep]
    have "sh_id row \<notin> sh_id ` set due" using Cons.prems(2) by simp
    then have fresh: "after_fire sd store now row \<notin> set due" by (metis image_eqI after_fire_id)
    show ?case
    proof (cases "k = sh_id row")
      case True
      then show ?thesis using ih row fresh by (simp add: advance_row_lookup)
    next
      case False
      then have "map_of rs k \<noteq> Some row" using schedules_ok_lookup [OF Cons.prems(1)] by auto
      then show ?thesis using ih False by (cases "map_of rs k") (auto simp: advance_row_lookup [OF row])
    qed
  qed
  then show "schedules_ok (advance sd store now due rs)"
    "map_of (advance sd store now due rs) k =
      map_option (\<lambda>r. if r \<in> set due then after_fire sd store now r else r) (map_of rs k)" by simp_all
qed

text \<open>The due rows that fire, in order.\<close>

definition fired :: "sched_deps \<Rightarrow> PolicyStore \<Rightarrow> int \<Rightarrow> schedules \<Rightarrow> ScheduleRow list" where
  "fired sd store now rs = filter (fires sd store now) (listDue (sd_iso sd now) rs)"

lemma listDue_facts:
  assumes "schedules_ok rs"
  shows "distinct (map sh_id (listDue now rs))" "\<forall>row \<in> set (listDue now rs). map_of rs (sh_id row) = Some row"
    "map_of rs k = Some r \<Longrightarrow> r \<in> set (listDue now rs) \<longleftrightarrow> is_due now r"
proof -
  show "distinct (map sh_id (listDue now rs))"
    using schedules_ok_distinct [OF assms] by (simp add: listDue_def distinct_map_filter)
  show "\<forall>row \<in> set (listDue now rs). map_of rs (sh_id row) = Some row"
    using schedules_ok_member [OF assms] by (simp add: listDue_def)
  show "map_of rs k = Some r \<Longrightarrow> r \<in> set (listDue now rs) \<longleftrightarrow> is_due now r"
    by (force simp: listDue_def crud_list_def dest: map_of_SomeD)
qed

lemma tick_effect:
  assumes "sd_leader sd \<noteq> Some False" "\<And>job. sd_accepts sd job" "schedules_ok (sq_rows st)" "coherent store (sq_az st)"
    and "tick sd store now st = (res, st')"
  shows "res = (None, length (fired sd store now (sq_rows st)))" "coherent store (sq_az st')" "schedules_ok (sq_rows st')"
    "sq_queue st' = sq_queue st @ jobs_of sd 0 (fired sd store now (sq_rows st))"
    "map_of (sq_rows st') k = map_option (\<lambda>r. if is_due (sd_iso sd now) r then after_fire sd store now r else r) (map_of (sq_rows st) k)"
proof -
  note due = listDue_facts(1,2) [OF assms(3), of "sd_iso sd now"]
  from fire_all_effect [where n = 0 and now = now, OF assms(4,2) due(1,2)] obtain az where az: "coherent store az"
    "tick sd store now st = ((None, length (fired sd store now (sq_rows st))),
       \<lparr>sq_rows = advance sd store now (listDue (sd_iso sd now) (sq_rows st)) (sq_rows st),
        sq_queue = sq_queue st @ jobs_of sd 0 (fired sd store now (sq_rows st)), sq_az = az\<rparr>)"
    using assms(1) by (auto simp: tick_def fired_def)
  then show "res = (None, length (fired sd store now (sq_rows st)))" "coherent store (sq_az st')"
    "sq_queue st' = sq_queue st @ jobs_of sd 0 (fired sd store now (sq_rows st))" using assms(5) by auto
  have rows: "sq_rows st' = advance sd store now (listDue (sd_iso sd now) (sq_rows st)) (sq_rows st)" using az(2) assms(5) by auto
  show "schedules_ok (sq_rows st')" unfolding rows by (rule advance_lookup(1) [OF assms(3) due(1,2)])
  show "map_of (sq_rows st') k =
      map_option (\<lambda>r. if is_due (sd_iso sd now) r then after_fire sd store now r else r) (map_of (sq_rows st) k)"
    unfolding rows advance_lookup(2) [OF assms(3) due(1,2)] by (rule option.map_cong [OF refl]) (auto simp: listDue_facts(3) [OF assms(3), where k = k])
qed

text \<open>A row that was dealt with is not due again before its next time.\<close>

lemma not_due_again:
  assumes "croner_ok (sd_croner sd)" "\<forall>t > now. sd_iso sd now < sd_iso sd t"
  shows "\<not> (is_due (sd_iso sd now) (after_fire sd store now r) \<and> fires sd store now (after_fire sd store now r))"
proof (cases "nextAfter (sd_croner sd) (sh_cron r) now (sh_timezone r)")
  case (Inl e)
  then show ?thesis by (simp add: after_fire_def fires_def)
next
  case (Inr t)
  then have "now < t" using assms(1) by (auto simp: nextAfter_def croner_ok_def split: sum.splits option.splits)
  then show ?thesis using Inr assms(2) by (auto simp: after_fire_def is_due_def not_le)
qed

section \<open>Histories of schedules\<close>

text \<open>Schedules as the routes, the scheduler and the seeds of the platform leave them.\<close>

inductive schedule_history :: "croner \<Rightarrow> (int \<Rightarrow> string) \<Rightarrow> schedules \<Rightarrow> bool" for cr isodate where
  sh_start: "schedule_history cr isodate []"
| sh_seed: "schedule_history cr isodate rs \<Longrightarrow> sh_system row \<Longrightarrow> sh_createdBy row = None \<Longrightarrow>
    crud_create sh_id ''schedule'' row rs = Inr (r, rs') \<Longrightarrow> schedule_history cr isodate rs'"
| sh_create: "schedule_history cr isodate rs \<Longrightarrow> schedules_create cr isodate su request params ap rs = (res, rs') \<Longrightarrow>
    schedule_history cr isodate rs'"
| sh_put: "schedule_history cr isodate rs \<Longrightarrow> schedules_put cr isodate su request params ap rs = (res, rs') \<Longrightarrow>
    schedule_history cr isodate rs'"
| sh_toggle: "schedule_history cr isodate rs \<Longrightarrow> schedules_toggle request params ap rs = (res, rs') \<Longrightarrow> schedule_history cr isodate rs'"
| sh_delete: "schedule_history cr isodate rs \<Longrightarrow> schedules_delete request params ap rs = (res, rs') \<Longrightarrow> schedule_history cr isodate rs'"
| sh_prime: "schedule_history cr isodate (sq_rows st) \<Longrightarrow> prime sd now st = (out, st') \<Longrightarrow> schedule_history cr isodate (sq_rows st')"
| sh_tick: "schedule_history cr isodate (sq_rows st) \<Longrightarrow> tick sd store now st = (out, st') \<Longrightarrow> schedule_history cr isodate (sq_rows st')"

text \<open>No row names its creator.\<close>

definition unattributed :: "schedules \<Rightarrow> bool" where
  "unattributed rs \<longleftrightarrow> schedules_ok rs \<and> (\<forall>(k, r) \<in> set rs. sh_createdBy r = None)"

lemma unattributed_create:
  assumes "unattributed rs" "sh_createdBy row = None" "crud_create sh_id ''schedule'' row rs = Inr (r, rs')"
  shows "unattributed rs'"
  using assms by (auto simp: unattributed_def crud_create_def schedules_ok_update split: if_splits dest: update_set)

lemma unattributed_update:
  assumes "unattributed rs" "\<And>r. sh_createdBy (patch r) = sh_createdBy r" "schedule_update i patch rs = Inr (r, rs')"
  shows "unattributed rs'"
proof -
  obtain r0 where r0: "map_of rs i = Some r0" "rs' = AList.update i ((patch r0)\<lparr>sh_id := i\<rparr>) rs"
    using assms(3) by (auto simp: schedule_update_def crud_update_def Let_def split: option.splits)
  have "sh_createdBy ((patch r0)\<lparr>sh_id := i\<rparr>) = None"
    using assms(1,2) map_of_SomeD [OF r0(1)] by (auto simp: unattributed_def)
  moreover have "schedules_ok rs'" using assms(1) r0 by (simp add: unattributed_def schedules_ok_update)
  ultimately show ?thesis using assms(1) r0(2) by (auto simp: unattributed_def dest!: update_set)
qed

lemma unattributed_delete: "unattributed rs \<Longrightarrow> unattributed (crud_delete i rs)"
  by (auto simp: unattributed_def schedules_ok_def crud_delete_def AList.delete_eq distinct_map_filter)

lemma unattributed_write:
  assumes "unattributed rs" "\<And>r. sh_createdBy (patch r) = sh_createdBy r" "write_schedule i patch rs = (res, rs')"
  shows "unattributed rs'"
  using assms unattributed_update [OF assms(1,2)] by (auto simp: write_schedule_def split: sum.splits)

lemma patch_schedule_createdBy [simp]: "sh_createdBy (patch_schedule body r) = sh_createdBy r"
  by (simp add: patch_schedule_def Let_def split: option.splits json.splits)

lemma guarded_state: "guarded ap permission r st k = (res, st') \<Longrightarrow> st' = st \<or> k = (res, st')"
  by (auto simp: guarded_def split: sum.splits AuthorizationError.splits)

lemma unattributed_mark:
  "unattributed (sq_rows st) \<Longrightarrow> mark_schedule row lastRun next b st = (res, st') \<Longrightarrow> unattributed (sq_rows st')"
  by (auto simp: mark_schedule_def markRun_def split: sum.splits elim!: unattributed_update [rotated 2])

lemma unattributed_fire:
  assumes "unattributed (sq_rows st)" "fire sd store now n row st = (res, st')"
  shows "unattributed (sq_rows st')"
proof -
  have enq: "unattributed (sq_rows st2)" if "unattributed (sq_rows st1)" "enqueue_schedule sd now nxt row job st1 = (r, st2)" for nxt job st1 r st2
    using that by (auto simp: enqueue_schedule_def split: if_splits intro: unattributed_mark [rotated])
  show ?thesis using assms
    by (auto simp: fire_def Let_def split: sum.splits if_splits prod.splits intro: enq [rotated] unattributed_mark [rotated])
qed

lemma unattributed_fire_all:
  "unattributed (sq_rows st) \<Longrightarrow> fire_all sd store now n due st = (out, st') \<Longrightarrow> unattributed (sq_rows st')"
proof (induction due arbitrary: n st)
  case (Cons row due)
  obtain r st1 where f: "fire sd store now n row st = (r, st1)" by (cases "fire sd store now n row st")
  have one: "unattributed (sq_rows st1)" by (rule unattributed_fire [OF Cons.prems(1) f])
  show ?case using Cons.prems(2) one Cons.IH [OF one] f by (cases r) auto
qed simp

lemma unattributed_prime_all:
  "unattributed (sq_rows st) \<Longrightarrow> prime_all sd now n rows st = (out, st') \<Longrightarrow> unattributed (sq_rows st')"
proof (induction rows arbitrary: n st)
  case (Cons row rows)
  show ?case
  proof (cases "sh_nextRunAt row \<noteq> None \<or> (\<exists>e. nextAfter (sd_croner sd) (sh_cron row) now (sh_timezone row) = Inl e)")
    case True
    then have "prime_all sd now n rows st = (out, st')" using Cons.prems(2) by (auto split: if_splits)
    then show ?thesis by (rule Cons.IH [OF Cons.prems(1)])
  next
    case False
    then obtain t where t: "nextAfter (sd_croner sd) (sh_cron row) now (sh_timezone row) = Inr t" "sh_nextRunAt row = None"
      by (cases "nextAfter (sd_croner sd) (sh_cron row) now (sh_timezone row)") auto
    obtain r st1 where f: "mark_schedule row (sh_lastRunAt row) (sd_iso sd t) True st = (r, st1)"
      by (cases "mark_schedule row (sh_lastRunAt row) (sd_iso sd t) True st")
    have one: "unattributed (sq_rows st1)" by (rule unattributed_mark [OF Cons.prems(1) f])
    show ?thesis using Cons.prems(2) one Cons.IH [OF one] f t by (cases r) auto
  qed
qed simp

lemma unattributed_create_route:
  assumes "unattributed rs" "schedules_create cr isodate su request params ap rs = (res, rs')"
  shows "unattributed rs'"
  using assms
  by (auto simp: schedules_create_def Let_def validation_failed_def
      split: option.splits next_run.splits sum.splits dest!: guarded_state elim!: unattributed_create [OF assms(1), rotated])

lemma guard_state: "schedule_guard ap row rs k = (res, rs') \<Longrightarrow> rs' = rs \<or> k = (res, rs')"
  by (auto simp: schedule_guard_def split: if_splits dest!: guarded_state)

lemma unattributed_change_routes:
  assumes "unattributed rs"
  shows "schedules_put cr isodate su request params ap rs = (res, rs') \<Longrightarrow> unattributed rs'"
    and "schedules_toggle request params ap rs = (res, rs') \<Longrightarrow> unattributed rs'"
    and "schedules_delete request params ap rs = (res, rs') \<Longrightarrow> unattributed rs'"
proof -
  show "schedules_put cr isodate su request params ap rs = (res, rs') \<Longrightarrow> unattributed rs'"
    using assms by (auto simp: schedules_put_def Let_def validation_failed_def respond_error_def
        split: option.splits next_run.splits if_splits dest!: guard_state elim!: unattributed_write [OF assms, rotated])
  show "schedules_toggle request params ap rs = (res, rs') \<Longrightarrow> unattributed rs'"
    using assms by (auto simp: schedules_toggle_def Let_def validation_failed_def respond_error_def
        split: option.splits json.splits dest!: guard_state elim!: unattributed_write [OF assms, rotated])
  show "schedules_delete request params ap rs = (res, rs') \<Longrightarrow> unattributed rs'"
    using assms by (auto simp: schedules_delete_def Let_def respond_error_def unattributed_delete
        split: option.splits if_splits dest!: guarded_state)
qed

lemma history_unattributed: "schedule_history cr isodate rs \<Longrightarrow> unattributed rs"
proof (induction rule: schedule_history.induct)
  case sh_start
  show ?case by (simp add: unattributed_def schedules_ok_def)
next
  case (sh_prime st sd now out st')
  then show ?case unfolding prime_def by (blast intro: unattributed_prime_all)
next
  case (sh_tick st sd store now out st')
  then show ?case unfolding tick_def by (auto split: if_splits intro: unattributed_fire_all)
qed (blast intro: unattributed_create unattributed_create_route unattributed_change_routes)+

section \<open>An example\<close>

text \<open>Two due schedules: \<open>eve\<close> may run pipelines everywhere, \<open>mallory\<close> no longer may.\<close>

definition some_croner :: croner where
  "some_croner = \<lparr>cr_timezone_ok = (\<lambda>z. True), cr_pattern_ok = (\<lambda>e z. True), cr_nextRun = (\<lambda>e z t. Some (t + 60000))\<rparr>"

definition some_schedule :: "string \<Rightarrow> string \<Rightarrow> ScheduleRow" where
  "some_schedule i user = \<lparr>sh_id = i, sh_tenantId = Some ''t'', sh_pipelineId = Some ''p'', sh_environment = Some ''prod'', sh_activationLabel = None,
     sh_cron = ''* * * * *'', sh_timezone = ''UTC'', sh_input = JObj [], sh_enabled = True, sh_lastRunAt = None, sh_nextRunAt = Some ''0'',
     sh_createdAt = ''0'', sh_createdBy = Some user, sh_jobType = None, sh_system = False, sh_name = None, sh_params = JUndef\<rparr>"

definition some_sched_deps :: sched_deps where
  "some_sched_deps = \<lparr>sd_croner = some_croner, sd_iso = (\<lambda>t. if t \<le> 0 then ''0'' else ''1''), sd_accepts = (\<lambda>job. True),
     sd_authorizer = True, sd_leader = Some True, sd_uuid = (\<lambda>n. ''job'')\<rparr>"

definition eve_policies :: PolicyStore where
  "eve_policies = \<lparr>listRolePermissions = Some [\<lparr>rp_role = ''runner'', rp_permission = ''pipeline:run''\<rparr>],
     listGrantsForUser = (\<lambda>u. if u = ''eve'' then Some [\<lparr>gr_role = ''runner'', gr_scope = ''*''\<rparr>] else Some [])\<rparr>"

definition due_state :: sched_state where
  "due_state = \<lparr>sq_rows = [(''s1'', some_schedule ''s1'' ''eve''), (''s2'', some_schedule ''s2'' ''mallory'')], sq_queue = [], sq_az = new_authorizer\<rparr>"

lemma due_state_facts [simp]:
  "sd_leader some_sched_deps \<noteq> Some False" "croner_ok (sd_croner some_sched_deps)"
  "\<forall>t > 0. sd_iso some_sched_deps 0 < sd_iso some_sched_deps t" "sd_accepts some_sched_deps job" "schedules_ok (sq_rows due_state)"
  "coherent store (sq_az due_state)" "sq_queue due_state = []" "sd_iso some_sched_deps 0 = ''0''"
  by (simp_all add: some_sched_deps_def some_croner_def croner_ok_def due_state_def schedules_ok_def some_schedule_def coherent_def new_authorizer_def
      less_char_def)

lemma may_run_example: "creator_may_run eve_policies (some_schedule i u) \<longleftrightarrow> u = ''eve''"
  by (simp add: creator_may_run_def live_grants_def live_catalog_def loadCatalog_def catalog_rows_def eve_policies_def new_authorizer_def Let_def creator_def
      some_schedule_def scopeCovers_def role_grants_buildCatalog)

lemma fired_example: "fired some_sched_deps eve_policies 0 (sq_rows due_state) = [some_schedule ''s1'' ''eve'']"
  by (simp add: fired_def listDue_def is_due_def fires_def permitted_def may_run_example nextAfter_def cron_build_def some_sched_deps_def some_croner_def
      due_state_def crud_list_def job_type_def) (simp add: some_schedule_def)

section \<open>Properties\<close>

text \<open>C17: A tick of the leader enqueues one job for each due schedule that has a next firing time and, where its creator is
  re-checked, whose creator may still run the pipeline, in the order of the rows; it advances exactly the due schedules,
  leaves the last run of a refused one, and a second tick at the same time enqueues nothing.\<close>

theorem tick_fires_due_once:
  assumes "sd_leader sd \<noteq> Some False" "croner_ok (sd_croner sd)" "\<forall>t > now. sd_iso sd now < sd_iso sd t"
    and "\<And>job. sd_accepts sd job" "schedules_ok (sq_rows st)" "coherent store (sq_az st)"
    and "tick sd store now st = (res, st')"
  shows "res = (None, length (fired sd store now (sq_rows st))) \<and>
    sq_queue st' = sq_queue st @ jobs_of sd 0 (fired sd store now (sq_rows st)) \<and>
    (\<forall>k. map_of (sq_rows st') k =
       map_option (\<lambda>r. if is_due (sd_iso sd now) r then after_fire sd store now r else r) (map_of (sq_rows st) k)) \<and>
    sq_queue (snd (tick sd store now st')) = sq_queue st'"
proof -
  note eff = tick_effect [OF assms(1,4,5,6,7)]
  have "fired sd store now (sq_rows st') = []"
  proof (rule ccontr)
    assume "fired sd store now (sq_rows st') \<noteq> []"
    then obtain r where "r \<in> set (fired sd store now (sq_rows st'))" using hd_in_set by blast
    then have r: "r \<in> set (listDue (sd_iso sd now) (sq_rows st'))" "fires sd store now r" by (auto simp: fired_def)
    then have due: "is_due (sd_iso sd now) r" by (simp add: listDue_def)
    have "map_of (sq_rows st') (sh_id r) = Some r" using r(1) by (intro schedules_ok_member [OF eff(3)]) (simp add: listDue_def)
    then obtain r0 where "r = (if is_due (sd_iso sd now) r0 then after_fire sd store now r0 else r0)" using eff(5) by auto
    with due have "r = after_fire sd store now r0" by (auto split: if_splits)
    then show False using not_due_again [OF assms(2,3)] due r(2) by blast
  qed
  moreover have "sq_queue (snd (tick sd store now st')) = sq_queue st' @ jobs_of sd 0 (fired sd store now (sq_rows st'))"
    by (rule tick_effect(4) [OF assms(1,4) eff(3,2) surjective_pairing])
  ultimately show ?thesis using eff by simp
qed

theorem tick_fires_due_once_witness:
  "fst (tick some_sched_deps eve_policies 0 due_state) = (None, 1) \<and>
   sq_queue (snd (tick some_sched_deps eve_policies 0 (snd (tick some_sched_deps eve_policies 0 due_state)))) =
     [job_of some_sched_deps 0 (some_schedule ''s1'' ''eve'')]"
  using tick_fires_due_once [OF due_state_facts(1,2,3) _ due_state_facts(5,6) surjective_pairing, of eve_policies] by (simp add: fired_example)

text \<open>C18: Whatever the queue and the repository answer, a tick adds to the queue only jobs of due schedules, and a schedule whose
  creator is checked only if a grant covers the pipeline with a role that may run it among the grants the worker sees:
  those cached for the creator, and those stored now when none are.  What is cached stays through all ticks, and once the
  creators of the due schedules have been seen a tick does the same whatever the store holds: grants revoked after
  the first check keep firing.\<close>

theorem worker_keeps_grants:
  assumes "worker_later st0 st" "tick sd store now st = (res, st')"
  shows "(\<exists>jobs. sq_queue st' = sq_queue st @ jobs \<and> (\<forall>job \<in> set jobs. \<exists>row \<in> set (listDue (sd_iso sd now) (sq_rows st)).
      (\<exists>n. job = job_of sd n row) \<and> (checked sd row \<longrightarrow> creator_seen_to_run store (sq_az st) row))) \<and>
    (\<forall>u gs. map_of (az_grantCache (sq_az st0)) u = Some gs \<longrightarrow> seen_grants store (sq_az st) u = gs) \<and>
    ((\<forall>row \<in> set (listDue (sd_iso sd now) (sq_rows st)). checked sd row \<longrightarrow> cached_for (sq_az st0) row) \<longrightarrow>
       (\<forall>store'. tick sd store' now st = (res, st')))"
proof (intro conjI impI allI)
  show "\<exists>jobs. sq_queue st' = sq_queue st @ jobs \<and> (\<forall>job \<in> set jobs. \<exists>row \<in> set (listDue (sd_iso sd now) (sq_rows st)).
      (\<exists>n. job = job_of sd n row) \<and> (checked sd row \<longrightarrow> creator_seen_to_run store (sq_az st) row))"
    using assms(2) fire_all_jobs [of sd store now 0 "listDue (sd_iso sd now) (sq_rows st)" st res st'] by (auto simp: tick_def split: if_splits)
next
  fix u gs assume "map_of (az_grantCache (sq_az st0)) u = Some gs"
  with worker_later_keeps(1) [OF assms(1)] show "seen_grants store (sq_az st) u = gs" by (simp add: seen_grants_def)
next
  fix store'
  assume "\<forall>row \<in> set (listDue (sd_iso sd now) (sq_rows st)). checked sd row \<longrightarrow> cached_for (sq_az st0) row"
  then have "\<forall>row \<in> set (listDue (sd_iso sd now) (sq_rows st)). checked sd row \<longrightarrow> cached_for (sq_az st) row"
    using worker_later_keeps [OF assms(1)] by (fastforce simp: cached_for_def)
  from fire_all_cached [OF this, of store' now 0 store] show "tick sd store' now st = (res, st')" using assms(2) by (simp add: tick_def split: if_splits)
qed

text \<open>Eve has run her schedule once; her grants are gone when it is due again.\<close>

definition seen_eve :: sched_state where
  "seen_eve = due_state\<lparr>sq_az := snd (recheck eve_policies (some_schedule ''s1'' ''eve'') new_authorizer)\<rparr>"

lemma seen_eve_cached: "cached_for (sq_az seen_eve) (some_schedule i ''eve'')"
proof -
  have "recheck eve_policies (some_schedule ''s1'' ''eve'') new_authorizer = (fst (recheck eve_policies (some_schedule ''s1'' ''eve'') new_authorizer), sq_az seen_eve)"
    by (simp add: seen_eve_def)
  then show ?thesis
    by (simp add: seen_eve_def cached_for_def recheck_def authorizeClosure_def loadCatalog_def grantsFor_def grants_fill_def authorizable_def creator_def
        new_authorizer_def some_schedule_def split_beta Let_def)
qed

theorem worker_keeps_grants_witness:
  "tick some_sched_deps (eve_policies\<lparr>listGrantsForUser := (\<lambda>u. Some [])\<rparr>) 0 (seen_eve\<lparr>sq_rows := [(''s1'', some_schedule ''s1'' ''eve'')], sq_queue := []\<rparr>) =
   tick some_sched_deps eve_policies 0 (seen_eve\<lparr>sq_rows := [(''s1'', some_schedule ''s1'' ''eve'')], sq_queue := []\<rparr>)"
proof -
  let ?st = "seen_eve\<lparr>sq_rows := [(''s1'', some_schedule ''s1'' ''eve'')], sq_queue := []\<rparr>"
  have later: "worker_later seen_eve ?st" by (rule wl_write [OF wl_start])
  have "\<forall>row \<in> set (listDue (sd_iso some_sched_deps 0) (sq_rows ?st)). checked some_sched_deps row \<longrightarrow> cached_for (sq_az seen_eve) row"
    using seen_eve_cached by (auto simp: listDue_def crud_list_def)
  with worker_keeps_grants [OF later surjective_pairing, of some_sched_deps eve_policies 0] show ?thesis by simp
qed

text \<open>C19: In every history of the schedule routes, of seeds and of the scheduler no schedule names its creator, so that the
  check at firing time, which concerns such schedules only, refuses none of them whatever the grants stored.\<close>

theorem api_schedules_unchecked:
  assumes "schedule_history cr isodate rs" "map_of rs k = Some row"
  shows "sh_createdBy row = None \<and> permitted sd store row"
proof -
  have "sh_createdBy row = None" using history_unattributed [OF assms(1)] map_of_SomeD [OF assms(2)] by (auto simp: unattributed_def)
  then show ?thesis by (simp add: permitted_def)
qed

theorem api_schedules_unchecked_witness:
  "\<exists>rs row. map_of rs ''s1'' = Some row \<and> schedule_history some_croner (\<lambda>t. ''1'') rs \<and> sh_createdBy row = None \<and>
     permitted some_sched_deps eve_policies row"
proof -
  let ?row = "(some_schedule ''s1'' [])\<lparr>sh_createdBy := None, sh_system := True\<rparr>"
  have h: "schedule_history some_croner (\<lambda>t. ''1'') [(''s1'', ?row)]"
    by (rule sh_seed [OF sh_start, where row = ?row]) (simp_all add: crud_create_def some_schedule_def)
  have m: "map_of [(''s1'', ?row)] ''s1'' = Some ?row" by simp
  show ?thesis using h m api_schedules_unchecked [OF h m, of some_sched_deps eve_policies] by blast
qed

end
