(* ===== verification/Leader_Election.thy ===== *)
theory Leader_Election
  imports Prelude
begin

text \<open>
  The lease that decides which worker runs the scheduler (\<open>apps/worker/src/leader-election.ts\<close>).
  Redis runs one command at a time and drops a key when its expiry has come.  A worker's loop sends a
  command, and goes on when the reply has arrived or the call has failed; anything may happen in between,
  and a command whose call failed may still be run, at any later time.  No two workers have one pod id.
\<close>

section \<open>The store of the lease\<close>

text \<open>The holder and the expiry of the key; \<open>SET NX PX\<close> and the two scripts.\<close>

type_synonym lease = "(string \<times> int) option"

definition lease_get :: "int \<Rightarrow> lease \<Rightarrow> string option" where
  "lease_get now l = (case l of None \<Rightarrow> None | Some (holder, expiry) \<Rightarrow> if expiry \<le> now then None else Some holder)"

definition set_nx :: "string \<Rightarrow> int \<Rightarrow> int \<Rightarrow> lease \<Rightarrow> bool \<times> lease" where
  "set_nx podId ttl now l = (if lease_get now l = None then (True, Some (podId, now + ttl)) else (False, l))"

definition RENEW_LUA :: "string \<Rightarrow> int \<Rightarrow> int \<Rightarrow> lease \<Rightarrow> bool \<times> lease" where
  "RENEW_LUA podId ttl now l = (if lease_get now l = Some podId then (True, Some (podId, now + ttl)) else (False, l))"

definition RELEASE_LUA :: "string \<Rightarrow> int \<Rightarrow> lease \<Rightarrow> lease" where
  "RELEASE_LUA podId now l = (if lease_get now l = Some podId then None else l)"

section \<open>A worker\<close>

record lease_options =
  lo_leaseTtlMs :: int
  lo_renewIntervalMs :: int
  lo_pollIntervalMs :: int

text \<open>The options with their defaults; \<open>None\<close> is the exception of the constructor.\<close>

definition lease_options_of :: "int option \<Rightarrow> int option \<Rightarrow> int option \<Rightarrow> lease_options option" where
  "lease_options_of ttl renew poll =
     (let t = nullish ttl 10000; r = nullish renew (max 1000 (t div 3)); p = nullish poll (max 1000 (t div 2))
      in if t < r * 2 then None else Some \<lparr>lo_leaseTtlMs = t, lo_renewIntervalMs = r, lo_pollIntervalMs = p\<rparr>)"

datatype lease_call = Acquire | Renew

text \<open>
  \<open>wk_reply\<close> is the reply on its way, \<open>wk_proof\<close> the time of the last command that gave or renewed
  the lease, which the code does not keep.
\<close>

record worker =
  wk_leader :: bool
  wk_stopped :: bool
  wk_reply :: "(lease_call \<times> bool) option"
  wk_proof :: int

definition isLeader :: "worker \<Rightarrow> bool" where
  "isLeader w \<longleftrightarrow> wk_leader w \<and> \<not> wk_stopped w"

definition lease_command :: "lease_options \<Rightarrow> string \<Rightarrow> lease_call \<Rightarrow> int \<Rightarrow> lease \<Rightarrow> bool \<times> lease" where
  "lease_command opts podId call now l =
     (case call of Acquire \<Rightarrow> set_nx podId (lo_leaseTtlMs opts) now l | Renew \<Rightarrow> RENEW_LUA podId (lo_leaseTtlMs opts) now l)"

text \<open>The command of one turn of the loop: a leader renews, the others try to acquire.\<close>

definition loop_send :: "lease_options \<Rightarrow> string \<Rightarrow> int \<Rightarrow> worker \<Rightarrow> lease \<Rightarrow> worker \<times> lease" where
  "loop_send opts podId now w l =
     (let call = (if wk_leader w then Renew else Acquire); (granted, l') = lease_command opts podId call now l
      in (w\<lparr>wk_reply := Some (call, granted), wk_proof := (if granted then now else wk_proof w)\<rparr>, l'))"

text \<open>What the loop does with a reply, with the time it sleeps afterwards.\<close>

definition loop_reply :: "lease_options \<Rightarrow> lease_call \<times> bool \<Rightarrow> worker \<Rightarrow> worker \<times> int" where
  "loop_reply opts reply w =
     (case reply of
        (Renew, True) \<Rightarrow> (w\<lparr>wk_reply := None\<rparr>, lo_renewIntervalMs opts)
      | (Renew, False) \<Rightarrow> (w\<lparr>wk_reply := None, wk_leader := False\<rparr>, lo_pollIntervalMs opts)
      | (Acquire, True) \<Rightarrow> (w\<lparr>wk_reply := None, wk_leader := True\<rparr>, 0)
      | (Acquire, False) \<Rightarrow> (w\<lparr>wk_reply := None\<rparr>, lo_pollIntervalMs opts))"

text \<open>The exception of a call.\<close>

definition loop_failed :: "lease_options \<Rightarrow> worker \<Rightarrow> worker \<times> int" where
  "loop_failed opts w = (w\<lparr>wk_reply := None, wk_leader := False\<rparr>, lo_pollIntervalMs opts)"

text \<open>\<open>stop\<close>, where \<open>executed\<close> is whether the release reached the store.\<close>

definition stop_worker :: "string \<Rightarrow> int \<Rightarrow> bool \<Rightarrow> worker \<Rightarrow> lease \<Rightarrow> worker \<times> lease" where
  "stop_worker podId now executed w l =
     (if wk_stopped w then (w, l)
      else (w\<lparr>wk_leader := False, wk_stopped := True\<rparr>, if executed then RELEASE_LUA podId now l else l))"

section \<open>Workers and one lease\<close>

record cluster =
  cl_now :: int
  cl_lease :: lease
  cl_workers :: "string \<Rightarrow> worker"

definition new_worker :: worker where
  "new_worker = \<lparr>wk_leader = False, wk_stopped = False, wk_reply = None, wk_proof = 0\<rparr>"

definition new_cluster :: "int \<Rightarrow> cluster" where
  "new_cluster t = \<lparr>cl_now = t, cl_lease = None, cl_workers = (\<lambda>p. new_worker)\<rparr>"

text \<open>One worker acts; the others and the clock stay.\<close>

definition act :: "string \<Rightarrow> worker \<times> lease \<Rightarrow> cluster \<Rightarrow> cluster" where
  "act p wl c = c\<lparr>cl_lease := snd wl, cl_workers := (cl_workers c)(p := fst wl)\<rparr>"

definition ready :: "worker \<Rightarrow> bool" where
  "ready w \<longleftrightarrow> \<not> wk_stopped w \<and> wk_reply w = None"

inductive cluster_step :: "lease_options \<Rightarrow> cluster \<Rightarrow> cluster \<Rightarrow> bool" for opts where
  cs_time: "cl_now c \<le> t \<Longrightarrow> cluster_step opts c (c\<lparr>cl_now := t\<rparr>)"
| cs_send: "ready (cl_workers c p) \<Longrightarrow> cluster_step opts c (act p (loop_send opts p (cl_now c) (cl_workers c p) (cl_lease c)) c)"
| cs_reply: "wk_reply (cl_workers c p) = Some reply \<Longrightarrow>
    cluster_step opts c (act p (fst (loop_reply opts reply (cl_workers c p)), cl_lease c) c)"
| cs_failed: "cluster_step opts c (act p (fst (loop_failed opts (cl_workers c p)), cl_lease c) c)"
| cs_late: "cluster_step opts c (act p (cl_workers c p, snd (lease_command opts p call (cl_now c) (cl_lease c))) c)"
| cs_stop: "cluster_step opts c (act p (stop_worker p (cl_now c) executed (cl_workers c p) (cl_lease c)) c)"

inductive cluster_reach :: "lease_options \<Rightarrow> cluster \<Rightarrow> bool" for opts where
  cl_start: "cluster_reach opts (new_cluster t)"
| cl_step: "cluster_reach opts c \<Longrightarrow> cluster_step opts c c' \<Longrightarrow> cluster_reach opts c'"

inductive_cases cluster_stepE: "cluster_step opts c c'"

text \<open>A worker that may take itself for the leader, and one whose proof is younger than the lease.\<close>

definition claims :: "worker \<Rightarrow> bool" where
  "claims w \<longleftrightarrow> \<not> wk_stopped w \<and> (wk_leader w \<or> wk_reply w = Some (Acquire, True))"

definition fresh_leader :: "lease_options \<Rightarrow> cluster \<Rightarrow> string \<Rightarrow> bool" where
  "fresh_leader opts c p \<longleftrightarrow> isLeader (cl_workers c p) \<and> cl_now c < wk_proof (cl_workers c p) + lo_leaseTtlMs opts"

text \<open>A fresh claim is backed by the store; no key outlives a lease from now.\<close>

definition backed :: "lease_options \<Rightarrow> int \<Rightarrow> lease \<Rightarrow> string \<Rightarrow> worker \<Rightarrow> bool" where
  "backed opts now l p w \<longleftrightarrow> (claims w \<longrightarrow> wk_proof w \<le> now \<and>
     (now < wk_proof w + lo_leaseTtlMs opts \<longrightarrow> (\<exists>expiry. l = Some (p, expiry) \<and> wk_proof w + lo_leaseTtlMs opts \<le> expiry)))"

definition lease_bounded :: "lease_options \<Rightarrow> int \<Rightarrow> lease \<Rightarrow> bool" where
  "lease_bounded opts now l \<longleftrightarrow> (case l of None \<Rightarrow> True | Some (p, expiry) \<Rightarrow> expiry \<le> now + lo_leaseTtlMs opts)"

definition lease_inv :: "lease_options \<Rightarrow> cluster \<Rightarrow> bool" where
  "lease_inv opts c \<longleftrightarrow> (\<forall>p. backed opts (cl_now c) (cl_lease c) p (cl_workers c p)) \<and>
     lease_bounded opts (cl_now c) (cl_lease c)"

lemmas lease_defs = lease_command_def set_nx_def RENEW_LUA_def RELEASE_LUA_def lease_get_def

text \<open>A command of one worker leaves what backs the claims of the others.\<close>

lemma backed_other:
  assumes "backed opts now l q w" "p \<noteq> q"
  shows "backed opts now (snd (lease_command opts p call now l)) q w" "backed opts now (RELEASE_LUA p now l) q w"
  using assms by (auto simp: backed_def lease_defs split: lease_call.splits option.splits if_splits)

lemma backed_late: "backed opts now l p w \<Longrightarrow> backed opts now (snd (lease_command opts p call now l)) p w"
  by (auto simp: backed_def lease_defs split: lease_call.splits option.splits if_splits)

lemma backed_send:
  assumes "backed opts now l p w" "ready w"
  shows "backed opts now (snd (loop_send opts p now w l)) p (fst (loop_send opts p now w l))"
  using assms
  by (auto simp: backed_def loop_send_def lease_defs claims_def ready_def Let_def split: option.splits if_splits)

lemma backed_reply: "backed opts now l p w \<Longrightarrow> wk_reply w = Some reply \<Longrightarrow> backed opts now l p (fst (loop_reply opts reply w))"
  by (auto simp: backed_def loop_reply_def claims_def split: prod.splits lease_call.splits bool.splits)

lemma backed_failed: "backed opts now l p (fst (loop_failed opts w))"
  by (simp add: backed_def loop_failed_def claims_def)

lemma backed_stop: "backed opts now l p w \<Longrightarrow> backed opts now (snd (stop_worker p now executed w l)) p (fst (stop_worker p now executed w l))"
  by (auto simp: backed_def stop_worker_def claims_def)

lemma bounded_command:
  assumes "lease_bounded opts now l"
  shows "lease_bounded opts now (snd (lease_command opts p call now l))" "lease_bounded opts now (RELEASE_LUA p now l)"
  using assms by (auto simp: lease_bounded_def lease_defs split: lease_call.splits option.splits)

lemma loop_send_lease: "snd (loop_send opts p now w l) = snd (lease_command opts p (if wk_leader w then Renew else Acquire) now l)"
  by (simp add: loop_send_def split_beta)

lemma stop_worker_lease: "snd (stop_worker p now executed w l) = (if executed \<and> \<not> wk_stopped w then RELEASE_LUA p now l else l)"
  by (simp add: stop_worker_def)

lemma act_inv:
  assumes "lease_inv opts c" "backed opts (cl_now c) (snd wl) p (fst wl)" "lease_bounded opts (cl_now c) (snd wl)"
    and "\<And>q w. p \<noteq> q \<Longrightarrow> backed opts (cl_now c) (cl_lease c) q w \<Longrightarrow> backed opts (cl_now c) (snd wl) q w"
  shows "lease_inv opts (act p wl c)"
  using assms by (simp add: lease_inv_def act_def)

lemma step_inv: "cluster_step opts c c' \<Longrightarrow> lease_inv opts c \<Longrightarrow> lease_inv opts c'"
proof (induction rule: cluster_step.induct)
  case (cs_time c t)
  then show ?case by (fastforce simp: lease_inv_def backed_def lease_bounded_def split: option.splits)
next
  case (cs_send c p)
  have inv: "backed opts (cl_now c) (cl_lease c) p (cl_workers c p)" "lease_bounded opts (cl_now c) (cl_lease c)"
    using cs_send(2) by (simp_all add: lease_inv_def)
  show ?case
    by (rule act_inv [OF cs_send(2) backed_send [OF inv(1) cs_send(1)]])
      (simp_all add: loop_send_lease bounded_command inv backed_other)
next
  case (cs_reply c p reply)
  then have inv: "backed opts (cl_now c) (cl_lease c) p (cl_workers c p)" "lease_bounded opts (cl_now c) (cl_lease c)"
    by (simp_all add: lease_inv_def)
  show ?case by (rule act_inv [OF cs_reply(2)]) (simp_all add: inv backed_reply [OF inv(1) cs_reply(1)])
next
  case (cs_failed c p)
  then have "lease_bounded opts (cl_now c) (cl_lease c)" by (simp add: lease_inv_def)
  then show ?case by (intro act_inv [OF cs_failed]) (simp_all add: backed_failed)
next
  case (cs_late c p call)
  then have inv: "backed opts (cl_now c) (cl_lease c) p (cl_workers c p)" "lease_bounded opts (cl_now c) (cl_lease c)"
    by (simp_all add: lease_inv_def)
  show ?case by (rule act_inv [OF cs_late]) (simp_all add: inv backed_late bounded_command backed_other)
next
  case (cs_stop c p executed)
  then have inv: "backed opts (cl_now c) (cl_lease c) p (cl_workers c p)" "lease_bounded opts (cl_now c) (cl_lease c)"
    by (simp_all add: lease_inv_def)
  show ?case by (rule act_inv [OF cs_stop backed_stop [OF inv(1)]]) (simp_all add: stop_worker_lease inv bounded_command backed_other)
qed

lemma cluster_inv: "cluster_reach opts c \<Longrightarrow> lease_inv opts c"
proof (induction rule: cluster_reach.induct)
  case (cl_start t)
  then show ?case by (simp add: lease_inv_def new_cluster_def new_worker_def backed_def claims_def lease_bounded_def)
qed (rule step_inv)

lemma fresh_backed:
  assumes "cluster_reach opts c" "fresh_leader opts c p"
  shows "\<exists>expiry. cl_lease c = Some (p, expiry) \<and> wk_proof (cl_workers c p) + lo_leaseTtlMs opts \<le> expiry"
proof -
  have "backed opts (cl_now c) (cl_lease c) p (cl_workers c p)" using cluster_inv [OF assms(1)] by (simp add: lease_inv_def)
  then show ?thesis using assms(2) by (simp add: backed_def fresh_leader_def isLeader_def claims_def)
qed

lemma loop_send_idle:
  assumes "\<not> wk_leader w" "lease_get now l = None"
  shows "loop_send opts p now w l = (w\<lparr>wk_reply := Some (Acquire, True), wk_proof := now\<rparr>, Some (p, now + lo_leaseTtlMs opts))"
  using assms by (simp add: loop_send_def lease_command_def set_nx_def)

section \<open>An example\<close>

text \<open>Worker \<open>a\<close> becomes the leader and pauses for a lease; worker \<open>b\<close> takes over; \<open>a\<close> has not noticed.\<close>

definition send_of :: "lease_options \<Rightarrow> string \<Rightarrow> cluster \<Rightarrow> cluster" where
  "send_of opts p c = act p (loop_send opts p (cl_now c) (cl_workers c p) (cl_lease c)) c"

definition acquired_of :: "lease_options \<Rightarrow> string \<Rightarrow> cluster \<Rightarrow> cluster" where
  "acquired_of opts p c = act p (fst (loop_reply opts (Acquire, True) (cl_workers c p)), cl_lease c) c"

definition some_options :: lease_options where
  "some_options = \<lparr>lo_leaseTtlMs = 10000, lo_renewIntervalMs = 3333, lo_pollIntervalMs = 5000\<rparr>"

definition two_leaders :: cluster where
  "two_leaders = acquired_of some_options ''b'' (send_of some_options ''b''
     ((acquired_of some_options ''a'' (send_of some_options ''a'' (new_cluster 0)))\<lparr>cl_now := 10000\<rparr>))"

lemma default_options: "lease_options_of None None None = Some some_options"
  by (simp add: lease_options_of_def some_options_def)

lemma reach_send: "cluster_reach opts c \<Longrightarrow> ready (cl_workers c p) \<Longrightarrow> cluster_reach opts (send_of opts p c)"
  unfolding send_of_def by (blast intro: cl_step cs_send)

lemma reach_acquired:
  "cluster_reach opts c \<Longrightarrow> wk_reply (cl_workers c p) = Some (Acquire, True) \<Longrightarrow> cluster_reach opts (acquired_of opts p c)"
  unfolding acquired_of_def by (blast intro: cl_step cs_reply)

lemma reach_time: "cluster_reach opts c \<Longrightarrow> cl_now c \<le> t \<Longrightarrow> cluster_reach opts (c\<lparr>cl_now := t\<rparr>)"
  by (blast intro: cl_step cs_time)

lemma run_simps:
  "act p wl c = c\<lparr>cl_lease := snd wl, cl_workers := (cl_workers c)(p := fst wl)\<rparr>"
  "new_cluster t = \<lparr>cl_now = t, cl_lease = None, cl_workers = (\<lambda>p. new_worker)\<rparr>"
  by (simp_all add: act_def new_cluster_def)

lemma two_leaders_run:
  "cluster_reach some_options two_leaders" "isLeader (cl_workers two_leaders ''a'')" "fresh_leader some_options two_leaders ''b''"
proof -
  note run = send_of_def acquired_of_def run_simps loop_send_def loop_reply_def lease_defs new_worker_def some_options_def ready_def
  show "cluster_reach some_options two_leaders"
    unfolding two_leaders_def
    by (intro reach_acquired reach_send reach_time cl_start) (simp_all add: run)
  show "isLeader (cl_workers two_leaders ''a'')" "fresh_leader some_options two_leaders ''b''"
    by (simp_all add: two_leaders_def isLeader_def fresh_leader_def run)
qed

section \<open>Properties\<close>

text \<open>C20: In every run of any number of workers, whatever calls are delayed, lost or executed late, at most one worker takes
  itself for the leader on a proof younger than the lease, and the key is then its own until that proof has aged: a second
  leader can only be one that has not renewed for a whole lease.\<close>

theorem one_fresh_leader:
  assumes "cluster_reach opts c" "fresh_leader opts c p"
  shows "(\<exists>expiry. cl_lease c = Some (p, expiry) \<and> wk_proof (cl_workers c p) + lo_leaseTtlMs opts \<le> expiry) \<and>
    (\<forall>q. fresh_leader opts c q \<longrightarrow> q = p)"
  using fresh_backed [OF assms] fresh_backed [OF assms(1)] by fastforce

theorem one_fresh_leader_witness:
  "isLeader (cl_workers two_leaders ''a'') \<and> isLeader (cl_workers two_leaders ''b'') \<and> \<not> fresh_leader some_options two_leaders ''a'' \<and>
   (\<exists>expiry. cl_lease two_leaders = Some (''b'', expiry))"
proof -
  note one = one_fresh_leader [OF two_leaders_run(1,3)]
  have "''a'' \<noteq> ''b''" by simp
  then have "\<not> fresh_leader some_options two_leaders ''a''" using one by blast
  then show ?thesis using one two_leaders_run(2,3) unfolding fresh_leader_def by blast
qed

text \<open>C21: Whatever the other workers did, a worker that is neither stopped nor leader and has no call under way is given
  the lease by its next command and is a fresh leader with the reply, once a lease has passed in which no command was run.\<close>

theorem leadership_taken_over:
  assumes "cluster_reach opts c" "ready (cl_workers c p)" "\<not> wk_leader (cl_workers c p)" "0 < lo_leaseTtlMs opts"
    and "cl_now c + lo_leaseTtlMs opts \<le> t"
    and "c1 = c\<lparr>cl_now := t\<rparr>" "c2 = act p (loop_send opts p (cl_now c1) (cl_workers c1 p) (cl_lease c1)) c1"
  shows "wk_reply (cl_workers c2 p) = Some (Acquire, True) \<and>
    fresh_leader opts (act p (fst (loop_reply opts (Acquire, True) (cl_workers c2 p)), cl_lease c2) c2) p"
proof -
  have "lease_bounded opts (cl_now c) (cl_lease c)" using cluster_inv [OF assms(1)] by (simp add: lease_inv_def)
  then have "lease_get t (cl_lease c) = None" using assms(5) by (auto simp: lease_bounded_def lease_get_def split: option.splits)
  then show ?thesis
    using assms(2-4) unfolding assms(6,7)
    by (simp add: loop_send_idle act_def loop_reply_def fresh_leader_def isLeader_def ready_def)
qed

theorem leadership_taken_over_witness:
  "fresh_leader some_options (act ''c'' (fst (loop_reply some_options (Acquire, True) (cl_workers (send_of some_options ''c''
     (two_leaders\<lparr>cl_now := 20000\<rparr>)) ''c'')), cl_lease (send_of some_options ''c'' (two_leaders\<lparr>cl_now := 20000\<rparr>)))
     (send_of some_options ''c'' (two_leaders\<lparr>cl_now := 20000\<rparr>))) ''c''"
proof -
  have "cl_workers two_leaders ''c'' = new_worker" "cl_now two_leaders = 10000"
    by (simp_all add: two_leaders_def send_of_def acquired_of_def run_simps)
  then have "ready (cl_workers two_leaders ''c'')" "\<not> wk_leader (cl_workers two_leaders ''c'')" "0 < lo_leaseTtlMs some_options"
    "cl_now two_leaders + lo_leaseTtlMs some_options \<le> 20000"
    by (simp_all add: ready_def new_worker_def some_options_def)
  from leadership_taken_over [OF two_leaders_run(1) this refl refl] show ?thesis by (simp add: send_of_def)
qed

end
