(* ===== verification/Credential_Grants.thy ===== *)
theory Credential_Grants
  imports Dataset_Resolver Account_Routes
begin

text \<open>
  Credentials for plugins outside the process: the store of refresh grants
  (\<open>packages/db/src/memory/credential-grants.ts\<close>), their issue and redemption
  (\<open>packages/external-connections/src/credential-grants.ts\<close>), the dispatch to the driver
  (\<open>materializeExternalCredential\<close> of \<open>packages/connection-sdk/src/index.ts\<close>) and the route a sidecar calls
  (\<open>apps/api/src/app/routes/connection-credentials.ts\<close>).  The drivers, the dates and the random tokens are
  parameters; a redemption runs without a break, and audit entries are left out.
\<close>

section \<open>The store\<close>

record CredentialGrantRow =
  cg_id :: string
  cg_token :: string
  cg_executionId :: string
  cg_nodeId :: string
  cg_tenantId :: string
  cg_environment :: string
  cg_connectionSlug :: string
  cg_expiresAt :: string
  cg_revokedAt :: "string option"
  cg_redeemCount :: nat
  cg_lastRedeemedAt :: "string option"
  cg_createdAt :: string
  cg_materializationContext :: "(string \<times> json) list option"

type_synonym grant_store = "(string, CredentialGrantRow) jsmap"

definition grant_create :: "CredentialGrantRow \<Rightarrow> grant_store \<Rightarrow> grant_store" where
  "grant_create row grants = AList.update (cg_token row) row grants"

definition getByToken :: "grant_store \<Rightarrow> string \<Rightarrow> CredentialGrantRow option" where
  "getByToken grants token = map_of grants token"

definition recordRedemption :: "string \<Rightarrow> string \<Rightarrow> grant_store \<Rightarrow> grant_store" where
  "recordRedemption token now grants =
     (case map_of grants token of
        None \<Rightarrow> grants
      | Some row \<Rightarrow> AList.update token (row\<lparr>cg_redeemCount := cg_redeemCount row + 1, cg_lastRedeemedAt := Some now\<rparr>) grants)"

definition revocable :: "string \<Rightarrow> CredentialGrantRow \<Rightarrow> bool" where
  "revocable executionId row \<longleftrightarrow> cg_executionId row = executionId \<and> \<not> str_truthy (cg_revokedAt row)"

definition revokeForExecution :: "string \<Rightarrow> string \<Rightarrow> grant_store \<Rightarrow> nat \<times> grant_store" where
  "revokeForExecution executionId now grants =
     (length (filter (revocable executionId \<circ> snd) grants),
      map (\<lambda>(t, row). (t, if revocable executionId row then row\<lparr>cg_revokedAt := Some now\<rparr> else row)) grants)"

definition deleteExpired :: "string \<Rightarrow> grant_store \<Rightarrow> nat \<times> grant_store" where
  "deleteExpired now grants =
     (length (filter (\<lambda>(t, row). cg_expiresAt row \<le> now) grants), filter (\<lambda>(t, row). \<not> cg_expiresAt row \<le> now) grants)"

section \<open>Drivers\<close>

record MaterializationContext =
  mx_tenantId :: string
  mx_environment :: string
  mx_executionId :: string
  mx_nodeId :: string
  mx_config :: json
  mx_inputs :: json
  mx_refreshContext :: "(string \<times> json) list option"

datatype credential_error = No_driver string | Driver_failed

type_synonym hook = "ResolvedExternalConnection \<Rightarrow> MaterializationContext \<Rightarrow> credential_error + MaterializedExternalCredential"

text \<open>The registered kinds, each with the hook of its driver if it has one.\<close>

type_synonym drivers = "(string, hook option) jsmap"

definition materializeExternalCredential ::
  "drivers \<Rightarrow> ResolvedExternalConnection \<Rightarrow> MaterializationContext \<Rightarrow> credential_error + MaterializedExternalCredential option"
where
  "materializeExternalCredential drivers connection context =
     (case map_of drivers (rx_kind connection) of
        None \<Rightarrow> Inl (No_driver (rx_kind connection))
      | Some None \<Rightarrow> Inr None
      | Some (Some hook) \<Rightarrow> (case hook connection context of Inl e \<Rightarrow> Inl e | Inr c \<Rightarrow> Inr (Some c)))"

text \<open>The credential without what only the core may see.\<close>

definition wire_credential :: "MaterializedExternalCredential \<Rightarrow> ExternalCredential" where
  "wire_credential c = mc_credential c"

section \<open>Issue and redemption\<close>

definition CONNECTION_CREDENTIAL_REFRESH_PATH :: string where
  "CONNECTION_CREDENTIAL_REFRESH_PATH = ''/api/internal/connection-credentials/refresh''"

definition DEFAULT_MAX_TTL_MS :: int where
  "DEFAULT_MAX_TTL_MS = 60 * 60 * 1000"

definition grant_callback_url :: "string \<Rightarrow> string" where
  "grant_callback_url base = rev (dropWhile (\<lambda>c. c = CHR ''/'') (rev base)) @ CONNECTION_CREDENTIAL_REFRESH_PATH"

record IssueArgs =
  gi_executionId :: string
  gi_nodeId :: string
  gi_tenantId :: string
  gi_environment :: string
  gi_connectionSlug :: string
  gi_deadline :: "int option"
  gi_refreshContext :: "(string \<times> json) list option"

record IssuedGrant =
  ig_url :: string
  ig_token :: string
  ig_expiresAt :: string

text \<open>The clock, the printing of dates and the identifiers and tokens drawn.\<close>

record grant_world =
  gw_now :: int
  gw_iso :: "int \<Rightarrow> string"
  gw_uuid :: string
  gw_token :: string

definition issued_row :: "int option \<Rightarrow> grant_world \<Rightarrow> IssueArgs \<Rightarrow> CredentialGrantRow" where
  "issued_row ttl gw args =
     (let maxTtlMs = nullish ttl DEFAULT_MAX_TTL_MS; now = gw_now gw;
          deadlineMs = (case gi_deadline args of Some d \<Rightarrow> d | None \<Rightarrow> now + maxTtlMs);
          expiresAtMs = min deadlineMs (now + maxTtlMs)
      in \<lparr>cg_id = gw_uuid gw, cg_token = gw_token gw, cg_executionId = gi_executionId args, cg_nodeId = gi_nodeId args,
          cg_tenantId = gi_tenantId args, cg_environment = gi_environment args, cg_connectionSlug = gi_connectionSlug args,
          cg_expiresAt = gw_iso gw expiresAtMs, cg_revokedAt = None, cg_redeemCount = 0, cg_lastRedeemedAt = None,
          cg_createdAt = gw_iso gw now, cg_materializationContext = gi_refreshContext args\<rparr>)"

definition issueConnectionRefreshGrant ::
  "string \<Rightarrow> int option \<Rightarrow> grant_world \<Rightarrow> IssueArgs \<Rightarrow> grant_store \<Rightarrow> IssuedGrant \<times> grant_store"
where
  "issueConnectionRefreshGrant base ttl gw args grants =
     (let row = issued_row ttl gw args
      in (\<lparr>ig_url = grant_callback_url base, ig_token = gw_token gw, ig_expiresAt = cg_expiresAt row\<rparr>, grant_create row grants))"

definition revokeConnectionRefreshGrants :: "grant_world \<Rightarrow> string \<Rightarrow> grant_store \<Rightarrow> grant_store" where
  "revokeConnectionRefreshGrants gw executionId grants = snd (revokeForExecution executionId (gw_iso gw (gw_now gw)) grants)"

datatype redeem_status = R_ok | R_unknown_token | R_revoked | R_expired | R_no_connection | R_not_materializable

record RedeemResult =
  rr_status :: redeem_status
  rr_credential :: "ExternalCredential option"
  rr_grant :: "CredentialGrantRow option"

definition grant_expired :: "(string \<Rightarrow> int option) \<Rightarrow> int \<Rightarrow> CredentialGrantRow \<Rightarrow> bool" where
  "grant_expired date_ms now grant \<longleftrightarrow> (case date_ms (cg_expiresAt grant) of None \<Rightarrow> False | Some t \<Rightarrow> t \<le> now)"

definition redeem_args :: "CredentialGrantRow \<Rightarrow> SlugArgs" where
  "redeem_args grant = \<lparr>sa_slug = cg_connectionSlug grant, sa_tenantId = Some (cg_tenantId grant), sa_environmentId = Some (cg_environment grant)\<rparr>"

definition redeem_context :: "CredentialGrantRow \<Rightarrow> MaterializationContext" where
  "redeem_context grant = \<lparr>mx_tenantId = cg_tenantId grant, mx_environment = cg_environment grant, mx_executionId = cg_executionId grant,
     mx_nodeId = cg_nodeId grant, mx_config = JObj [], mx_inputs = JObj [], mx_refreshContext = cg_materializationContext grant\<rparr>"

text \<open>\<open>Inl\<close> is an exception: no driver, or the driver's own.\<close>

definition redeemConnectionCredentialGrant ::
  "drivers \<Rightarrow> (string \<Rightarrow> int option) \<Rightarrow> (int \<Rightarrow> string) \<Rightarrow> (SlugArgs \<Rightarrow> ResolvedExternalConnection option) \<Rightarrow> string \<Rightarrow> int \<Rightarrow>
   grant_store \<Rightarrow> (credential_error + RedeemResult) \<times> grant_store"
where
  "redeemConnectionCredentialGrant drivers date_ms isodate resolve token now grants =
     (case getByToken grants token of
        None \<Rightarrow> (Inr \<lparr>rr_status = R_unknown_token, rr_credential = None, rr_grant = None\<rparr>, grants)
      | Some grant \<Rightarrow>
          let result = (\<lambda>status credential. Inr \<lparr>rr_status = status, rr_credential = credential, rr_grant = Some grant\<rparr>)
          in if str_truthy (cg_revokedAt grant) then (result R_revoked None, grants)
             else if grant_expired date_ms now grant then (result R_expired None, grants)
             else (case resolve (redeem_args grant) of
                     None \<Rightarrow> (result R_no_connection None, grants)
                   | Some conn \<Rightarrow>
                       (case materializeExternalCredential drivers conn (redeem_context grant) of
                          Inl e \<Rightarrow> (Inl e, grants)
                        | Inr None \<Rightarrow> (result R_not_materializable None, grants)
                        | Inr (Some c) \<Rightarrow> (result R_ok (Some (wire_credential c)), recordRedemption token (isodate now) grants))))"

section \<open>The route\<close>

definition perIpLimiter :: RateLimitConfig where
  "perIpLimiter = \<lparr>rl_capacity = 60, rl_refillPerSec = 1\<rparr>"

definition perTokenLimiter :: RateLimitConfig where
  "perTokenLimiter = \<lparr>rl_capacity = 30, rl_refillPerSec = 1 / 2\<rparr>"

record refresh_state =
  rf_grants :: grant_store
  rf_ipBuckets :: buckets
  rf_tokenBuckets :: buckets

record refresh_deps =
  re_drivers :: drivers
  re_dateMs :: "string \<Rightarrow> int option"
  re_iso :: "int \<Rightarrow> string"
  re_resolve :: "SlugArgs \<Rightarrow> ResolvedExternalConnection option"

definition limited_response :: "string \<Rightarrow> RateLimitDecision \<Rightarrow> AppResponse" where
  "limited_response scope decision = \<lparr>rsp_status = 429,
     rsp_body = JObj [(''error'', JStr ''rate_limited''), (''scope'', JStr scope), (''retryAfterSec'', jint (dc_retryAfterSec decision))],
     rsp_headers = [(''retry-after'', int_str (dc_retryAfterSec decision))]\<rparr>"

definition text_map_json :: "(string \<times> string) list option \<Rightarrow> json" where
  "text_map_json m = (case m of None \<Rightarrow> JUndef | Some kvs \<Rightarrow> JObj (map (\<lambda>(k, v). (k, JStr v)) kvs))"

definition credential_json :: "ExternalCredential \<Rightarrow> json" where
  "credential_json c = JObj (filter (\<lambda>(k, v). v \<noteq> JUndef) [(''value'', opt_json (xc_value c)),
     (''headers'', text_map_json (xc_headers c)), (''query'', text_map_json (xc_query c)), (''expiresAt'', opt_json (xc_expiresAt c)),
     (''options'', (case xc_options c of None \<Rightarrow> JUndef | Some m \<Rightarrow> JObj m))])"

definition redeem_response :: "RedeemResult \<Rightarrow> AppResponse" where
  "redeem_response r = (case rr_status r of
     R_unknown_token \<Rightarrow> error_response 401 ''invalid_grant'' [(''message'', JStr ''unknown grant token'')]
   | R_expired \<Rightarrow> error_response 401 ''grant_expired'' [(''message'', JStr ''grant has expired'')]
   | R_revoked \<Rightarrow> error_response 403 ''grant_revoked'' [(''message'', JStr ''grant was revoked'')]
   | R_no_connection \<Rightarrow> error_response 404 ''connection_not_found'' [(''message'', JStr ''the grant's connection no longer resolves'')]
   | R_not_materializable \<Rightarrow> error_response 409 ''not_materializable''
       [(''message'', JStr ''the connection driver no longer exposes an external credential'')]
   | R_ok \<Rightarrow> ok_response 200 (JObj [(''credential'', (case rr_credential r of None \<Rightarrow> JUndef | Some c \<Rightarrow> credential_json c))]))"

definition refresh_route :: "refresh_deps \<Rightarrow> int \<Rightarrow> AppRequest \<Rightarrow> refresh_state \<Rightarrow> (route_error + AppResponse) \<times> refresh_state" where
  "refresh_route deps now request st =
     (let ip = nullish (clientIp (rq_headers request)) ''unknown'';
          (ipDecision, ipBuckets) = consume perIpLimiter (''ip:'' @ ip) now (rf_ipBuckets st);
          st1 = st\<lparr>rf_ipBuckets := ipBuckets\<rparr>
      in if \<not> dc_allowed ipDecision then (Inr (limited_response ''ip'' ipDecision), st1)
         else
           let token = opt_str (member (rq_body request) ''token'')
           in if \<not> str_truthy token then (Inr (error_response 400 ''invalid_request'' [(''message'', JStr ''body.token is required'')]), st1)
              else
                let (tokDecision, tokenBuckets) = consume perTokenLimiter (''tok:'' @ take 12 (the token)) now (rf_tokenBuckets st1);
                    st2 = st1\<lparr>rf_tokenBuckets := tokenBuckets\<rparr>
                in if \<not> dc_allowed tokDecision then (Inr (limited_response ''token'' tokDecision), st2)
                   else (case redeemConnectionCredentialGrant (re_drivers deps) (re_dateMs deps) (re_iso deps) (re_resolve deps) (the token) now
                               (rf_grants st2) of
                           (Inl e, grants) \<Rightarrow> (Inl Route_failed, st2\<lparr>rf_grants := grants\<rparr>)
                         | (Inr r, grants) \<Rightarrow> (Inr (redeem_response r), st2\<lparr>rf_grants := grants\<rparr>)))"

section \<open>Histories of one grant\<close>

text \<open>What may happen to the store while a token is out: no other grant draws the same token.\<close>

inductive grant_step :: "string \<Rightarrow> grant_store \<Rightarrow> grant_store \<Rightarrow> bool" for tok where
  gs_issue: "gw_token gw \<noteq> tok \<Longrightarrow> grant_step tok s (snd (issueConnectionRefreshGrant base ttl gw args s))"
| gs_redeem: "grant_step tok s (snd (redeemConnectionCredentialGrant drivers date_ms isodate resolve token now s))"
| gs_revoke: "now \<noteq> [] \<Longrightarrow> grant_step tok s (snd (revokeForExecution executionId now s))"
| gs_sweep: "grant_step tok s (snd (deleteExpired now s))"

text \<open>What a row keeps: all but its counters, and its revocation once it has one.\<close>

definition issued_part :: "CredentialGrantRow \<Rightarrow> CredentialGrantRow" where
  "issued_part g = g\<lparr>cg_revokedAt := None, cg_redeemCount := 0, cg_lastRedeemedAt := None\<rparr>"

definition same_grant :: "CredentialGrantRow \<Rightarrow> CredentialGrantRow \<Rightarrow> bool" where
  "same_grant g g' \<longleftrightarrow> issued_part g' = issued_part g \<and> (str_truthy (cg_revokedAt g) \<longrightarrow> str_truthy (cg_revokedAt g'))"

lemma same_grant_refl [simp]: "same_grant g g"
  by (simp add: same_grant_def)

lemma same_grant_trans: "same_grant g g' \<Longrightarrow> same_grant g' g'' \<Longrightarrow> same_grant g g''"
  by (simp add: same_grant_def)

lemma same_grant_fields:
  "same_grant g g' \<Longrightarrow> cg_expiresAt g' = cg_expiresAt g \<and> redeem_args g' = redeem_args g \<and> redeem_context g' = redeem_context g \<and>
     (str_truthy (cg_revokedAt g) \<longrightarrow> str_truthy (cg_revokedAt g'))"
  by (cases g; cases g') (simp add: same_grant_def issued_part_def redeem_args_def redeem_context_def)

lemma same_grant_redeemed: "same_grant g (g\<lparr>cg_redeemCount := n, cg_lastRedeemedAt := l\<rparr>)"
  by (simp add: same_grant_def issued_part_def)

lemma same_grant_revoked: "now \<noteq> [] \<Longrightarrow> same_grant g (g\<lparr>cg_revokedAt := Some now\<rparr>)"
  by (simp add: same_grant_def issued_part_def str_truthy_def)

definition from_row :: "string \<Rightarrow> grant_store \<Rightarrow> grant_store \<Rightarrow> bool" where
  "from_row tok s s' \<longleftrightarrow> (\<forall>g'. map_of s' tok = Some g' \<longrightarrow> (\<exists>g. map_of s tok = Some g \<and> same_grant g g'))"

lemma redeem_store:
  "snd (redeemConnectionCredentialGrant drivers date_ms isodate resolve token now s) \<in> {s, recordRedemption token (isodate now) s}"
  by (auto simp: redeemConnectionCredentialGrant_def Let_def split: option.splits sum.splits)

lemma record_from_row: "from_row tok s (recordRedemption token now s)"
  by (auto simp: from_row_def recordRedemption_def same_grant_redeemed split: option.splits)

lemma map_of_revoked:
  "map_of (snd (revokeForExecution executionId now s)) tok =
     map_option (\<lambda>row. if revocable executionId row then row\<lparr>cg_revokedAt := Some now\<rparr> else row) (map_of s tok)"
  by (induction s) (auto simp: revokeForExecution_def)

lemma map_of_swept:
  "distinct (map fst s) \<Longrightarrow> map_of (snd (deleteExpired now s)) tok = Some g \<Longrightarrow> map_of s tok = Some g"
  by (auto simp: deleteExpired_def dest!: map_of_SomeD intro: map_of_is_SomeI)

lemma grant_step_row: "grant_step tok s s' \<Longrightarrow> distinct (map fst s) \<Longrightarrow> distinct (map fst s') \<and> from_row tok s s'"
proof (induction rule: grant_step.induct)
  case (gs_issue gw s base ttl args)
  then show ?case by (simp add: issueConnectionRefreshGrant_def Let_def grant_create_def distinct_update from_row_def issued_row_def)
next
  case (gs_redeem s drivers date_ms isodate resolve token now)
  have "distinct (map fst (recordRedemption token (isodate now) s))"
    using gs_redeem by (simp add: recordRedemption_def distinct_update split: option.splits)
  moreover have "from_row tok s s" by (simp add: from_row_def)
  ultimately show ?case
    using redeem_store [of drivers date_ms isodate resolve token now s] record_from_row [of tok s token "isodate now"] gs_redeem by auto
next
  case (gs_revoke now s executionId)
  then show ?case
    by (auto simp: from_row_def map_of_revoked same_grant_revoked) (simp add: revokeForExecution_def comp_def split_beta)
next
  case (gs_sweep s now)
  then show ?case using map_of_swept [OF gs_sweep]
    by (auto simp: from_row_def deleteExpired_def distinct_map_filter)
qed

lemma grant_steps_row:
  assumes "(grant_step tok)\<^sup>*\<^sup>* s s'" "distinct (map fst s)"
  shows "distinct (map fst s') \<and> from_row tok s s'"
  using assms
proof (induction rule: rtranclp_induct)
  case (step y z)
  then show ?case using grant_step_row [OF step(2)] unfolding from_row_def by (meson same_grant_trans)
qed (simp add: from_row_def)

text \<open>What a successful redemption read.\<close>

lemma redeem_ok:
  assumes "redeemConnectionCredentialGrant drivers date_ms isodate resolve token now s = (Inr r, s')" "rr_status r = R_ok"
  shows "\<exists>g conn c. map_of s token = Some g \<and> \<not> str_truthy (cg_revokedAt g) \<and> \<not> grant_expired date_ms now g \<and>
    resolve (redeem_args g) = Some conn \<and> materializeExternalCredential drivers conn (redeem_context g) = Inr (Some c) \<and>
    rr_credential r = Some (wire_credential c) \<and> rr_grant r = Some g"
  using assms by (auto simp: redeemConnectionCredentialGrant_def getByToken_def Let_def split: option.splits sum.splits if_splits)

lemma redeem_refused:
  "map_of s token = Some g \<Longrightarrow> str_truthy (cg_revokedAt g) \<Longrightarrow>
     redeemConnectionCredentialGrant drivers date_ms isodate resolve token now s =
       (Inr \<lparr>rr_status = R_revoked, rr_credential = None, rr_grant = Some g\<rparr>, s)"
  "map_of s token = None \<Longrightarrow>
     redeemConnectionCredentialGrant drivers date_ms isodate resolve token now s =
       (Inr \<lparr>rr_status = R_unknown_token, rr_credential = None, rr_grant = None\<rparr>, s)"
  by (simp_all add: redeemConnectionCredentialGrant_def getByToken_def)

text \<open>The connections of a deployment in memory do not depend on its pipeline bindings, nor on other tenants.\<close>

definition plane_resolver :: "secret_service \<Rightarrow> data_plane \<Rightarrow> SlugArgs \<Rightarrow> ResolvedExternalConnection option" where
  "plane_resolver sv dp = ExternalConnectionResolver_resolve (connection_resolveSlug (dp_connections dp)) (provider_read sv (dp_secrets dp))"

definition grant_request :: "CredentialGrantRow \<Rightarrow> ResolveArgs" where
  "grant_request g = \<lparr>ra_ref = \<lparr>dr_slug = [], dr_alias = None\<rparr>, ra_tenantId = Some (cg_tenantId g),
     ra_environmentId = Some (cg_environment g), ra_pipelineId = None\<rparr>"

definition grant_plain :: "CredentialGrantRow \<Rightarrow> bool" where
  "grant_plain g \<longleftrightarrow> cg_tenantId g \<noteq> [] \<and> cg_connectionSlug g \<noteq> [] \<and> colon_free (Some (cg_tenantId g)) \<and> colon_free (Some (cg_environment g))"

lemma plane_resolver_grant:
  assumes "grant_plain g"
  shows "plane_resolver sv dp (redeem_args g) =
    map_option (\<lambda>c. resolved_connection c (connection_secret (dd_secrets (memory_deps sv dp)) (ra_tenantId (grant_request g)) (ra_environmentId (grant_request g)) c))
      (find_connection (memory_deps sv dp) (grant_request g) (Some (cg_connectionSlug g)))"
proof -
  have "slug_args (grant_request g) (cg_connectionSlug g) = redeem_args g"
    by (simp add: slug_args_def grant_request_def redeem_args_def)
  then show ?thesis using assms
    by (auto simp: plane_resolver_def ExternalConnectionResolver_resolve_def find_connection_memory grant_plain_def str_truthy_def
        connection_secret_def external_cascade_def grant_request_def redeem_args_def split: option.split)
qed

lemma foreign_write_unbound:
  assumes "foreign_write sv t dp dp'"
  shows "foreign_write sv t (dp\<lparr>dp_bindings := []\<rparr>) (dp'\<lparr>dp_bindings := []\<rparr>)"
  using assms
proof (cases rule: foreign_writeE)
  case (fw_dataset row row' rs')
  then show ?thesis using foreign_write.fw_dataset [of t row "dp\<lparr>dp_bindings := []\<rparr>" row' rs' sv] by (cases dp) simp
next
  case (fw_connection row row' rs')
  then show ?thesis using foreign_write.fw_connection [of t row "dp\<lparr>dp_bindings := []\<rparr>" row' rs' sv] by (cases dp) simp
next
  case (fw_secret w iv now v md)
  then show ?thesis using foreign_write.fw_secret [of t w sv "dp\<lparr>dp_bindings := []\<rparr>" iv now v md] by (cases dp) simp
qed

lemma plane_resolver_step:
  assumes "foreign_write sv (cg_tenantId g) dp dp'" "plane_ok dp" "grant_plain g"
  shows "plane_resolver sv dp' (redeem_args g) = plane_resolver sv dp (redeem_args g)"
proof -
  let ?a = "grant_request g"
  have ok: "plane_ok (dp\<lparr>dp_bindings := []\<rparr>)" using assms(2) by (simp add: plane_ok_def)
  have req: "request_ok (cg_tenantId g) ?a" using assms(3) by (simp add: request_ok_def grant_request_def grant_plain_def)
  have "override_registered (dp\<lparr>dp_bindings := []\<rparr>) ?a" by (simp add: override_registered_def resolveBinding_def crud_list_def)
  from foreign_write_reads [OF foreign_write_unbound [OF assms(1)] ok req this]
  have same: "same_reads ?a (memory_deps sv (dp\<lparr>dp_bindings := []\<rparr>)) (memory_deps sv (dp'\<lparr>dp_bindings := []\<rparr>))" by blast
  have "plane_resolver sv (dp\<lparr>dp_bindings := []\<rparr>) (redeem_args g) = plane_resolver sv (dp'\<lparr>dp_bindings := []\<rparr>) (redeem_args g)"
    using same unfolding plane_resolver_grant [OF assms(3)] same_reads_def by (intro map_option_cong) auto
  then show ?thesis by (simp add: plane_resolver_def)
qed

lemma plane_resolver_isolated:
  assumes "(foreign_write sv (cg_tenantId g))\<^sup>*\<^sup>* dp dp'" "plane_ok dp" "grant_plain g"
  shows "plane_resolver sv dp' (redeem_args g) = plane_resolver sv dp (redeem_args g) \<and> plane_ok dp'"
  using assms(1)
proof (induction rule: rtranclp_induct)
  case (step y z)
  then show ?case using plane_resolver_step [OF step(2) _ assms(3)] foreign_write_ok [OF step(2)] by simp
qed (use assms in simp)

lemma redeem_cong:
  "(\<And>g. map_of s token = Some g \<Longrightarrow> resolve (redeem_args g) = resolve' (redeem_args g)) \<Longrightarrow>
     redeemConnectionCredentialGrant drivers date_ms isodate resolve token now s =
     redeemConnectionCredentialGrant drivers date_ms isodate resolve' token now s"
  by (simp add: redeemConnectionCredentialGrant_def getByToken_def Let_def split: option.split)

section \<open>An example\<close>

text \<open>Dates written in unary, a connection kind with a driver that hands out a token.\<close>

definition unary_iso :: "int \<Rightarrow> string" where
  "unary_iso t = (if t < 0 then CHR ''-'' # replicate (nat (- t)) (CHR ''1'') else replicate (nat t) (CHR ''1''))"

definition unary_ms :: "string \<Rightarrow> int option" where
  "unary_ms s = (case s of [] \<Rightarrow> Some 0 | c # cs \<Rightarrow> Some (if c = CHR ''-'' then - int (length cs) else int (length s)))"

lemma unary_dates [simp]: "unary_ms (unary_iso t) = Some t"
  by (cases "nat t") (auto simp: unary_ms_def unary_iso_def)

definition some_credential :: MaterializedExternalCredential where
  "some_credential = \<lparr>mc_credential = \<lparr>xc_value = Some ''bearer'', xc_headers = None, xc_query = None, xc_expiresAt = None, xc_options = None\<rparr>,
     mc_refreshContext = None\<rparr>"

definition some_drivers :: drivers where
  "some_drivers = [(''http'', Some (\<lambda>conn context. Inr some_credential))]"

definition some_external :: ResolvedExternalConnection where
  "some_external = \<lparr>rx_id = ''c1'', rx_slug = ''pg'', rx_kind = ''http'', rx_secret = None, rx_options = [], rx_cascadeReason = By_tenant\<rparr>"

definition some_world :: grant_world where
  "some_world = \<lparr>gw_now = 100, gw_iso = unary_iso, gw_uuid = ''g1'', gw_token = ''token''\<rparr>"

definition some_issue :: IssueArgs where
  "some_issue = \<lparr>gi_executionId = ''e1'', gi_nodeId = ''n1'', gi_tenantId = ''acme'', gi_environment = ''dev'', gi_connectionSlug = ''pg'',
     gi_deadline = Some 500, gi_refreshContext = None\<rparr>"

definition some_grants :: grant_store where
  "some_grants = snd (issueConnectionRefreshGrant ''http://api/'' None some_world some_issue [])"

definition some_refresh_deps :: refresh_deps where
  "some_refresh_deps = \<lparr>re_drivers = some_drivers, re_dateMs = unary_ms, re_iso = unary_iso, re_resolve = (\<lambda>args. None)\<rparr>"

lemma some_grants_row: "some_grants = [(''token'', issued_row None some_world some_issue)]"
  by (simp add: some_grants_def issueConnectionRefreshGrant_def Let_def grant_create_def issued_row_def some_world_def)

lemma some_redemption:
  "redeemConnectionCredentialGrant some_drivers unary_ms unary_iso (\<lambda>args. Some some_external) ''token'' 499 some_grants =
     (Inr \<lparr>rr_status = R_ok, rr_credential = Some (wire_credential some_credential), rr_grant = Some (issued_row None some_world some_issue)\<rparr>,
      recordRedemption ''token'' (unary_iso 499) some_grants)"
  by (simp add: redeemConnectionCredentialGrant_def getByToken_def some_grants_row issued_row_def Let_def some_issue_def some_world_def grant_expired_def
      DEFAULT_MAX_TTL_MS_def materializeExternalCredential_def some_external_def some_drivers_def)

section \<open>Properties\<close>

text \<open>C22: Whatever happens to the store after a grant is issued, its token is worth a credential only before the deadline of
  its run and before the ceiling on its age, and the credential is then what the driver makes of the connection that the
  grant names, resolved for the tenant and environment of the grant.\<close>

theorem grant_lifetime_bounded:
  assumes "issueConnectionRefreshGrant base ttl gw args s = (ig, s1)" "distinct (map fst s)"
    and "\<And>t. date_ms (gw_iso gw t) = Some t" "(grant_step (ig_token ig))\<^sup>*\<^sup>* s1 s2"
    and "redeemConnectionCredentialGrant drivers date_ms isodate resolve (ig_token ig) now s2 = (Inr r, s3)" "rr_status r = R_ok"
  shows "now < gw_now gw + nullish ttl DEFAULT_MAX_TTL_MS \<and> (\<forall>d. gi_deadline args = Some d \<longrightarrow> now < d) \<and>
    (\<exists>conn c. resolve \<lparr>sa_slug = gi_connectionSlug args, sa_tenantId = Some (gi_tenantId args), sa_environmentId = Some (gi_environment args)\<rparr> = Some conn \<and>
       map_of drivers (rx_kind conn) \<noteq> None \<and> rr_credential r = Some (wire_credential c) \<and>
       materializeExternalCredential drivers conn \<lparr>mx_tenantId = gi_tenantId args, mx_environment = gi_environment args,
         mx_executionId = gi_executionId args, mx_nodeId = gi_nodeId args, mx_config = JObj [], mx_inputs = JObj [],
         mx_refreshContext = gi_refreshContext args\<rparr> = Inr (Some c))"
proof -
  let ?g = "issued_row ttl gw args" and ?ceiling = "gw_now gw + nullish ttl DEFAULT_MAX_TTL_MS"
  have row: "map_of s1 (ig_token ig) = Some ?g" and d: "distinct (map fst s1)"
    using assms(1,2) by (auto simp: issueConnectionRefreshGrant_def Let_def grant_create_def distinct_update issued_row_def)
  from redeem_ok [OF assms(5,6)] obtain g' conn c where r: "map_of s2 (ig_token ig) = Some g'" "\<not> grant_expired date_ms now g'"
    "resolve (redeem_args g') = Some conn" "materializeExternalCredential drivers conn (redeem_context g') = Inr (Some c)"
    "rr_credential r = Some (wire_credential c)" by blast
  have "same_grant ?g g'" using grant_steps_row [OF assms(4) d] r(1) row by (auto simp: from_row_def)
  note same = same_grant_fields [OF this]
  have "now < min (case gi_deadline args of Some d \<Rightarrow> d | None \<Rightarrow> ?ceiling) ?ceiling"
    using r(2) same assms(3) by (simp add: grant_expired_def issued_row_def Let_def not_le)
  moreover have "map_of drivers (rx_kind conn) \<noteq> None"
    using r(4) by (cases "map_of drivers (rx_kind conn)") (simp_all add: materializeExternalCredential_def)
  moreover note r(3-5)
  ultimately show ?thesis using same by (auto simp: issued_row_def Let_def redeem_args_def redeem_context_def)
qed

theorem grant_lifetime_bounded_witness:
  "\<exists>r s. redeemConnectionCredentialGrant some_drivers unary_ms unary_iso (\<lambda>args. Some some_external) ''token'' 499 some_grants = (Inr r, s) \<and>
     rr_status r = R_ok \<and> rr_credential r = Some (wire_credential some_credential) \<and> (499::int) < the (gi_deadline some_issue)"
proof -
  have i: "issueConnectionRefreshGrant ''http://api/'' None some_world some_issue [] =
      (fst (issueConnectionRefreshGrant ''http://api/'' None some_world some_issue []), some_grants)" by (simp add: some_grants_def)
  have tok: "ig_token (fst (issueConnectionRefreshGrant ''http://api/'' None some_world some_issue [])) = ''token''"
    by (simp add: issueConnectionRefreshGrant_def Let_def some_world_def)
  have dates: "unary_ms (gw_iso some_world t) = Some t" for t by (simp add: some_world_def)
  have "499 < (500::int)"
    using grant_lifetime_bounded [OF i _ dates rtranclp.rtrancl_refl some_redemption [folded tok]] by (simp add: some_issue_def)
  then show ?thesis using some_redemption by (simp add: some_issue_def)
qed

text \<open>C23: Once the grants of an execution are revoked, no token of the execution is worth a credential again, whatever happens
  to the store afterwards and however the connection resolves: it is refused as revoked or, when swept, as unknown.\<close>

theorem revocation_is_final:
  assumes "map_of s tok = Some g" "distinct (map fst s)" "now0 \<noteq> []"
    and "(grant_step tok)\<^sup>*\<^sup>* (snd (revokeForExecution (cg_executionId g) now0 s)) s2"
  shows "\<exists>r. redeemConnectionCredentialGrant drivers date_ms isodate resolve tok now s2 = (Inr r, s2) \<and>
    rr_status r \<in> {R_revoked, R_unknown_token} \<and> rr_credential r = None"
proof -
  let ?s1 = "snd (revokeForExecution (cg_executionId g) now0 s)"
  have d: "distinct (map fst ?s1)" using assms(2) by (simp add: revokeForExecution_def comp_def split_beta)
  have "\<exists>g1. map_of ?s1 tok = Some g1 \<and> str_truthy (cg_revokedAt g1)"
    using assms(1,3) by (auto simp: map_of_revoked revocable_def str_truthy_def)
  then have "\<forall>g2. map_of s2 tok = Some g2 \<longrightarrow> str_truthy (cg_revokedAt g2)"
    using grant_steps_row [OF assms(4) d] same_grant_fields unfolding from_row_def by fastforce
  then show ?thesis by (cases "map_of s2 tok") (auto simp: redeem_refused)
qed

theorem revocation_is_final_witness:
  "\<exists>r s. redeemConnectionCredentialGrant some_drivers unary_ms unary_iso (\<lambda>args. Some some_external) ''token'' 499
      (snd (revokeForExecution ''e1'' ''now'' some_grants)) = (Inr r, s) \<and> rr_credential r = None"
proof -
  have m: "map_of some_grants ''token'' = Some (issued_row None some_world some_issue)" and d: "distinct (map fst some_grants)"
    by (simp_all add: some_grants_row)
  have e: "cg_executionId (issued_row None some_world some_issue) = ''e1''" by (simp add: issued_row_def Let_def some_issue_def)
  from revocation_is_final [OF m d, of "''now''" "snd (revokeForExecution ''e1'' ''now'' some_grants)" some_drivers unary_ms unary_iso
      "\<lambda>args. Some some_external" 499]
  show ?thesis unfolding e by auto
qed

text \<open>The route's limiters are shared: a sidecar of any tenant behind the same address uses up the tokens of the address.\<close>

definition limiter_refusal :: "route_error + AppResponse \<Rightarrow> bool" where
  "limiter_refusal r \<longleftrightarrow> (\<exists>scope decision. r = Inr (limited_response scope decision))"

lemma refresh_route_cases:
  "limiter_refusal (fst (refresh_route deps now request st)) \<or>
   fst (refresh_route deps now request st) =
     (case opt_str (member (rq_body request) ''token'') of
        None \<Rightarrow> Inr (error_response 400 ''invalid_request'' [(''message'', JStr ''body.token is required'')])
      | Some token \<Rightarrow> if token = [] then Inr (error_response 400 ''invalid_request'' [(''message'', JStr ''body.token is required'')])
          else (case fst (redeemConnectionCredentialGrant (re_drivers deps) (re_dateMs deps) (re_iso deps) (re_resolve deps) token now (rf_grants st)) of
                  Inl e \<Rightarrow> Inl Route_failed | Inr r \<Rightarrow> Inr (redeem_response r)))"
  by (auto simp: refresh_route_def limiter_refusal_def Let_def str_truthy_def split: prod.split sum.split option.split)

lemma redeem_row:
  "map_of s token = map_of s' token \<Longrightarrow>
     fst (redeemConnectionCredentialGrant drivers date_ms isodate resolve token now s) =
     fst (redeemConnectionCredentialGrant drivers date_ms isodate resolve token now s')"
  by (simp add: redeemConnectionCredentialGrant_def getByToken_def Let_def split: option.split sum.split)

text \<open>C24: Datasets, connections and secrets that other tenants create change nothing of what the refresh route does for a
  token.  Whatever the store holds of other grants and the limiters hold of other addresses and tokens, its answer is the
  same or a refusal of the limiters, which all callers behind an address share.  The connection behind it is global or the
  tenant's of the grant.\<close>

theorem refresh_confined:
  assumes "(foreign_write sv (cg_tenantId g))\<^sup>*\<^sup>* dp dp'" "plane_ok dp" "grant_plain g"
    and "opt_str (member (rq_body request) ''token'') = Some token" "map_of (rf_grants st) token = Some g"
    and "map_of (rf_grants st') token = Some g"
  shows "refresh_route (deps\<lparr>re_resolve := plane_resolver sv dp'\<rparr>) now request st = refresh_route (deps\<lparr>re_resolve := plane_resolver sv dp\<rparr>) now request st \<and>
    (fst (refresh_route (deps\<lparr>re_resolve := plane_resolver sv dp'\<rparr>) now request st') = fst (refresh_route (deps\<lparr>re_resolve := plane_resolver sv dp\<rparr>) now request st) \<or>
       limiter_refusal (fst (refresh_route (deps\<lparr>re_resolve := plane_resolver sv dp'\<rparr>) now request st')) \<or>
       limiter_refusal (fst (refresh_route (deps\<lparr>re_resolve := plane_resolver sv dp\<rparr>) now request st))) \<and>
    (\<forall>conn. plane_resolver sv dp (redeem_args g) = Some conn \<longrightarrow> (\<exists>c \<in> set (map snd (dp_connections dp)).
       so_id c = rx_id conn \<and> so_tenantId c = (if so_scope c = DS_global then None else Some (cg_tenantId g))))"
proof (intro conjI)
  let ?route = "\<lambda>dp. refresh_route (deps\<lparr>re_resolve := plane_resolver sv dp\<rparr>) now request"
  have same: "redeemConnectionCredentialGrant drivers date_ms isodate (plane_resolver sv dp') token now s =
      redeemConnectionCredentialGrant drivers date_ms isodate (plane_resolver sv dp) token now s"
    if "map_of s token = Some g" for drivers date_ms isodate s
    using plane_resolver_isolated [OF assms(1-3)] that by (intro redeem_cong) simp
  show "?route dp' st = ?route dp st"
    by (simp add: refresh_route_def assms(4,5) same Let_def split_beta)
  have "fst (redeemConnectionCredentialGrant drivers date_ms isodate resolve token now (rf_grants st')) =
      fst (redeemConnectionCredentialGrant drivers date_ms isodate resolve token now (rf_grants st))" for drivers date_ms isodate resolve
    using assms(5,6) by (intro redeem_row) simp
  with same [OF assms(6)] show "fst (?route dp' st') = fst (?route dp st) \<or> limiter_refusal (fst (?route dp' st')) \<or> limiter_refusal (fst (?route dp st))"
    using refresh_route_cases [of "deps\<lparr>re_resolve := plane_resolver sv dp'\<rparr>" now request st']
      refresh_route_cases [of "deps\<lparr>re_resolve := plane_resolver sv dp\<rparr>" now request st]
    by (auto simp: assms(4))
  have inv: "registry_inv (dp_connections dp)" using assms(2) by (simp add: plane_ok_def)
  have req: "request_ok (cg_tenantId g) (grant_request g)" using assms(3) by (simp add: request_ok_def grant_request_def grant_plain_def)
  show "\<forall>conn. plane_resolver sv dp (redeem_args g) = Some conn \<longrightarrow> (\<exists>c \<in> set (map snd (dp_connections dp)).
       so_id c = rx_id conn \<and> so_tenantId c = (if so_scope c = DS_global then None else Some (cg_tenantId g)))"
    using found_connection_tenant [OF inv req] unfolding plane_resolver_grant [OF assms(3)]
    by (fastforce simp: resolved_connection_def)
qed

theorem refresh_confined_witness:
  "refresh_route (some_refresh_deps\<lparr>re_resolve := plane_resolver ex_service ((ex_plane [] ''acme'')\<lparr>dp_secrets :=
       snd (secret_put ex_service ex_iv ''now'' (ex_ref SS_tenant (Some ''other'')) ''x'' None [])\<rparr>)\<rparr>) 499
     \<lparr>rq_method = [], rq_path = [], rq_headers = [], rq_query = [], rq_body = JObj [(''token'', JStr ''token'')]\<rparr>
     \<lparr>rf_grants = some_grants, rf_ipBuckets = [], rf_tokenBuckets = []\<rparr> =
   refresh_route (some_refresh_deps\<lparr>re_resolve := plane_resolver ex_service (ex_plane [] ''acme'')\<rparr>) 499
     \<lparr>rq_method = [], rq_path = [], rq_headers = [], rq_query = [], rq_body = JObj [(''token'', JStr ''token'')]\<rparr>
     \<lparr>rf_grants = some_grants, rf_ipBuckets = [], rf_tokenBuckets = []\<rparr>"
proof (rule refresh_confined [where g = "issued_row None some_world some_issue" and token = "''token''", THEN conjunct1, OF _ ex_plane_ok])
  have "foreign_ref ''acme'' (ex_ref SS_tenant (Some ''other''))"
    by (simp add: foreign_ref_def ex_ref_def ref_plain_def colon_free_def)
  from foreign_write.fw_secret [OF this, of ex_service "ex_plane [] ''acme''" ex_iv "''now''" "''x''" None]
  show "(foreign_write ex_service (cg_tenantId (issued_row None some_world some_issue)))\<^sup>*\<^sup>* (ex_plane [] ''acme'') ((ex_plane [] ''acme'')\<lparr>dp_secrets :=
       snd (secret_put ex_service ex_iv ''now'' (ex_ref SS_tenant (Some ''other'')) ''x'' None [])\<rparr>)"
    by (auto simp: ex_plane_def issued_row_def Let_def some_issue_def)
  show "grant_plain (issued_row None some_world some_issue)"
    by (simp add: grant_plain_def issued_row_def Let_def some_issue_def colon_free_def)
  show row: "map_of (rf_grants \<lparr>rf_grants = some_grants, rf_ipBuckets = [], rf_tokenBuckets = []\<rparr>) ''token'' = Some (issued_row None some_world some_issue)"
    by (simp add: some_grants_row)
  show "map_of (rf_grants \<lparr>rf_grants = some_grants, rf_ipBuckets = [], rf_tokenBuckets = []\<rparr>) ''token'' = Some (issued_row None some_world some_issue)"
    by (rule row)
qed (simp add: member_def obj_get_def)

end
