(* ===== verification/Spec2Isabelle.thy ===== *)
theory Spec2Isabelle
  imports Config_Resolver Spec_Lifecycle Stages Execution Dataset_Resolver Public_Routes Scheduler Leader_Election
    Credential_Grants
begin

text \<open>
  Verification of the core of RAGdoll, a multi-tenant platform that runs retrieval pipelines.

  \<^bold>\<open>The program.\<close>  A pipeline is a graph of plugin nodes, stored as a versioned specification
  (\<open>packages/pipeline-spec\<close>).  Its configuration is resolved from seven scopes
  (\<open>packages/config-resolver\<close>).  A run (\<open>packages/runtime\<close>) drains the graph in batches, calls a
  plugin for each node with the outputs of its predecessors, datasets, connections and secrets
  (\<open>packages/secrets\<close>, \<open>packages/external-connections\<close>, repositories in \<open>packages/db\<close>), and keeps a
  record of it all.  The HTTP API (\<open>apps/api\<close>) authenticates a request (\<open>packages/auth\<close>), attaches to
  it a decision of the role-based access control (\<open>packages/authz\<close>) and calls a handler.  Workers
  (\<open>apps/worker\<close>) take jobs from a queue; the one that holds a lease enqueues the runs of due schedules.

  \<^bold>\<open>Theories and code.\<close>
  \<^item> \<open>Prelude\<close>: the JavaScript values the sources handle (\<open>json\<close>, numbers as decimals, strings of
    characters below 256, \<open>Map\<close> and objects as association lists in enumeration order), the string
    and regular-expression operations used, UTF-8, lemmas shared by all components.
  \<^item> \<open>Core_Model\<close>: vocabulary, redaction, slugs, stable hash and collection names
    (\<open>packages/core/src/index.ts\<close>).
  \<^item> \<open>Config_Resolver\<close>: \<open>packages/config-resolver/src/index.ts\<close>.
  \<^item> \<open>Spec_Lifecycle\<close>: versions, checksums, activations (\<open>packages/pipeline-spec/src/lifecycle.ts\<close>);
    \<open>Graph_Cycle\<close> and \<open>Spec_Validator\<close>: the validator (\<open>packages/pipeline-spec/src/index.ts\<close>);
    \<open>Stages\<close>: stage projection (\<open>stagesProjection.ts\<close>).
  \<^item> \<open>Plugin_Registry\<close>: \<open>packages/plugin-sdk/src/index.ts\<close>; its locale \<open>keyed_store\<close> is the contract of
    every store with keys and is interpreted on the registry, the execution store and the secrets.
  \<^item> \<open>Execution_Store\<close>, \<open>Node_Execution\<close>, \<open>Dag_Runtime\<close>: the runtime (\<open>packages/runtime/src/index.ts\<close>):
    its stores, the execution of a node with retries, templates and secrets, and the graph executor
    with its ready queue, skipping, eviction and the life cycle of an execution.  \<open>Dataflow\<close> is the
    specification of a run, \<open>Execution\<close> the properties that connect the two.
  \<^item> \<open>Scoped_Repos\<close>: the in-memory repositories (\<open>packages/db/src/memory\<close>), with the locale
    \<open>slug_registry\<close> interpreted on connections, datasets and bindings; \<open>Secrets\<close>:
    \<open>packages/secrets/src/index.ts\<close>; \<open>Dataset_Resolver\<close>: \<open>dataset-resolver.ts\<close> and
    \<open>dataset-namespace.ts\<close> of the runtime and the connection resolver.
  \<^item> \<open>Authz\<close>: roles, scopes, grants, engines and the caching authorizer
    (\<open>packages/authz/src/index.ts\<close>), with the locale \<open>policy_engine\<close> interpreted on the built-in engine.
    \<open>Auth\<close>: sessions, revocation, API keys, the resolver of credentials (\<open>packages/auth/src/index.ts\<close>).
    \<open>Accounts\<close>: passwords, local login, signup, single sign-on, webhook tokens (\<open>accounts.ts\<close>,
    \<open>password.ts\<close>, \<open>sso-state.ts\<close>, \<open>webhookTokens.ts\<close> of that package and \<open>db/src/memory/auth.ts\<close>).
  \<^item> \<open>Api_Core\<close>: the router, authentication of a request, the rate limiter and exceptions
    (\<open>apps/api/src/app.ts\<close>, \<open>app/http-utils.ts\<close>, \<open>app/rate-limit.ts\<close>).  \<open>Account_Routes\<close>: the handlers of
    users, grants, login, single sign-on, roles, API keys, settings and identity providers
    (\<open>app/routes\<close>).  \<open>Account_Api\<close>: their route table and the server as a state transformer with the
    invariant of its histories; \<open>Access_Control\<close> and \<open>Public_Routes\<close>: its properties.
  \<^item> \<open>Scheduler\<close>: schedules, their routes and the ticks that enqueue runs (\<open>packages/cron\<close>,
    \<open>routes/schedules.ts\<close>, \<open>apps/worker/src/scheduler.ts\<close>).  \<open>Leader_Election\<close>: the lease over Redis that
    decides which worker ticks (\<open>leader-election.ts\<close>), as steps of any number of workers.
    \<open>Credential_Grants\<close>: refresh grants of plugins outside the process (\<open>credential-grants.ts\<close>, twice, and
    \<open>routes/connection-credentials.ts\<close>).

  \<^bold>\<open>State and steps.\<close>  A store is a record or an association list that is passed on explicitly.  A thrown
  exception is a value of an error type.  Concurrency is an arbitrary order of atomic steps: the nodes of
  a batch in the runtime, the read of the store (\<open>grants_read\<close>) and the write of the authorizer's cache
  (\<open>grants_fill\<close>) that make up \<open>grantsFor\<close>, with the steps of \<open>authz_later\<close> between them.  A node of the runtime is one
  step, a plugin a function of what it is given; the one thing concurrent nodes share, the bindings of the
  executor that a nested run replaces, is an argument (\<open>wd_overwritten\<close>, which bindings a node finds
  replaced), and the independence of order holds where no node with a binding finds them replaced
  (\<open>undisturbed\<close>).  Histories are inductive relations (\<open>authz_reach\<close>, \<open>authz_later\<close>, \<open>requests\<close>, \<open>revocation_later\<close>,
  \<open>account_reach\<close>, \<open>served\<close>, \<open>worker_later\<close>, \<open>schedule_history\<close>, \<open>cluster_reach\<close>, \<open>grant_step\<close>, and \<open>registry_reach\<close>, the
  histories of a registry in which updates keep slugs); invariants are proved by rule induction over them.
  The account API is that of \<open>server.ts\<close> in both its forms: \<open>dp_keyHooks\<close> says whether the key service is built with
  the hooks into accounts and grants, as with Postgres, or without, as in memory; the stores are the in-memory
  repositories, whose contract the Postgres ones share.  Clock, random values, hashes, ciphers, scrypt,
  plugins, identity providers and date parsing come from outside and are arguments; where a property relies
  on them the assumption is named (\<open>scrypt_ok\<close>, \<open>parses_payload\<close>, a cipher that decrypts what it encrypted).

  \<^bold>\<open>What the lemmas show.\<close>  The executor computes the unique solution of the dataflow equations of its graph
  whatever the order in which nodes finish; every execution ends with one terminal record.  Resolution of
  datasets, connections and secrets is not influenced by other tenants.  Redaction leaves no sensitive
  member.  Configuration follows precedence and policy.  Access decisions are exactly those of the stored
  grants in every history of requests, an API key never exceeds its owner, a revoked session never
  verifies.  A due schedule fires once, for a creator who may run it by the grants the worker sees, which
  nothing in a worker refreshes; at most one worker is a leader
  with a fresh lease, and an idle one takes over; a refresh grant ends with its run.  The rate limiter bounds what a key
  gets in any period unless it forgets the key.  Where the code falls short of this the property states how, with a
  concrete instance:
  cross-tenant bindings, colliding collection names, the race of revocations, asynchronous revocation lists,
  takeover by address at single sign-on, the escalation of a tenant administrator, sessions of disabled accounts,
  schedules without a creator to check, workers that never see a revocation.

  \<^bold>\<open>Bounds and termination.\<close>  No definition uses fuel.  The loops of the program that are not structural
  (the ready queue, depth-first search, matching of references) are functions with termination proofs; the
  measure of the ready queue is the nodes still to be completed.  Integers are unbounded except where the code
  wraps (32-bit checksum, bytes of UTF-8, base64 and ciphertexts, which are words); doubles occur as decimals,
  and as rationals in the rate limiter.

  \<^bold>\<open>Not modelled.\<close>  Texts of messages, logs, metrics, audit entries; the other routes of the API, the web
  console, the command line, the job handlers of the worker, which are input and output around the components above; clients of
  model providers, search, vector and graph stores, git, Redis and Postgres, whose behaviour is that of
  the third party; plugin loading and built-in plugins, which are parameters of the runtime; the Casbin
  engine, which drives a third-party enforcer and is covered by the contract \<open>policy_engine\<close>.
\<close>

end
